(* ===== verification/Prelude.thy ===== *)
theory Prelude
  imports Main "HOL-Library.AList" "HOL-Library.Sublist" "HOL-Library.Multiset"
begin

text \<open>
  Shared vocabulary of the development: Python exceptions and fallible results, Python
  dictionaries as insertion-ordered association lists, and a few list facts. A fallible
  Python call is a value of type \<open>exc + 'a\<close>: \<open>Inl e\<close> when it raises \<open>e\<close>, \<open>Inr v\<close> when it
  returns \<open>v\<close>. A dictionary is an association list updated by \<open>AList.update\<close>, which, as
  Python does, overwrites a present key in place and appends a new one at the end.
\<close>

named_theorems result_simps \<open>unfolding of fallible results\<close>
named_theorems dict_simps \<open>dictionaries as association lists\<close>

section \<open>Exceptions and results\<close>

datatype exc =
    TypeError
  | ValueError
  | OverflowError
  | AttributeError
  | KeyError
  | RuntimeError
  | TimeoutError
  | RedisError
  | JWTError
  | HTTPException int
  | OtherError string

type_synonym 'a result = "exc + 'a"

definition bind_result :: "'a result \<Rightarrow> ('a \<Rightarrow> 'b result) \<Rightarrow> 'b result" where
  "bind_result m f = (case m of Inl e \<Rightarrow> Inl e | Inr v \<Rightarrow> f v)"

lemma bind_result_simps [simp, result_simps]:
  "bind_result (Inl e) f = Inl e"
  "bind_result (Inr v) f = f v"
  by (simp_all add: bind_result_def)

lemma bind_result_eq_Inr [result_simps]:
  "bind_result m f = Inr w \<longleftrightarrow> (\<exists>v. m = Inr v \<and> f v = Inr w)"
  by (simp add: bind_result_def split: sum.split)

lemma bind_result_eq_Inl [result_simps]:
  "bind_result m f = Inl e \<longleftrightarrow> m = Inl e \<or> (\<exists>v. m = Inr v \<and> f v = Inl e)"
  by (auto simp: bind_result_def split: sum.split)

lemma bind_result_cong [fundef_cong]:
  "m = m' \<Longrightarrow> (\<And>v. m' = Inr v \<Longrightarrow> f v = g v) \<Longrightarrow> bind_result m f = bind_result m' g"
  by (simp add: bind_result_def split: sum.split)

fun map_result :: "('a \<Rightarrow> 'b result) \<Rightarrow> 'a list \<Rightarrow> 'b list result" where
  "map_result f [] = Inr []"
| "map_result f (x # xs) =
     bind_result (f x) (\<lambda>y. bind_result (map_result f xs) (\<lambda>ys. Inr (y # ys)))"

lemma map_result_Inr: "(\<And>x. x \<in> set xs \<Longrightarrow> f x = Inr (g x)) \<Longrightarrow> map_result f xs = Inr (map g xs)"
  by (induction xs) auto

lemma map_result_length: "map_result f xs = Inr ys \<Longrightarrow> length ys = length xs"
  by (induction xs arbitrary: ys) (auto simp: result_simps)

section \<open>Dictionaries\<close>

type_synonym ('k, 'v) pydict = "('k \<times> 'v) list"

abbreviation dget :: "('k, 'v) pydict \<Rightarrow> 'k \<Rightarrow> 'v option" where
  "dget d k \<equiv> map_of d k"

abbreviation dset :: "'k \<Rightarrow> 'v \<Rightarrow> ('k, 'v) pydict \<Rightarrow> ('k, 'v) pydict" where
  "dset \<equiv> AList.update"

abbreviation ddel :: "'k \<Rightarrow> ('k, 'v) pydict \<Rightarrow> ('k, 'v) pydict" where
  "ddel \<equiv> AList.delete"

abbreviation dkeys :: "('k, 'v) pydict \<Rightarrow> 'k list" where
  "dkeys d \<equiv> map fst d"

text \<open>\<open>d.get(k, v)\<close>.\<close>

definition dget_or :: "('k, 'v) pydict \<Rightarrow> 'k \<Rightarrow> 'v \<Rightarrow> 'v" where
  "dget_or d k v = (case dget d k of None \<Rightarrow> v | Some w \<Rightarrow> w)"

text \<open>\<open>d.update(e)\<close>: the pairs of \<open>e\<close> stored into \<open>d\<close> in order.\<close>

fun dmerge :: "('k, 'v) pydict \<Rightarrow> ('k, 'v) pydict \<Rightarrow> ('k, 'v) pydict" where
  "dmerge d [] = d"
| "dmerge d ((k, v) # e) = dmerge (dset k v d) e"

lemma dget_dset [simp, dict_simps]: "dget (dset k v d) j = (if j = k then Some v else dget d j)"
  by (simp add: update_conv)

lemma dget_ddel [simp, dict_simps]: "dget (ddel k d) j = (if j = k then None else dget d j)"
  by (simp add: delete_conv)

lemma dget_or_dset [dict_simps]: "dget_or (dset k v d) j w = (if j = k then v else dget_or d j w)"
  by (simp add: dget_or_def)

lemma dkeys_dset: "dkeys (dset k v d) = (if k \<in> set (dkeys d) then dkeys d else dkeys d @ [k])"
  by (induction d) auto

lemma set_dkeys_dset [simp]: "set (dkeys (dset k v d)) = insert k (set (dkeys d))"
  by (auto simp: dkeys_dset)

lemma fst_set_dset [simp]: "fst ` set (dset k v d) = insert k (fst ` set d)"
  using set_dkeys_dset [of k v d] by (simp only: set_map)

lemma distinct_dkeys_dset [simp]: "distinct (dkeys d) \<Longrightarrow> distinct (dkeys (dset k v d))"
  by (simp add: dkeys_dset)

lemma dkeys_ddel: "dkeys (ddel k d) = filter (\<lambda>j. j \<noteq> k) (dkeys d)"
  by (induction d) auto

lemma set_dkeys_ddel [simp]: "set (dkeys (ddel k d)) = set (dkeys d) - {k}"
  by (auto simp: dkeys_ddel)

lemma fst_set_ddel [simp]: "fst ` set (ddel k d) = fst ` set d - {k}"
  using set_dkeys_ddel [of k d] by (simp only: set_map)

lemma distinct_dkeys_ddel [simp]: "distinct (dkeys d) \<Longrightarrow> distinct (dkeys (ddel k d))"
  by (simp add: dkeys_ddel)

lemma length_dset: "length (dset k v d) = (if k \<in> set (dkeys d) then length d else Suc (length d))"
  by (metis dkeys_dset length_append_singleton length_map)

lemma length_ddel_le: "length (ddel k d) \<le> length d"
  by (induction d) auto

lemma length_ddel_less: "k \<in> set (dkeys d) \<Longrightarrow> length (ddel k d) < length d"
proof (induction d)
  case (Cons p d)
  then show ?case using length_ddel_le [of k d] by auto
qed simp

lemma length_ddel: "distinct (dkeys d) \<Longrightarrow>
  length (ddel k d) = (if k \<in> set (dkeys d) then length d - 1 else length d)"
proof (induction d)
  case (Cons p d)
  show ?case
  proof (cases "fst p = k")
    case True
    with Cons have "k \<notin> set (dkeys d)" by auto
    with True Cons show ?thesis by auto
  next
    case False
    with Cons show ?thesis by (cases d) auto
  qed
qed simp

lemma ddel_notin [simp]: "k \<notin> set (dkeys d) \<Longrightarrow> ddel k d = d"
  by (induction d) auto

lemma dset_new: "k \<notin> set (dkeys d) \<Longrightarrow> dset k v d = d @ [(k, v)]"
  by (induction d) auto

lemma dget_None_iff: "dget d k = None \<longleftrightarrow> k \<notin> set (dkeys d)"
  by (simp add: map_of_eq_None_iff)

lemma dget_dkeysI: "dget d k = Some v \<Longrightarrow> k \<in> set (dkeys d)"
  by (metis dget_None_iff option.distinct(1))

lemma dget_dmerge_notin: "j \<notin> set (dkeys e) \<Longrightarrow> dget (dmerge d e) j = dget d j"
  by (induction d e rule: dmerge.induct) auto

lemma distinct_dkeys_dmerge [simp]: "distinct (dkeys d) \<Longrightarrow> distinct (dkeys (dmerge d e))"
  by (induction d e rule: dmerge.induct) auto

lemma dmerge_Nil_distinct: "distinct (dkeys (d @ e)) \<Longrightarrow> dmerge d e = d @ e"
  by (induction d e rule: dmerge.induct) (auto simp: dset_new)

section \<open>Lists\<close>

text \<open>\<open>xs[-n:]\<close> for \<open>n > 0\<close>.\<close>

definition last_n :: "nat \<Rightarrow> 'a list \<Rightarrow> 'a list" where
  "last_n n xs = drop (length xs - n) xs"

lemma length_last_n [simp]: "length (last_n n xs) = min n (length xs)"
  by (simp add: last_n_def)

lemma set_last_n: "set (last_n n xs) \<subseteq> set xs"
  by (simp add: last_n_def set_drop_subset)

lemma last_n_append: "n \<le> length ys \<Longrightarrow> last_n n (xs @ ys) = last_n n ys"
  by (simp add: last_n_def)

lemma last_n_all: "length xs \<le> n \<Longrightarrow> last_n n xs = xs"
  by (simp add: last_n_def)

text \<open>The set a Python list of hashable values builds, as its distinct elements in order of
  first insertion.\<close>

definition add_new :: "'a \<Rightarrow> 'a list \<Rightarrow> 'a list" where
  "add_new x xs = (if x \<in> set xs then xs else xs @ [x])"

lemma set_add_new [simp]: "set (add_new x xs) = insert x (set xs)"
  by (auto simp: add_new_def)

lemma distinct_add_new [simp]: "distinct xs \<Longrightarrow> distinct (add_new x xs)"
  by (simp add: add_new_def)

definition uniq :: "'a list \<Rightarrow> 'a list" where
  "uniq xs = foldl (\<lambda>ys x. add_new x ys) [] xs"

lemma uniq_snoc: "uniq (xs @ [x]) = add_new x (uniq xs)"
  by (simp add: uniq_def)

lemma uniq_Nil [simp]: "uniq [] = []"
  by (simp add: uniq_def)

lemma set_uniq [simp]: "set (uniq xs) = set xs"
  by (induction xs rule: rev_induct) (simp_all add: uniq_snoc)

lemma distinct_uniq [simp]: "distinct (uniq xs)"
  by (induction xs rule: rev_induct) (simp_all add: uniq_snoc)

section \<open>Grouping\<close>

text \<open>A loop that keeps one accumulator per key in a dictionary, created by \<open>init\<close> at the first
  element with the key: its entry for a key is the plain loop over the elements with that key.\<close>

definition group_step ::
  "('a \<Rightarrow> 'k) \<Rightarrow> ('a \<Rightarrow> 'g) \<Rightarrow> ('g \<Rightarrow> 'a \<Rightarrow> 'g) \<Rightarrow> ('k, 'g) pydict \<Rightarrow> 'a \<Rightarrow> ('k, 'g) pydict" where
  "group_step key init f d a =
     dset (key a) (f (case dget d (key a) of None \<Rightarrow> init a | Some g \<Rightarrow> g) a) d"

lemma dkeys_groups: "dkeys (foldl (group_step key init f) [] as) = uniq (map key as)"
proof (induction as rule: rev_induct)
  case (snoc a as)
  then show ?case by (auto simp: uniq_snoc group_step_def dkeys_dset add_new_def)
qed simp

lemma dget_groups:
  "dget (foldl (group_step key init f) [] as) k =
     (case filter (\<lambda>a. key a = k) as of [] \<Rightarrow> None | a # bs \<Rightarrow> Some (foldl f (init a) (a # bs)))"
proof (induction as rule: rev_induct)
  case (snoc a as)
  then show ?case by (auto simp: group_step_def split: list.splits)
qed simp

lemma groups_eq:
  "foldl (group_step key init f) [] as =
     map (\<lambda>k. let bs = filter (\<lambda>a. key a = k) as in (k, foldl f (init (hd bs)) bs)) (uniq (map key as))"
    (is "?G = map ?e ?ks")
proof (rule nth_equalityI)
  have len: "length ?G = length ?ks" by (metis dkeys_groups length_map)
  then show "length ?G = length (map ?e ?ks)" by simp
  fix i assume i: "i < length ?G"
  have fst_i: "fst (?G ! i) = ?ks ! i" using i by (metis dkeys_groups nth_map)
  have "distinct (dkeys ?G)" by (simp add: dkeys_groups)
  then have get: "dget ?G (?ks ! i) = Some (snd (?G ! i))"
    using i fst_i by (metis map_of_is_SomeI nth_mem prod.collapse)
  then have "?G ! i = ?e (?ks ! i)"
    using fst_i by (cases "?G ! i") (auto simp: dget_groups Let_def split: list.splits)
  then show "?G ! i = map ?e ?ks ! i" using i len by simp
qed

text \<open>The groups of a list hold each of its elements once.\<close>

lemma concat_groups_mset:
  assumes "distinct ks" "key ` set as \<subseteq> set ks"
  shows "mset (concat (map (\<lambda>k. filter (\<lambda>a. key a = k) as) ks)) = mset as"
  using assms
proof (induction ks arbitrary: as)
  case (Cons k ks)
  have rest: "map (\<lambda>j. filter (\<lambda>a. key a = j) as) ks = map (\<lambda>j. filter (\<lambda>a. key a = j) (filter (\<lambda>a. key a \<noteq> k) as)) ks"
    using Cons.prems(1) by (auto intro!: filter_cong)
  have "mset (concat (map (\<lambda>j. filter (\<lambda>a. key a = j) (filter (\<lambda>a. key a \<noteq> k) as)) ks)) = mset (filter (\<lambda>a. key a \<noteq> k) as)"
    using Cons.prems by (intro Cons.IH) auto
  moreover have "mset (filter (\<lambda>a. key a = k) as) + mset (filter (\<lambda>a. key a \<noteq> k) as) = mset as"
    by (metis mset_filter multiset_partition)
  ultimately show ?case unfolding list.map concat.simps mset_append rest by simp
qed simp

section \<open>Machines: a step function and an invariant\<close>

text \<open>
  Every long-running loop of the program (the log tailer, the packet loop, the sink loop, the
  dashboard poller, the correlator's sequence of scripts) is a step function folded over its
  inputs. What one step keeps, every run keeps.
\<close>

locale machine =
  fixes step :: "'s \<Rightarrow> 'e \<Rightarrow> 's"
    and inv :: "'s \<Rightarrow> bool"
  assumes step_inv: "inv s \<Longrightarrow> inv (step s e)"
begin

lemma run_inv: "inv s \<Longrightarrow> inv (foldl step s es)"
  by (induction es arbitrary: s) (auto simp: step_inv)

lemma prefix_inv: "inv s \<Longrightarrow> prefix es es' \<Longrightarrow> inv (foldl step s es)"
  by (rule run_inv)

end

text \<open>A machine whose steps also keep a preorder between states: later states are above
  earlier ones.\<close>

locale monotone_machine = machine +
  fixes below :: "'a \<Rightarrow> 'a \<Rightarrow> bool"
  assumes below_refl: "below s s"
    and below_trans: "below s t \<Longrightarrow> below t u \<Longrightarrow> below s u"
    and step_below: "inv s \<Longrightarrow> below s (step s e)"
begin

lemma run_below: "inv s \<Longrightarrow> below s (foldl step s es)"
proof (induction es arbitrary: s)
  case (Cons e es)
  then show ?case using below_trans step_below step_inv by (metis foldl_Cons)
qed (simp add: below_refl)

lemma prefix_below: "inv s \<Longrightarrow> prefix es es' \<Longrightarrow> below (foldl step s es) (foldl step s es')"
  by (metis foldl_append prefixE run_below run_inv)

end

end
