(* ===== verification/PyText.thy ===== *)
theory PyText
  imports Prelude Complex_Main
begin

text \<open>
  The part of Python's \<open>str\<close> the program uses. A string is a list of code points below 256
  (HOL's \<open>char\<close>); code points above are not represented. Whitespace, digits and case follow
  Python's Unicode tables restricted to that range.
\<close>

named_theorems text_simps \<open>evaluation of string functions\<close>

section \<open>Characters\<close>

abbreviation cp :: "char \<Rightarrow> nat" where
  "cp c \<equiv> of_char c"

definition is_space :: "char \<Rightarrow> bool" where
  "is_space c \<longleftrightarrow> (let n = cp c in (9 \<le> n \<and> n \<le> 13) \<or> (28 \<le> n \<and> n \<le> 32) \<or> n = 133 \<or> n = 160)"

text \<open>A decimal digit of base ten, the only digits \<open>int\<close> accepts below code point 256.\<close>

definition is_decimal :: "char \<Rightarrow> bool" where
  "is_decimal c \<longleftrightarrow> 48 \<le> cp c \<and> cp c \<le> 57"

text \<open>\<open>str.isdigit\<close> also holds of the three superscript digits.\<close>

definition is_digit :: "char \<Rightarrow> bool" where
  "is_digit c \<longleftrightarrow> is_decimal c \<or> cp c = 178 \<or> cp c = 179 \<or> cp c = 185"

definition is_lower_az :: "char \<Rightarrow> bool" where
  "is_lower_az c \<longleftrightarrow> 97 \<le> cp c \<and> cp c \<le> 122"

definition is_upper_az :: "char \<Rightarrow> bool" where
  "is_upper_az c \<longleftrightarrow> 65 \<le> cp c \<and> cp c \<le> 90"

definition is_ascii_alnum :: "char \<Rightarrow> bool" where
  "is_ascii_alnum c \<longleftrightarrow> is_decimal c \<or> is_lower_az c \<or> is_upper_az c"

definition lower_char :: "char \<Rightarrow> char" where
  "lower_char c =
     (let n = cp c in
      if (65 \<le> n \<and> n \<le> 90) \<or> (192 \<le> n \<and> n \<le> 222 \<and> n \<noteq> 215) then char_of (n + 32) else c)"

text \<open>The upper case of U+00DF is two letters; those of U+00B5 and U+00FF lie above 255 and are
  left as they are (no table the program looks an upper-cased string up in has a key with them).\<close>

definition upper_char :: "char \<Rightarrow> string" where
  "upper_char c =
     (let n = cp c in
      if n = 223 then ''SS''
      else if (97 \<le> n \<and> n \<le> 122) \<or> (224 \<le> n \<and> n \<le> 254 \<and> n \<noteq> 247) then [char_of (n - 32)]
      else [c])"

definition py_lower :: "string \<Rightarrow> string" where
  "py_lower = map lower_char"

definition py_upper :: "string \<Rightarrow> string" where
  "py_upper s = concat (map upper_char s)"

lemma length_py_lower [simp]: "length (py_lower s) = length s"
  by (simp add: py_lower_def)

lemma py_lower_Nil [simp]: "py_lower [] = []"
  by (simp add: py_lower_def)

lemma of_char_lower: "cp (char_of (cp c + 32)) = (cp c + 32) mod 256"
  by simp

lemma lower_char_idem [simp]: "lower_char (lower_char c) = lower_char c"
proof -
  have "cp c mod 256 = cp c" by (rule of_char_mod_256)
  then have "cp c < 256" by (metis mod_less_divisor zero_less_numeral)
  then show ?thesis by (auto simp: lower_char_def Let_def)
qed

lemma py_lower_idem [simp]: "py_lower (py_lower s) = py_lower s"
  by (simp add: py_lower_def)

section \<open>Stripping, splitting, joining\<close>

definition lstrip :: "string \<Rightarrow> string" where
  "lstrip = dropWhile is_space"

definition rstrip :: "string \<Rightarrow> string" where
  "rstrip s = rev (dropWhile is_space (rev s))"

definition py_strip :: "string \<Rightarrow> string" where
  "py_strip s = rstrip (lstrip s)"

text \<open>\<open>s.rstrip(c)\<close> for one character.\<close>

definition rstrip_char :: "char \<Rightarrow> string \<Rightarrow> string" where
  "rstrip_char c s = rev (dropWhile (\<lambda>d. d = c) (rev s))"

fun split_on :: "char \<Rightarrow> string \<Rightarrow> string list" where
  "split_on c [] = [[]]"
| "split_on c (x # xs) =
     (if x = c then [] # split_on c xs
      else (case split_on c xs of [] \<Rightarrow> [[x]] | p # ps \<Rightarrow> (x # p) # ps))"

fun join :: "string \<Rightarrow> string list \<Rightarrow> string" where
  "join sep [] = []"
| "join sep [p] = p"
| "join sep (p # q # ps) = p @ sep @ join sep (q # ps)"

lemma py_strip_no_space: "(\<And>c. c \<in> set s \<Longrightarrow> \<not> is_space c) \<Longrightarrow> py_strip s = s"
proof -
  assume h: "\<And>c. c \<in> set s \<Longrightarrow> \<not> is_space c"
  have dw: "dropWhile is_space t = t" if "\<And>c. c \<in> set t \<Longrightarrow> \<not> is_space c" for t
    using that by (cases t) auto
  show ?thesis
    using dw [of s] dw [of "rev s"] h by (simp add: py_strip_def lstrip_def rstrip_def)
qed

lemma set_lstrip: "set (lstrip s) \<subseteq> set s"
  by (auto simp: lstrip_def dest: set_dropWhileD)

lemma set_rstrip: "set (rstrip s) \<subseteq> set s"
  by (auto simp: rstrip_def dest: set_dropWhileD)

lemma set_py_strip: "set (py_strip s) \<subseteq> set s"
  using set_rstrip set_lstrip by (fastforce simp: py_strip_def)

lemma split_on_ne [simp]: "split_on c s \<noteq> []"
  by (induction s) (auto split: list.split)

lemma join_split_on [simp]: "join [c] (split_on c s) = s"
proof (induction s)
  case (Cons x xs)
  obtain p ps where ps: "split_on c xs = p # ps" by (meson neq_Nil_conv split_on_ne)
  then show ?case using Cons by (cases ps) auto
qed simp

lemma split_on_no_sep: "p \<in> set (split_on c s) \<Longrightarrow> c \<notin> set p"
proof (induction s arbitrary: p)
  case (Cons x xs)
  then show ?case by (auto split: list.splits if_splits)
qed simp

lemma split_on_single: "c \<notin> set s \<Longrightarrow> split_on c s = [s]"
  by (induction s) auto

lemma split_on_append: "c \<notin> set p \<Longrightarrow> split_on c (p @ c # s) = p # split_on c s"
  by (induction p) auto

lemma split_on_join:
  "ps \<noteq> [] \<Longrightarrow> (\<And>p. p \<in> set ps \<Longrightarrow> c \<notin> set p) \<Longrightarrow> split_on c (join [c] ps) = ps"
proof (induction "[c]" ps rule: join.induct)
  case (2 p)
  then show ?case by (simp add: split_on_single)
next
  case (3 p q ps)
  then show ?case by (simp add: split_on_append)
qed simp

lemma split_on_concat:
  "split_on c (s @ c # t) = split_on c s @ split_on c t"
proof (induction s)
  case (Cons x s)
  obtain p ps where "split_on c s = p # ps" by (meson neq_Nil_conv split_on_ne)
  with Cons show ?case by simp
qed simp

text \<open>\<open>s.replace(old, new)\<close> for a non-empty \<open>old\<close>: leftmost, non-overlapping.\<close>

function replace_all :: "string \<Rightarrow> string \<Rightarrow> string \<Rightarrow> string" where
  "replace_all old new [] = []"
| "replace_all old new (c # cs) =
     (if old \<noteq> [] \<and> prefix old (c # cs) then new @ replace_all old new (drop (length old - 1) cs)
      else c # replace_all old new cs)"
  by pat_completeness auto
termination
  by (relation "measure (\<lambda>(old, new, s). length s)") auto

lemma replace_all_absent:
  "\<not> sublist old s \<Longrightarrow> replace_all old new s = s"
proof (induction s)
  case (Cons c cs)
  then have "\<not> prefix old (c # cs)" "\<not> sublist old cs"
    by (auto simp: sublist_Cons_right)
  with Cons.IH show ?case by simp
qed simp

lemma replace_all_first_absent:
  "old = a # old' \<Longrightarrow> a \<notin> set s \<Longrightarrow> replace_all old new s = s"
  by (rule replace_all_absent) (auto dest: set_mono_sublist)

text \<open>Replacing in a text whose front does not touch an occurrence.\<close>

lemma replace_all_char: "replace_all [a] [b] s = map (\<lambda>c. if c = a then b else c) s"
  by (induction s) auto

lemma replace_all_skip:
  "old = a # old' \<Longrightarrow> a \<notin> set s \<Longrightarrow> replace_all old new (s @ t) = s @ replace_all old new t"
  by (induction s) auto

lemma replace_all_hit:
  "old \<noteq> [] \<Longrightarrow> replace_all old new (old @ t) = new @ replace_all old new t"
  by (cases old) auto

section \<open>Numbers\<close>

definition digit_char :: "nat \<Rightarrow> char" where
  "digit_char n = char_of (48 + n)"

definition digit_val :: "char \<Rightarrow> nat" where
  "digit_val c = cp c - 48"

fun str_of_nat :: "nat \<Rightarrow> string" where
  "str_of_nat n = (if n < 10 then [digit_char n] else str_of_nat (n div 10) @ [digit_char (n mod 10)])"

declare str_of_nat.simps [simp del]

definition str_of_int :: "int \<Rightarrow> string" where
  "str_of_int i = (if i < 0 then ''-'' @ str_of_nat (nat (- i)) else str_of_nat (nat i))"

definition nat_of_digits :: "string \<Rightarrow> nat" where
  "nat_of_digits s = foldl (\<lambda>a c. 10 * a + digit_val c) 0 s"

lemma digit_val_char [simp]: "n < 10 \<Longrightarrow> digit_val (digit_char n) = n"
  by (simp add: digit_val_def digit_char_def)

lemma is_decimal_digit_char [simp]: "n < 10 \<Longrightarrow> is_decimal (digit_char n)"
  by (simp add: is_decimal_def digit_char_def)

lemma is_decimal_digit_val: "is_decimal c \<Longrightarrow> digit_val c < 10"
  by (auto simp: is_decimal_def digit_val_def)

lemma digit_char_val: "is_decimal c \<Longrightarrow> digit_char (digit_val c) = c"
  by (simp add: is_decimal_def digit_val_def digit_char_def)

lemma str_of_nat_small: "n < 10 \<Longrightarrow> str_of_nat n = [digit_char n]"
  by (subst str_of_nat.simps) simp

lemma str_of_nat_big: "10 \<le> n \<Longrightarrow> str_of_nat n = str_of_nat (n div 10) @ [digit_char (n mod 10)]"
  by (subst str_of_nat.simps) simp

lemma str_of_nat_ne [simp]: "str_of_nat n \<noteq> []"
  by (subst str_of_nat.simps) simp

lemma str_of_nat_decimal: "c \<in> set (str_of_nat n) \<Longrightarrow> is_decimal c"
proof (induction n rule: str_of_nat.induct)
  case (1 n)
  show ?case
  proof (cases "n < 10")
    case True
    with 1 show ?thesis by (simp add: str_of_nat_small)
  next
    case False
    with 1 show ?thesis by (auto simp: str_of_nat_big)
  qed
qed

lemma nat_of_digits_snoc [simp]: "nat_of_digits (s @ [c]) = 10 * nat_of_digits s + digit_val c"
  by (simp add: nat_of_digits_def)

lemma nat_of_digits_str_of_nat [simp]: "nat_of_digits (str_of_nat n) = n"
proof (induction n rule: str_of_nat.induct)
  case (1 n)
  show ?case
  proof (cases "n < 10")
    case True
    then show ?thesis by (simp add: str_of_nat_small nat_of_digits_def)
  next
    case False
    with 1 show ?thesis by (simp add: str_of_nat_big)
  qed
qed

lemma str_of_nat_hd: "0 < n \<Longrightarrow> hd (str_of_nat n) \<noteq> CHR ''0''"
proof (induction n rule: str_of_nat.induct)
  case (1 n)
  show ?case
  proof (cases "n < 10")
    case True
    with 1 have "cp (digit_char n) = 48 + n" by (simp add: digit_char_def)
    with 1 have "digit_char n \<noteq> CHR ''0''" by auto
    with True show ?thesis by (simp add: str_of_nat_small)
  next
    case False
    with 1 show ?thesis by (simp add: str_of_nat_big div_greater_zero_iff)
  qed
qed

text \<open>Digits, with single underscores allowed between them: the grammar of \<open>int\<close> on a string.\<close>

fun digits_us :: "bool \<Rightarrow> nat \<Rightarrow> string \<Rightarrow> nat option" where
  "digits_us ok a [] = (if ok then Some a else None)"
| "digits_us ok a (c # cs) =
     (if is_decimal c then digits_us True (10 * a + digit_val c) cs
      else if c = CHR ''_'' \<and> ok then digits_us False a cs
      else None)"

lemma digits_us_plain:
  "(\<And>c. c \<in> set s \<Longrightarrow> is_decimal c) \<Longrightarrow> s \<noteq> [] \<or> ok \<Longrightarrow>
   digits_us ok a s = Some (foldl (\<lambda>a c. 10 * a + digit_val c) a s)"
  by (induction s arbitrary: ok a) auto

definition n_digits :: "string \<Rightarrow> nat" where
  "n_digits s = length (filter is_decimal s)"

text \<open>\<open>int(s)\<close>: \<open>None\<close> where it raises ValueError, which includes more than 4300 digits.\<close>

definition parse_nat :: "string \<Rightarrow> nat option" where
  "parse_nat s = (if n_digits s \<le> 4300 then digits_us False 0 s else None)"

definition parse_int :: "string \<Rightarrow> int option" where
  "parse_int s =
     (case py_strip s of
        [] \<Rightarrow> None
      | c # cs \<Rightarrow>
          if c = CHR ''-'' then map_option (\<lambda>n. - int n) (parse_nat cs)
          else if c = CHR ''+'' then map_option int (parse_nat cs)
          else map_option int (parse_nat (c # cs)))"

text \<open>
  \<open>float(s)\<close>. Floats are real numbers together with the two infinities and NaN: rounding is
  not modelled, overflow to infinity is.
\<close>

datatype pyfloat = Fin real | PosInf | NegInf | NaN

definition float_overflow :: real where
  "float_overflow = 2 ^ 1024 - 2 ^ 970"

definition to_float :: "real \<Rightarrow> pyfloat" where
  "to_float r = (if r \<ge> float_overflow then PosInf else if r \<le> - float_overflow then NegInf else Fin r)"

definition opt_digits :: "string \<Rightarrow> nat option" where
  "opt_digits s = (if s = [] then Some 0 else digits_us False 0 s)"

definition parse_exponent :: "string \<Rightarrow> int option" where
  "parse_exponent s =
     (case s of
        [] \<Rightarrow> None
      | c # cs \<Rightarrow>
          if c = CHR ''-'' then map_option (\<lambda>n. - int n) (digits_us False 0 cs)
          else if c = CHR ''+'' then map_option int (digits_us False 0 cs)
          else map_option int (digits_us False 0 (c # cs)))"

definition parse_decimal :: "string \<Rightarrow> real option" where
  "parse_decimal s =
     (let mant = takeWhile (\<lambda>c. c \<noteq> CHR ''e'') s;
          rest = dropWhile (\<lambda>c. c \<noteq> CHR ''e'') s;
          ip = takeWhile (\<lambda>c. c \<noteq> CHR ''.'') mant;
          fp = drop 1 (dropWhile (\<lambda>c. c \<noteq> CHR ''.'') mant)
      in if ip = [] \<and> fp = [] then None else
      (case (opt_digits ip, opt_digits fp) of
         (Some i, Some f) \<Rightarrow>
           (case (if rest = [] then Some 0 else parse_exponent (tl rest)) of
              Some e \<Rightarrow> Some ((real i + real f / 10 ^ n_digits fp) * 10 powi e)
            | None \<Rightarrow> None)
       | _ \<Rightarrow> None))"

definition parse_unsigned_float :: "string \<Rightarrow> pyfloat option" where
  "parse_unsigned_float s =
     (if s = ''inf'' \<or> s = ''infinity'' then Some PosInf
      else if s = ''nan'' then Some NaN
      else map_option to_float (parse_decimal s))"

fun neg_float :: "pyfloat \<Rightarrow> pyfloat" where
  "neg_float (Fin r) = Fin (- r)"
| "neg_float PosInf = NegInf"
| "neg_float NegInf = PosInf"
| "neg_float NaN = NaN"

definition parse_float :: "string \<Rightarrow> pyfloat option" where
  "parse_float s =
     (case py_lower (py_strip s) of
        [] \<Rightarrow> None
      | c # cs \<Rightarrow>
          if c = CHR ''-'' then map_option neg_float (parse_unsigned_float cs)
          else if c = CHR ''+'' then parse_unsigned_float cs
          else parse_unsigned_float (c # cs))"

lemma is_decimal_not_space: "is_decimal c \<Longrightarrow> \<not> is_space c"
  by (auto simp: is_decimal_def is_space_def Let_def)

lemma parse_int_str_of_nat:
  assumes "n_digits (str_of_nat n) \<le> 4300"
  shows "parse_int (str_of_nat n) = Some (int n)"
proof -
  have strip: "py_strip (str_of_nat n) = str_of_nat n"
    by (rule py_strip_no_space) (use str_of_nat_decimal is_decimal_not_space in blast)
  obtain c cs where s: "str_of_nat n = c # cs" by (meson neq_Nil_conv str_of_nat_ne)
  have "is_decimal c" using str_of_nat_decimal [of c n] s by simp
  then have c: "c \<noteq> CHR ''-''" "c \<noteq> CHR ''+''" by (auto simp: is_decimal_def)
  have "digits_us False 0 (str_of_nat n) = Some n"
    using digits_us_plain [of "str_of_nat n" False 0] str_of_nat_decimal
      nat_of_digits_str_of_nat [of n] by (simp add: nat_of_digits_def)
  with strip c assms show ?thesis by (simp add: parse_int_def parse_nat_def s)
qed

end
