(* ===== verification/PyValue.thy ===== *)
theory PyValue
  imports PyText
begin

text \<open>
  Python values as they travel through the pipeline: what \<open>json.loads\<close> can produce, plus
  bytes. A JSON text is represented by the value it encodes (key order included), so that
  two values are equal exactly when their \<open>json.dumps\<close> texts are. \<open>repr\<close> of floats, bytes
  and containers is a parameter of the definitions that print a value.
\<close>

datatype pyval =
    PNone
  | PBool bool
  | PInt int
  | PFloat pyfloat
  | PStr string
  | PBytes string
  | PList "pyval list"
  | PDict "(string \<times> pyval) list"

type_synonym obj = "(string, pyval) pydict"

fun truthy :: "pyval \<Rightarrow> bool" where
  "truthy PNone = False"
| "truthy (PBool b) = b"
| "truthy (PInt i) = (i \<noteq> 0)"
| "truthy (PFloat f) = (f \<noteq> Fin 0)"
| "truthy (PStr s) = (s \<noteq> [])"
| "truthy (PBytes s) = (s \<noteq> [])"
| "truthy (PList xs) = (xs \<noteq> [])"
| "truthy (PDict d) = (d \<noteq> [])"

text \<open>\<open>d.get(k)\<close>, \<open>d.get(k, v)\<close> and \<open>x or y\<close>.\<close>

definition oget :: "obj \<Rightarrow> string \<Rightarrow> pyval" where
  "oget d k = dget_or d k PNone"

definition py_or :: "pyval \<Rightarrow> pyval \<Rightarrow> pyval" where
  "py_or x y = (if truthy x then x else y)"

text \<open>\<open>str(v)\<close>; the parameter prints the values whose text the model does not spell out.\<close>

type_synonym py_repr = "pyval \<Rightarrow> string"

fun py_str :: "py_repr \<Rightarrow> pyval \<Rightarrow> string" where
  "py_str rp PNone = ''None''"
| "py_str rp (PBool b) = (if b then ''True'' else ''False'')"
| "py_str rp (PInt i) = str_of_int i"
| "py_str rp (PStr s) = s"
| "py_str rp v = rp v"

text \<open>\<open>int(v)\<close> and \<open>float(v)\<close>, with the exception each input raises.\<close>

definition of_option :: "exc \<Rightarrow> 'a option \<Rightarrow> 'a result" where
  "of_option e x = (case x of None \<Rightarrow> Inl e | Some v \<Rightarrow> Inr v)"

definition trunc_real :: "real \<Rightarrow> int" where
  "trunc_real r = (if r < 0 then \<lceil>r\<rceil> else \<lfloor>r\<rfloor>)"

fun py_int :: "pyval \<Rightarrow> int result" where
  "py_int (PBool b) = Inr (if b then 1 else 0)"
| "py_int (PInt i) = Inr i"
| "py_int (PFloat (Fin r)) = Inr (trunc_real r)"
| "py_int (PFloat NaN) = Inl ValueError"
| "py_int (PFloat _) = Inl OverflowError"
| "py_int (PStr s) = of_option ValueError (parse_int s)"
| "py_int (PBytes s) = of_option ValueError (parse_int s)"
| "py_int _ = Inl TypeError"

fun py_float :: "pyval \<Rightarrow> pyfloat result" where
  "py_float (PBool b) = Inr (Fin (if b then 1 else 0))"
| "py_float (PInt i) =
     (case to_float (of_int i) of Fin r \<Rightarrow> Inr (Fin r) | _ \<Rightarrow> Inl OverflowError)"
| "py_float (PFloat f) = Inr f"
| "py_float (PStr s) = of_option ValueError (parse_float s)"
| "py_float (PBytes s) = of_option ValueError (parse_float s)"
| "py_float _ = Inl TypeError"

fun is_str :: "pyval \<Rightarrow> bool" where
  "is_str (PStr s) = True"
| "is_str _ = False"

fun is_dict :: "pyval \<Rightarrow> bool" where
  "is_dict (PDict d) = True"
| "is_dict _ = False"

fun is_list :: "pyval \<Rightarrow> bool" where
  "is_list (PList d) = True"
| "is_list _ = False"

text \<open>The number a value compares as, and \<open>x == y\<close>: numbers by value (\<open>True == 1 == 1.0\<close>, NaN equal
  to nothing), lists elementwise, dictionaries regardless of order.\<close>

fun num_val :: "pyval \<Rightarrow> pyfloat option" where
  "num_val (PInt i) = Some (Fin (of_int i))"
| "num_val (PBool b) = Some (Fin (if b then 1 else 0))"
| "num_val (PFloat f) = Some f"
| "num_val _ = None"

definition float_eq :: "pyfloat \<Rightarrow> pyfloat \<Rightarrow> bool" where
  "float_eq a b \<longleftrightarrow> a \<noteq> NaN \<and> a = b"

fun py_eq :: "pyval \<Rightarrow> pyval \<Rightarrow> bool"
  and py_eq_list :: "pyval list \<Rightarrow> pyval list \<Rightarrow> bool"
  and py_eq_items :: "(string \<times> pyval) list \<Rightarrow> (string \<times> pyval) list \<Rightarrow> bool" where
  "py_eq PNone y = (y = PNone)"
| "py_eq (PStr s) y = (y = PStr s)"
| "py_eq (PBytes s) y = (y = PBytes s)"
| "py_eq (PList xs) y = (case y of PList ys \<Rightarrow> py_eq_list xs ys | _ \<Rightarrow> False)"
| "py_eq (PDict d) y =
     (case y of PDict e \<Rightarrow> length d = length e \<and> py_eq_items d e | _ \<Rightarrow> False)"
| "py_eq x y = (case (num_val x, num_val y) of (Some a, Some b) \<Rightarrow> float_eq a b | _ \<Rightarrow> False)"
| "py_eq_list [] ys = (ys = [])"
| "py_eq_list (x # xs) ys = (case ys of [] \<Rightarrow> False | z # zs \<Rightarrow> py_eq x z \<and> py_eq_list xs zs)"
| "py_eq_items [] e = True"
| "py_eq_items ((k, x) # d) e =
     ((case dget e k of None \<Rightarrow> False | Some w \<Rightarrow> py_eq x w) \<and> py_eq_items d e)"

text \<open>\<open>x in xs\<close>, and the elements of a set of hashable values in the order of first insertion.\<close>

definition py_in :: "pyval \<Rightarrow> pyval list \<Rightarrow> bool" where
  "py_in x xs \<longleftrightarrow> (\<exists>y\<in>set xs. py_eq y x)"

definition hashable :: "pyval \<Rightarrow> bool" where
  "hashable v \<longleftrightarrow> \<not> is_list v \<and> \<not> is_dict v"

definition py_add :: "pyval \<Rightarrow> pyval list \<Rightarrow> pyval list result" where
  "py_add x xs =
     (if \<not> hashable x then Inl TypeError else if py_in x xs then Inr xs else Inr (xs @ [x]))"

lemma py_eq_PStr [simp]: "py_eq x (PStr s) \<longleftrightarrow> x = PStr s"
  by (cases x) auto

lemma py_in_PStr [simp]: "py_in (PStr s) xs \<longleftrightarrow> PStr s \<in> set xs"
  by (auto simp: py_in_def)

lemma py_add_PStr [simp]: "py_add (PStr s) xs = Inr (if PStr s \<in> set xs then xs else xs @ [PStr s])"
  by (simp add: py_add_def hashable_def)

lemma oget_dset [simp, dict_simps]: "oget (dset k v d) j = (if j = k then v else oget d j)"
  by (simp add: oget_def dget_or_dset)

lemma oget_Nil [simp]: "oget [] k = PNone"
  by (simp add: oget_def dget_or_def)

lemma oget_Cons [simp]: "oget ((j, v) # d) k = (if k = j then v else oget d k)"
  by (simp add: oget_def dget_or_def)

lemma dget_or_Nil [simp]: "dget_or [] k v = v"
  by (simp add: dget_or_def)

lemma dget_or_Cons [simp]: "dget_or ((j, w) # d) k v = (if k = j then w else dget_or d k v)"
  by (simp add: dget_or_def)

lemma of_option_Inr [result_simps]: "of_option e x = Inr v \<longleftrightarrow> x = Some v"
  by (simp add: of_option_def split: option.split)

lemma of_option_Inl [result_simps]: "of_option e x = Inl e' \<longleftrightarrow> x = None \<and> e' = e"
  by (auto simp: of_option_def split: option.split)

lemma py_int_errors: "py_int v = Inl e \<Longrightarrow> e \<in> {ValueError, OverflowError, TypeError}"
  by (cases v rule: py_int.cases) (auto simp: result_simps)

lemma py_float_errors: "py_float v = Inl e \<Longrightarrow> e \<in> {ValueError, OverflowError, TypeError}"
  by (cases v rule: py_float.cases) (auto simp: result_simps split: pyfloat.splits)

section \<open>Environment variables\<close>

type_synonym environ = "string \<Rightarrow> string option"

definition getenv_or :: "environ \<Rightarrow> string \<Rightarrow> string \<Rightarrow> string" where
  "getenv_or env k dflt = (case env k of None \<Rightarrow> dflt | Some v \<Rightarrow> v)"

end
