(* ===== verification/Features.thy ===== *)
theory Features
  imports PyValue
begin

text \<open>
  \<open>inference/features.py\<close>: the defensive number parsers, the Shannon entropy of a string, and
  the feature dictionaries of DNS and connection events. A feature function returns the
  exception it raises where the event's fields have a shape the code does not expect.
\<close>

section \<open>Number parsing\<close>

definition is_null_field :: "pyval \<Rightarrow> bool" where
  "is_null_field v \<longleftrightarrow> v = PStr ''-'' \<or> v = PNone \<or> v = PStr []"

definition safe_float :: "pyval \<Rightarrow> pyfloat result" where
  "safe_float v =
     (if is_null_field v then Inr (Fin 0)
      else (case py_float v of Inl ValueError \<Rightarrow> Inr (Fin 0) | r \<Rightarrow> r))"

definition safe_int :: "pyval \<Rightarrow> int result" where
  "safe_int v =
     (if is_null_field v then Inr 0
      else (case py_int v of Inl ValueError \<Rightarrow> Inr 0 | r \<Rightarrow> r))"

section \<open>Entropy\<close>

text \<open>\<open>collections.Counter(s)\<close>: characters in order of first occurrence.\<close>

definition counter :: "string \<Rightarrow> (char, nat) pydict" where
  "counter s = foldl (\<lambda>d c. dset c (Suc (dget_or d c 0)) d) [] s"

definition entropy_step :: "nat \<Rightarrow> real \<Rightarrow> nat \<Rightarrow> real" where
  "entropy_step len e n =
     (let p = real n / real len in if p > 0 then e - p * log 2 p else e)"

definition shannon_entropy :: "string \<Rightarrow> real" where
  "shannon_entropy s =
     (if s = [] then 0 else foldl (entropy_step (length s)) 0 (map snd (counter s)))"

section \<open>Feature dictionaries\<close>

definition KNOWN_INFRA_SUFFIXES :: "string list" where
  "KNOWN_INFRA_SUFFIXES =
     [''cloudfront.net'', ''amazonaws.com'', ''akamaized.net'', ''akamaiedge.net'',
      ''akamai.net'', ''fastly.net'', ''sharepoint.com'', ''gravatar.com'',
      ''googleusercontent.com'', ''googleapis.com'', ''windows.net'',
      ''azureedge.net'', ''cloudflare.com'', ''github.io'', ''githubusercontent.com'']"

definition is_known_infra :: "string \<Rightarrow> bool" where
  "is_known_infra q = list_ex (\<lambda>suf. suffix suf (rstrip_char (CHR ''.'') (py_lower q))) KNOWN_INFRA_SUFFIXES"

definition dns_features :: "string \<Rightarrow> obj" where
  "dns_features q =
     (let n = length q;
          digits = length (filter is_digit q);
          label = hd (split_on (CHR ''.'') q)
      in [(''domain_length'', PInt (int n)),
          (''shannon_entropy'', PFloat (Fin (shannon_entropy q))),
          (''label_entropy'', PFloat (Fin (shannon_entropy label))),
          (''label_length'', PInt (int (length label))),
          (''digit_ratio'', PFloat (Fin (if n > 0 then real digits / real n else 0))),
          (''is_known_infra_suffix'', PBool (is_known_infra q))])"

text \<open>A truthy query that is no string has no \<open>len\<close> (numbers) or no \<open>isdigit\<close>/\<open>split\<close> (bytes
  and containers).\<close>

definition extract_dns_features :: "obj \<Rightarrow> obj result" where
  "extract_dns_features event =
     (let q = dget_or event ''query'' (PStr []) in
      if \<not> truthy q then Inr []
      else (case q of
              PStr s \<Rightarrow> Inr (dns_features s)
            | PBool b \<Rightarrow> Inl TypeError
            | PInt i \<Rightarrow> Inl TypeError
            | PFloat f \<Rightarrow> Inl TypeError
            | _ \<Rightarrow> Inl AttributeError))"

text \<open>\<open>i / d if d > 0 else 0.0\<close> for an integer \<open>i\<close> and a float \<open>d\<close>.\<close>

definition rate :: "int \<Rightarrow> pyfloat \<Rightarrow> pyfloat result" where
  "rate i d =
     (case d of
        Fin r \<Rightarrow>
          if r > 0 then
            (case to_float (of_int i) of Fin n \<Rightarrow> Inr (to_float (n / r)) | _ \<Rightarrow> Inl OverflowError)
          else Inr (Fin 0)
      | PosInf \<Rightarrow> (case to_float (of_int i) of Fin n \<Rightarrow> Inr (Fin 0) | _ \<Rightarrow> Inl OverflowError)
      | _ \<Rightarrow> Inr (Fin 0))"

definition extract_flow_features :: "obj \<Rightarrow> obj result" where
  "extract_flow_features event =
     bind_result (safe_float (oget event ''duration'')) (\<lambda>duration.
     bind_result (safe_int (oget event ''orig_bytes'')) (\<lambda>orig_bytes.
     bind_result (safe_int (oget event ''resp_bytes'')) (\<lambda>resp_bytes.
     bind_result (rate (orig_bytes + resp_bytes) duration) (\<lambda>bps.
       Inr [(''duration'', PFloat duration),
            (''orig_bytes'', PInt orig_bytes),
            (''resp_bytes'', PInt resp_bytes),
            (''bytes_per_sec'', PFloat bps)]))))"

definition extract_features :: "obj \<Rightarrow> obj result" where
  "extract_features event =
     (if oget event ''event_type'' = PStr ''dns'' then
        bind_result (extract_dns_features event) (\<lambda>f. Inr (dmerge [] f))
      else if oget event ''event_type'' = PStr ''conn'' then
        bind_result (extract_flow_features event) (\<lambda>f. Inr (dmerge [] f))
      else Inr [])"

section \<open>Lemmas\<close>

lemma safe_int_errors: "safe_int v = Inl e \<Longrightarrow> e = TypeError \<or> e = OverflowError"
  using py_int_errors [of v] by (auto simp: safe_int_def split: if_splits sum.splits exc.splits)

lemma safe_int_PInt [simp]: "safe_int (PInt i) = Inr i"
  by (simp add: safe_int_def is_null_field_def)

lemma safe_int_PStr: "\<exists>i. safe_int (PStr s) = Inr i"
  by (cases "parse_int s") (auto simp: safe_int_def of_option_def)

lemma safe_int_PNone [simp]: "safe_int PNone = Inr 0"
  by (simp add: safe_int_def is_null_field_def)

lemma counter_Nil [simp]: "counter [] = []"
  by (simp add: counter_def)

lemma counter_snoc: "counter (s @ [c]) = dset c (Suc (dget_or (counter s) c 0)) (counter s)"
  by (simp add: counter_def)

lemma distinct_counter [simp]: "distinct (dkeys (counter s))"
  by (induction s rule: rev_induct) (simp_all add: counter_snoc)

lemma set_counter_keys [simp]: "set (dkeys (counter s)) = set s"
  by (induction s rule: rev_induct) (simp_all add: counter_snoc)

lemma dget_counter: "dget (counter s) c = (if c \<in> set s then Some (count_list s c) else None)"
proof (induction s rule: rev_induct)
  case (snoc x s)
  then show ?case by (auto simp: counter_snoc dget_or_def)
qed simp

text \<open>Entropy as a sum over the distinct characters.\<close>

lemma foldl_entropy_step:
  "foldl (entropy_step len) e ns = e - (\<Sum>n\<leftarrow>ns. real n / real len * log 2 (real n / real len))"
proof (induction ns arbitrary: e)
  case (Cons n ns)
  have "entropy_step len e n = e - real n / real len * log 2 (real n / real len)"
    by (cases "real n / real len > 0")
      (auto simp: entropy_step_def Let_def zero_less_divide_iff divide_le_0_iff)
  then show ?case by (simp add: Cons.IH)
qed simp

lemma map_snd_counter: "map snd (counter s) = map (count_list s) (dkeys (counter s))"
proof -
  have "snd p = count_list s (fst p)" if "p \<in> set (counter s)" for p
  proof -
    have "dget (counter s) (fst p) = Some (snd p)"
      using that distinct_counter [of s] by (simp add: map_of_eq_Some_iff)
    then show ?thesis by (auto simp: dget_counter split: if_splits)
  qed
  then show ?thesis by simp
qed

lemma shannon_entropy_sum:
  "shannon_entropy s =
     (\<Sum>c\<in>set s. - (real (count_list s c) / real (length s)) *
        log 2 (real (count_list s c) / real (length s)))"
proof (cases "s = []")
  case False
  let ?p = "\<lambda>c. real (count_list s c) / real (length s)"
  have "shannon_entropy s = - (\<Sum>c\<leftarrow>dkeys (counter s). ?p c * log 2 (?p c))"
    using False by (simp add: shannon_entropy_def foldl_entropy_step map_snd_counter o_def)
  also have "(\<Sum>c\<leftarrow>dkeys (counter s). ?p c * log 2 (?p c)) = (\<Sum>c\<in>set s. ?p c * log 2 (?p c))"
    using sum_list_distinct_conv_sum_set [OF distinct_counter, of "\<lambda>c. ?p c * log 2 (?p c)" s]
    by (simp only: set_counter_keys)
  finally show ?thesis by (simp add: sum_negf)
qed (simp add: shannon_entropy_def)

lemma count_list_bounds: "c \<in> set s \<Longrightarrow> 0 < count_list s c \<and> count_list s c \<le> length s"
  by (metis count_le_length count_list_0_iff gr0I)

lemma shannon_entropy_nonneg: "0 \<le> shannon_entropy s"
proof -
  have "0 \<le> - (real (count_list s c) / real (length s)) * log 2 (real (count_list s c) / real (length s))"
    if "c \<in> set s" for c
  proof -
    let ?p = "real (count_list s c) / real (length s)"
    have "0 < ?p" "?p \<le> 1" using count_list_bounds [OF that] that by (auto simp: divide_le_eq_1 zero_less_divide_iff)
    then have "log 2 ?p \<le> 0" by simp
    with \<open>0 < ?p\<close> have "?p * log 2 ?p \<le> 0" by (intro mult_nonneg_nonpos) auto
    then show ?thesis by (simp only: mult_minus_left neg_0_le_iff_le)
  qed
  then show ?thesis unfolding shannon_entropy_sum by (rule sum_nonneg)
qed

text \<open>An upper bound: no character is rarer than one in the length, so no entropy exceeds the
  logarithm of the length.\<close>

lemma sum_count_list: "(\<Sum>c\<in>set s. real (count_list s c)) = real (length s)"
  by (metis (no_types) of_nat_sum sum_count_set subset_refl finite_set)

lemma shannon_entropy_le_log_length:
  assumes "s \<noteq> []" shows "shannon_entropy s \<le> log 2 (real (length s))"
proof -
  let ?n = "real (length s)" and ?k = "\<lambda>c. real (count_list s c)"
  have n: "0 < ?n" using assms by simp
  have "- (?k c / ?n) * log 2 (?k c / ?n) \<le> ?k c / ?n * log 2 ?n" if "c \<in> set s" for c
  proof -
    have k: "1 \<le> ?k c" using count_list_bounds [OF that] by simp
    then have "log 2 (?k c / ?n) = log 2 (?k c) - log 2 ?n" using n by (simp add: log_divide)
    moreover have "0 \<le> log 2 (?k c)" using k by simp
    ultimately have "- log 2 (?k c / ?n) \<le> log 2 ?n" by simp
    then have "?k c / ?n * (- log 2 (?k c / ?n)) \<le> ?k c / ?n * log 2 ?n"
      using k n by (intro mult_left_mono) auto
    then show ?thesis by simp
  qed
  then have "shannon_entropy s \<le> (\<Sum>c\<in>set s. ?k c / ?n * log 2 ?n)"
    unfolding shannon_entropy_sum by (rule sum_mono)
  also have "\<dots> = (\<Sum>c\<in>set s. ?k c) / ?n * log 2 ?n"
    by (simp add: sum_distrib_right sum_divide_distrib)
  also have "\<dots> = log 2 ?n" using n by (simp add: sum_count_list)
  finally show ?thesis .
qed

lemma dmerge_flow:
  "extract_flow_features event = Inr f \<Longrightarrow> dmerge [] f = f"
  by (auto simp: extract_flow_features_def result_simps)

lemma dmerge_dns_features [simp]: "dmerge [] (dns_features q) = dns_features q"
  by (simp add: dns_features_def Let_def)

lemma extract_features_conn:
  "oget event ''event_type'' = PStr ''conn'' \<Longrightarrow> extract_features event = extract_flow_features event"
  by (cases "extract_flow_features event") (auto simp: extract_features_def dmerge_flow)

lemma extract_features_dns:
  "oget event ''event_type'' = PStr ''dns'' \<Longrightarrow> dget_or event ''query'' (PStr []) = PStr q \<Longrightarrow>
   extract_features event = Inr (if q = [] then [] else dns_features q)"
  by (auto simp: extract_features_def extract_dns_features_def)

section \<open>Properties\<close>

text \<open>Entropy is a bounded score: the Shannon entropy computed from the character counts is the
  sum over the distinct characters of \<open>- p log2 p\<close>, is never negative and never exceeds the
  logarithm of the length, so that a label that scores above 3.8 has at least 14 characters.\<close>

theorem entropy_bounds:
  "shannon_entropy s = (\<Sum>c\<in>set s. - (real (count_list s c) / real (length s)) *
      log 2 (real (count_list s c) / real (length s))) \<and>
   0 \<le> shannon_entropy s \<and> (s \<noteq> [] \<longrightarrow> shannon_entropy s \<le> log 2 (real (length s))) \<and>
   (shannon_entropy s > 38 / 10 \<longrightarrow> 14 \<le> length s)"
proof -
  have "14 \<le> length s" if h: "shannon_entropy s > 38 / 10"
  proof -
    have ne: "s \<noteq> []" using h by (auto simp: shannon_entropy_def)
    then have "38 / 10 < log 2 (real (length s))" using h shannon_entropy_le_log_length [of s] by simp
    then have "2 powr (38 / 10) < real (length s)"
      using ne less_log_iff [of 2 "real (length s)" "38 / 10"] by (simp only: length_greater_0_conv of_nat_0_less_iff) simp
    moreover have "(13 :: real) \<le> 2 powr (38 / 10)"
    proof -
      have "(13 :: real) ^ 10 \<le> 2 ^ 38" by simp
      also have "(2 :: real) ^ 38 = (2 powr (38 / 10)) ^ 10"
        by (simp add: powr_realpow [symmetric] powr_powr)
      finally show ?thesis by (rule power_le_imp_le_base [of _ 9, simplified]) simp
    qed
    ultimately show ?thesis by linarith
  qed
  then show ?thesis
    using shannon_entropy_sum [of s] shannon_entropy_nonneg [of s] shannon_entropy_le_log_length [of s] by blast
qed

text \<open>The suffix test knows no label boundary: a name that merely ends in the letters of a known
  suffix passes for infrastructure.\<close>

lemma infra_suffix_without_boundary: "is_known_infra ''evilcloudfront.net''"
  by code_simp

text \<open>The defensive parsers still raise: on an infinite float and on a list.\<close>

lemma safe_parsers_raise:
  "safe_int (PFloat PosInf) = Inl OverflowError" "safe_int (PList []) = Inl TypeError"
  "safe_float (PList []) = Inl TypeError"
  by (simp_all add: safe_int_def safe_float_def is_null_field_def)

theorem entropy_bounds_witness: "0 \<le> shannon_entropy ''ab'' \<and> shannon_entropy ''ab'' \<le> log 2 2"
  using entropy_bounds [of "''ab''"] by simp

end
