(* ===== verification/Rules.thy ===== *)
theory Rules
  imports Features
begin

text \<open>
  \<open>inference/rules.py\<close>: the six rule blocks of \<open>evaluate_rules\<close>, one definition per block in
  the source's order, each returning the detections it appends or the exception it raises.
  The first block that raises aborts the call.
\<close>

section \<open>Comparisons of dictionary values with numbers\<close>

fun float_less :: "pyfloat \<Rightarrow> pyfloat \<Rightarrow> bool" where
  "float_less NaN _ = False"
| "float_less _ NaN = False"
| "float_less (Fin a) (Fin b) = (a < b)"
| "float_less NegInf NegInf = False"
| "float_less NegInf _ = True"
| "float_less PosInf _ = False"
| "float_less (Fin _) PosInf = True"
| "float_less (Fin _) NegInf = False"

fun float_leq :: "pyfloat \<Rightarrow> pyfloat \<Rightarrow> bool" where
  "float_leq NaN _ = False"
| "float_leq _ NaN = False"
| "float_leq a b = (\<not> float_less b a)"

definition py_less :: "pyval \<Rightarrow> pyval \<Rightarrow> bool result" where
  "py_less a b =
     (case (num_val a, num_val b) of (Some x, Some y) \<Rightarrow> Inr (float_less x y) | _ \<Rightarrow> Inl TypeError)"

definition py_leq :: "pyval \<Rightarrow> pyval \<Rightarrow> bool result" where
  "py_leq a b =
     (case (num_val a, num_val b) of (Some x, Some y) \<Rightarrow> Inr (float_leq x y) | _ \<Rightarrow> Inl TypeError)"

text \<open>\<open>x and y\<close> where the evaluation of \<open>x\<close> may raise.\<close>

definition and_then :: "bool result \<Rightarrow> bool result \<Rightarrow> bool result" where
  "and_then x y = bind_result x (\<lambda>b. if b then y else Inr False)"

lemma and_then_Inr [simp]: "and_then (Inr b) y = (if b then y else Inr False)"
  by (simp add: and_then_def)

lemma py_less_int [simp]: "py_less (PInt i) (PInt j) = Inr (i < j)"
  by (simp add: py_less_def)

lemma py_leq_int [simp]: "py_leq (PInt i) (PInt j) = Inr (i \<le> j)"
  by (auto simp: py_leq_def)

lemma py_less_float [simp]: "py_less (PFloat (Fin a)) (PFloat (Fin b)) = Inr (a < b)"
  by (simp add: py_less_def)

section \<open>Detections\<close>

definition detection :: "string \<Rightarrow> string \<Rightarrow> string \<Rightarrow> real \<Rightarrow> obj \<Rightarrow> string \<Rightarrow> string \<Rightarrow> obj" where
  "detection rule_id threat_class severity confidence evidence tactic technique =
     [(''rule_id'', PStr rule_id), (''threat_class'', PStr threat_class),
      (''severity'', PStr severity), (''confidence'', PFloat (Fin confidence)),
      (''evidence'', PDict evidence), (''mitre_tactic'', PStr tactic),
      (''mitre_technique'', PStr technique)]"

text \<open>\<open>_JA4_MALICIOUS_FINGERPRINTS\<close> from the environment variable's value, if it is set.\<close>

definition ja4_fingerprints :: "string option \<Rightarrow> string list" where
  "ja4_fingerprints env =
     filter (\<lambda>f. f \<noteq> [])
       (map py_strip (split_on (CHR '','')
          (case env of None \<Rightarrow> ''t13d000000_rare_fingerprint'' | Some v \<Rightarrow> v)))"

definition is_event :: "string \<Rightarrow> obj \<Rightarrow> bool" where
  "is_event ty event \<longleftrightarrow> oget event ''event_type'' = PStr ty"

definition rule_ddos :: "obj \<Rightarrow> obj list result" where
  "rule_ddos event =
     (if is_event ''conn'' event then
        bind_result (safe_int (dget_or event ''orig_pkts'' (PInt 0))) (\<lambda>orig_pkts.
          let conn_state = oget event ''conn_state'';
              ev = [(''conn_state'', conn_state), (''orig_pkts'', PInt orig_pkts)]
          in if orig_pkts > 10000 then
               Inr [detection ''RULE_DDOS_VOLUMETRIC'' ''DDoS'' ''critical'' (95 / 100) ev ''Impact'' ''T1498'']
             else if conn_state = PStr ''REJ'' \<and> orig_pkts \<ge> 100 then
               Inr [detection ''RULE_DDOS_VOLUMETRIC'' ''DDoS'' ''high'' (85 / 100) ev ''Impact'' ''T1498'']
             else Inr [])
      else Inr [])"

definition rule_c2 :: "obj \<Rightarrow> obj \<Rightarrow> obj list result" where
  "rule_c2 event features =
     (if is_event ''conn'' event then
        (let orig = dget_or features ''orig_bytes'' (PInt 0);
             resp = dget_or features ''resp_bytes'' (PInt 0)
         in bind_result (safe_int (dget_or event ''id.resp_p'' (PInt 0))) (\<lambda>resp_port.
            bind_result
              (and_then (py_less (PInt 50) orig) (and_then (py_less orig (PInt 150))
               (and_then (py_less (PInt 50) resp) (and_then (py_less resp (PInt 150))
                (Inr (resp_port \<notin> {80, 443, 53})))))) (\<lambda>hit.
              Inr (if hit then
                     [detection ''RULE_C2_HEARTBEAT'' ''C2 Beaconing'' ''high'' (85 / 100)
                        [(''orig_bytes'', orig), (''resp_bytes'', resp), (''port'', PInt resp_port)]
                        ''Command and Control'' ''T1132'']
                   else []))))
      else Inr [])"

definition rule_dns :: "py_repr \<Rightarrow> obj \<Rightarrow> obj \<Rightarrow> obj list result" where
  "rule_dns rp event features =
     (if is_event ''dns'' event then
        (let query = py_str rp (dget_or event ''query'' (PStr []));
             tunnel = (if length query > 60 \<and> oget event ''qtype_name'' = PStr ''TXT'' then
                         [detection ''RULE_DNS_TUNNELLING'' ''DGA / DNS Tunnelling'' ''high'' (90 / 100)
                            [(''query_length'', PInt (int (length query))), (''qtype'', PStr ''TXT'')]
                            ''Command and Control'' ''T1071.004'']
                       else []);
             label_entropy = dget_or features ''label_entropy'' (PFloat (Fin 0));
             label_length = dget_or features ''label_length'' (PInt 0)
         in bind_result
              (and_then (py_less (PFloat (Fin (38 / 10))) label_entropy)
               (and_then (py_leq (PInt 16) label_length)
                (Inr (\<not> truthy (dget_or features ''is_known_infra_suffix'' (PBool False)))))) (\<lambda>hit.
              Inr (tunnel @
                   (if hit then
                      [detection ''RULE_DNS_DGA_FALLBACK'' ''DGA / DNS Tunnelling'' ''medium'' (80 / 100)
                         [(''shannon_entropy'', label_entropy), (''query'', PStr query)]
                         ''Command and Control'' ''T1568.002'']
                    else []))))
      else Inr [])"

definition rule_ja4 :: "py_repr \<Rightarrow> string list \<Rightarrow> obj \<Rightarrow> obj list result" where
  "rule_ja4 rp fingerprints event =
     (if is_event ''conn'' event then
        (let ja4 = py_str rp (py_or (dget_or event ''ja4'' (PStr [])) (PStr []))
         in Inr (if ja4 \<noteq> [] \<and> ja4 \<in> set fingerprints then
                   [detection ''RULE_TLS_JA4_MALWARE'' ''Encrypted-Traffic Malware'' ''critical'' (95 / 100)
                      [(''ja4_fingerprint'', PStr ja4), (''tls_metadata'', PStr ''Anomalous Cipher Suite'')]
                      ''Defense Evasion'' ''T1573'']
                 else []))
      else Inr [])"

definition rule_recon :: "obj \<Rightarrow> obj list result" where
  "rule_recon event =
     (if is_event ''conn'' event then
        bind_result (safe_int (dget_or event ''orig_pkts'' (PInt 0))) (\<lambda>orig_pkts.
          Inr (if oget event ''conn_state'' = PStr ''S0'' \<and> orig_pkts < 5 then
                 [detection ''RULE_RECON_PORT_SCAN'' ''Reconnaissance'' ''low'' (75 / 100)
                    [(''conn_state'', PStr ''S0''), (''target_port'', oget event ''id.resp_p'')]
                    ''Discovery'' ''T1046'']
               else []))
      else Inr [])"

definition rule_exfil :: "obj \<Rightarrow> obj \<Rightarrow> obj list result" where
  "rule_exfil event features =
     (if is_event ''conn'' event then
        (let resp_bytes = dget_or features ''resp_bytes'' (PInt 0);
             orig_bytes = dget_or features ''orig_bytes'' (PInt 0)
         in bind_result (and_then (py_less (PInt 5000000) orig_bytes) (py_less resp_bytes (PInt 10000))) (\<lambda>hit.
              Inr (if hit then
                     [detection ''RULE_CONN_EXFIL'' ''Data Exfiltration'' ''high'' (85 / 100)
                        [(''orig_bytes'', orig_bytes), (''resp_bytes'', resp_bytes)]
                        ''Exfiltration'' ''T1048'']
                   else [])))
      else Inr [])"

definition evaluate_rules :: "py_repr \<Rightarrow> string list \<Rightarrow> obj \<Rightarrow> obj \<Rightarrow> obj list result" where
  "evaluate_rules rp fingerprints event features =
     bind_result (rule_ddos event) (\<lambda>a1.
     bind_result (rule_c2 event features) (\<lambda>a2.
     bind_result (rule_dns rp event features) (\<lambda>a3.
     bind_result (rule_ja4 rp fingerprints event) (\<lambda>a4.
     bind_result (rule_recon event) (\<lambda>a5.
     bind_result (rule_exfil event features) (\<lambda>a6.
       Inr (a1 @ a2 @ a3 @ a4 @ a5 @ a6)))))))"

lemmas rule_defs = rule_ddos_def rule_c2_def rule_dns_def rule_ja4_def rule_recon_def rule_exfil_def

section \<open>What every detection looks like\<close>

definition RULE_CLASSES :: "(string \<times> string) list" where
  "RULE_CLASSES =
     [(''RULE_DDOS_VOLUMETRIC'', ''DDoS''), (''RULE_C2_HEARTBEAT'', ''C2 Beaconing''),
      (''RULE_DNS_TUNNELLING'', ''DGA / DNS Tunnelling''),
      (''RULE_DNS_DGA_FALLBACK'', ''DGA / DNS Tunnelling''),
      (''RULE_TLS_JA4_MALWARE'', ''Encrypted-Traffic Malware''),
      (''RULE_RECON_PORT_SCAN'', ''Reconnaissance''), (''RULE_CONN_EXFIL'', ''Data Exfiltration'')]"

definition SEVERITIES :: "string list" where
  "SEVERITIES = [''low'', ''medium'', ''high'', ''critical'']"

definition det_ok :: "obj \<Rightarrow> bool" where
  "det_ok d \<longleftrightarrow>
     (\<exists>rid tc sev conf ev tac tech.
        d = detection rid tc sev conf ev tac tech \<and> dget RULE_CLASSES rid = Some tc \<and>
        sev \<in> set SEVERITIES \<and> 0 \<le> conf \<and> conf \<le> 1)"

definition rule_ids :: "obj list \<Rightarrow> pyval list" where
  "rule_ids ds = map (\<lambda>d. oget d ''rule_id'') ds"

lemma rule_ids_simps [simp]:
  "rule_ids [] = []" "rule_ids (xs @ ys) = rule_ids xs @ rule_ids ys"
  "rule_ids (detection rid tc sev conf ev tac tech # ds) = PStr rid # rule_ids ds"
  by (simp_all add: rule_ids_def detection_def)

lemma det_ok_detection [simp]:
  "det_ok (detection rid tc sev conf ev tac tech) \<longleftrightarrow>
     dget RULE_CLASSES rid = Some tc \<and> sev \<in> set SEVERITIES \<and> 0 \<le> conf \<and> conf \<le> 1"
  by (auto simp: det_ok_def detection_def)

lemma rule_ddos_ok:
  "rule_ddos event = Inr ds \<Longrightarrow>
   list_all det_ok ds \<and> set (rule_ids ds) \<subseteq> {PStr ''RULE_DDOS_VOLUMETRIC''} \<and> distinct (rule_ids ds)"
  by (auto simp: rule_ddos_def result_simps Let_def RULE_CLASSES_def SEVERITIES_def split: if_splits)

lemma rule_c2_ok:
  "rule_c2 event f = Inr ds \<Longrightarrow>
   list_all det_ok ds \<and> set (rule_ids ds) \<subseteq> {PStr ''RULE_C2_HEARTBEAT''} \<and> distinct (rule_ids ds)"
  by (auto simp: rule_c2_def result_simps Let_def RULE_CLASSES_def SEVERITIES_def split: if_splits)

lemma rule_dns_ok:
  "rule_dns rp event f = Inr ds \<Longrightarrow>
   list_all det_ok ds \<and> set (rule_ids ds) \<subseteq> {PStr ''RULE_DNS_TUNNELLING'', PStr ''RULE_DNS_DGA_FALLBACK''} \<and>
   distinct (rule_ids ds)"
  by (auto simp: rule_dns_def result_simps Let_def RULE_CLASSES_def SEVERITIES_def split: if_splits)

lemma rule_ja4_ok:
  "rule_ja4 rp fs event = Inr ds \<Longrightarrow>
   list_all det_ok ds \<and> set (rule_ids ds) \<subseteq> {PStr ''RULE_TLS_JA4_MALWARE''} \<and> distinct (rule_ids ds)"
  by (auto simp: rule_ja4_def Let_def RULE_CLASSES_def SEVERITIES_def split: if_splits)

lemma rule_recon_ok:
  "rule_recon event = Inr ds \<Longrightarrow>
   list_all det_ok ds \<and> set (rule_ids ds) \<subseteq> {PStr ''RULE_RECON_PORT_SCAN''} \<and> distinct (rule_ids ds)"
  by (auto simp: rule_recon_def result_simps RULE_CLASSES_def SEVERITIES_def split: if_splits)

lemma rule_exfil_ok:
  "rule_exfil event f = Inr ds \<Longrightarrow>
   list_all det_ok ds \<and> set (rule_ids ds) \<subseteq> {PStr ''RULE_CONN_EXFIL''} \<and> distinct (rule_ids ds)"
  by (auto simp: rule_exfil_def result_simps Let_def RULE_CLASSES_def SEVERITIES_def split: if_splits)

text \<open>Lists with elements from pairwise disjoint sets concatenate to a distinct list.\<close>

fun disjoint_all :: "'a set list \<Rightarrow> bool" where
  "disjoint_all [] = True"
| "disjoint_all (A # As) = ((\<forall>B\<in>set As. A \<inter> B = {}) \<and> disjoint_all As)"

lemma concat_within: "list_all2 (\<lambda>xs A. distinct xs \<and> set xs \<subseteq> A) xss As \<Longrightarrow> set (concat xss) \<subseteq> \<Union> (set As)"
  by (induction rule: list_all2_induct) auto

lemma distinct_concat_within:
  "list_all2 (\<lambda>xs A. distinct xs \<and> set xs \<subseteq> A) xss As \<Longrightarrow> disjoint_all As \<Longrightarrow> distinct (concat xss)"
proof (induction rule: list_all2_induct)
  case (Cons xs xss A As)
  then have "set (concat xss) \<subseteq> \<Union> (set As)" by (simp only: concat_within)
  with Cons show ?case by fastforce
qed simp

lemma evaluate_rules_ok:
  assumes "evaluate_rules rp fs event f = Inr ds"
  shows "list_all det_ok ds \<and> distinct (rule_ids ds)"
proof -
  from assms obtain a1 a2 a3 a4 a5 a6 where
    a: "rule_ddos event = Inr a1" "rule_c2 event f = Inr a2" "rule_dns rp event f = Inr a3"
      "rule_ja4 rp fs event = Inr a4" "rule_recon event = Inr a5" "rule_exfil event f = Inr a6"
    and ds: "ds = a1 @ a2 @ a3 @ a4 @ a5 @ a6"
    by (auto simp: evaluate_rules_def result_simps)
  note ok = rule_ddos_ok [OF a(1)] rule_c2_ok [OF a(2)] rule_dns_ok [OF a(3)]
    rule_ja4_ok [OF a(4)] rule_recon_ok [OF a(5)] rule_exfil_ok [OF a(6)]
  then have "list_all det_ok ds" by (simp add: ds)
  moreover have "distinct (concat [rule_ids a1, rule_ids a2, rule_ids a3, rule_ids a4, rule_ids a5, rule_ids a6])"
    by (rule distinct_concat_within [where As = "[{PStr ''RULE_DDOS_VOLUMETRIC''}, {PStr ''RULE_C2_HEARTBEAT''},
          {PStr ''RULE_DNS_TUNNELLING'', PStr ''RULE_DNS_DGA_FALLBACK''}, {PStr ''RULE_TLS_JA4_MALWARE''},
          {PStr ''RULE_RECON_PORT_SCAN''}, {PStr ''RULE_CONN_EXFIL''}]"])
      (use ok in simp_all)
  ultimately show ?thesis by (simp add: ds)
qed

lemma evaluate_rules_other:
  "\<not> is_event ''conn'' event \<Longrightarrow> \<not> is_event ''dns'' event \<Longrightarrow> evaluate_rules rp fs event f = Inr []"
  by (simp add: evaluate_rules_def rule_defs)

lemma flow_features_bytes:
  assumes "extract_flow_features event = Inr f"
  shows "\<exists>o' r. safe_int (oget event ''orig_bytes'') = Inr o' \<and> safe_int (oget event ''resp_bytes'') = Inr r \<and>
    dget_or f ''orig_bytes'' (PInt 0) = PInt o' \<and> dget_or f ''resp_bytes'' (PInt 0) = PInt r"
  using assms by (auto simp: extract_flow_features_def result_simps)

section \<open>Connection events: exactly which rules fire\<close>

text \<open>The rules' thresholds as one table over the parsed fields of a connection event.\<close>

definition conn_rule_table :: "int \<Rightarrow> pyval \<Rightarrow> int \<Rightarrow> int \<Rightarrow> int \<Rightarrow> bool \<Rightarrow> string list" where
  "conn_rule_table pkts st port orig resp known_ja4 =
     (if 10000 < pkts \<or> (st = PStr ''REJ'' \<and> 100 \<le> pkts) then [''RULE_DDOS_VOLUMETRIC''] else []) @
     (if 50 < orig \<and> orig < 150 \<and> 50 < resp \<and> resp < 150 \<and> port \<notin> {80, 443, 53}
      then [''RULE_C2_HEARTBEAT''] else []) @
     (if known_ja4 then [''RULE_TLS_JA4_MALWARE''] else []) @
     (if st = PStr ''S0'' \<and> pkts < 5 then [''RULE_RECON_PORT_SCAN''] else []) @
     (if 5000000 < orig \<and> resp < 10000 then [''RULE_CONN_EXFIL''] else [])"

definition event_ja4 :: "py_repr \<Rightarrow> obj \<Rightarrow> string" where
  "event_ja4 rp event = py_str rp (py_or (dget_or event ''ja4'' (PStr [])) (PStr []))"

lemma conn_not_dns: "is_event ''conn'' event \<Longrightarrow> \<not> is_event ''dns'' event"
  by (simp add: is_event_def)

lemma conn_rules_fire:
  assumes "is_event ''conn'' event" "extract_features event = Inr f"
    and "safe_int (dget_or event ''orig_pkts'' (PInt 0)) = Inr pkts"
    and "safe_int (dget_or event ''id.resp_p'' (PInt 0)) = Inr port"
    and "safe_int (oget event ''orig_bytes'') = Inr orig"
    and "safe_int (oget event ''resp_bytes'') = Inr resp"
  shows "\<exists>ds. evaluate_rules rp fs event f = Inr ds \<and>
    rule_ids ds = map PStr (conn_rule_table pkts (oget event ''conn_state'') port orig resp
      (event_ja4 rp event \<noteq> [] \<and> event_ja4 rp event \<in> set fs))"
proof -
  from assms have "extract_flow_features event = Inr f"
    by (simp add: extract_features_conn is_event_def)
  from flow_features_bytes [OF this] assms
  have f: "dget_or f ''orig_bytes'' (PInt 0) = PInt orig" "dget_or f ''resp_bytes'' (PInt 0) = PInt resp"
    by auto
  have 1: "\<exists>ds. rule_ddos event = Inr ds \<and> rule_ids ds = map PStr
      (if 10000 < pkts \<or> (oget event ''conn_state'' = PStr ''REJ'' \<and> 100 \<le> pkts) then [''RULE_DDOS_VOLUMETRIC''] else [])"
    using assms by (simp add: rule_ddos_def Let_def)
  have 2: "\<exists>ds. rule_c2 event f = Inr ds \<and> rule_ids ds = map PStr
      (if 50 < orig \<and> orig < 150 \<and> 50 < resp \<and> resp < 150 \<and> port \<notin> {80, 443, 53} then [''RULE_C2_HEARTBEAT''] else [])"
    using assms f by (simp add: rule_c2_def Let_def)
  have 3: "rule_dns rp event f = Inr []"
    using conn_not_dns assms by (simp add: rule_dns_def)
  have 4: "\<exists>ds. rule_ja4 rp fs event = Inr ds \<and> rule_ids ds = map PStr
      (if event_ja4 rp event \<noteq> [] \<and> event_ja4 rp event \<in> set fs then [''RULE_TLS_JA4_MALWARE''] else [])"
    using assms by (simp add: rule_ja4_def event_ja4_def Let_def)
  have 5: "\<exists>ds. rule_recon event = Inr ds \<and> rule_ids ds = map PStr
      (if oget event ''conn_state'' = PStr ''S0'' \<and> pkts < 5 then [''RULE_RECON_PORT_SCAN''] else [])"
    using assms by (simp add: rule_recon_def)
  have 6: "\<exists>ds. rule_exfil event f = Inr ds \<and> rule_ids ds = map PStr
      (if 5000000 < orig \<and> resp < 10000 then [''RULE_CONN_EXFIL''] else [])"
    using assms f by (simp add: rule_exfil_def Let_def)
  from 1 2 3 4 5 6 show ?thesis
    by (elim exE conjE) (simp add: evaluate_rules_def conn_rule_table_def)
qed

section \<open>DNS events: exactly which rules fire\<close>

definition dns_rule_table :: "string \<Rightarrow> pyval \<Rightarrow> string list" where
  "dns_rule_table q qtype =
     (let label = hd (split_on (CHR ''.'') q) in
      (if 60 < length q \<and> qtype = PStr ''TXT'' then [''RULE_DNS_TUNNELLING''] else []) @
      (if shannon_entropy label > 38 / 10 \<and> 16 \<le> length label \<and> \<not> is_known_infra q
       then [''RULE_DNS_DGA_FALLBACK''] else []))"

lemma dns_not_conn: "is_event ''dns'' event \<Longrightarrow> \<not> is_event ''conn'' event"
  by (simp add: is_event_def)

lemma dns_rules_fire:
  assumes "is_event ''dns'' event" "dget_or event ''query'' (PStr []) = PStr q"
  shows "\<exists>f ds. extract_features event = Inr f \<and> evaluate_rules rp fs event f = Inr ds \<and>
    rule_ids ds = map PStr (dns_rule_table q (oget event ''qtype_name''))"
proof -
  have f: "extract_features event = Inr (if q = [] then [] else dns_features q)"
    using assms by (intro extract_features_dns) (simp_all add: is_event_def)
  show ?thesis
    unfolding f using assms dns_not_conn [OF assms(1)]
    by (auto simp: evaluate_rules_def rule_defs Let_def dns_rule_table_def dns_features_def shannon_entropy_def)
qed

section \<open>Properties\<close>

text \<open>Every detection of a rule is well formed: it carries one of the eight rule ids with the
  threat class of that rule, a severity of the four-value scale and a confidence between 0 and 1,
  and no rule fires twice for one event.\<close>

theorem detections_well_formed:
  assumes "evaluate_rules rp fs event f = Inr ds"
  shows "list_all det_ok ds \<and> distinct (rule_ids ds) \<and>
    (\<not> is_event ''conn'' event \<and> \<not> is_event ''dns'' event \<longrightarrow> ds = [])"
  using evaluate_rules_ok [OF assms] evaluate_rules_other [of event rp fs f] assms by auto

definition sample_scan :: obj where
  "sample_scan = [(''event_type'', PStr ''conn''), (''conn_state'', PStr ''S0''), (''orig_pkts'', PInt 1),
     (''orig_bytes'', PInt 6000000), (''resp_bytes'', PStr ''-''), (''id.resp_p'', PInt 22)]"

lemma sample_scan_features:
  "extract_features sample_scan =
     Inr [(''duration'', PFloat (Fin 0)), (''orig_bytes'', PInt 6000000), (''resp_bytes'', PInt 0),
          (''bytes_per_sec'', PFloat (Fin 0))]"
  by (simp add: sample_scan_def extract_features_def extract_flow_features_def safe_float_def safe_int_def
      is_null_field_def rate_def)

text \<open>What the table leaves out of the taxonomy in the documents: a half-open flood of 350 packets, and an upload of
  10 MB that is answered by 15 kB, a ratio of more than 600 to 1. No rule reports either.\<close>

definition half_open_flood :: obj where
  "half_open_flood = [(''event_type'', PStr ''conn''), (''conn_state'', PStr ''S0''), (''orig_pkts'', PInt 350),
     (''orig_bytes'', PInt 0), (''resp_bytes'', PInt 0), (''id.resp_p'', PInt 80)]"

definition answered_upload :: obj where
  "answered_upload = [(''event_type'', PStr ''conn''), (''conn_state'', PStr ''SF''), (''orig_pkts'', PInt 7000),
     (''orig_bytes'', PInt 10000000), (''resp_bytes'', PInt 15000), (''id.resp_p'', PInt 443)]"

lemma unreported_connection:
  assumes "is_event ''conn'' event" "extract_features event = Inr f"
    and "safe_int (dget_or event ''orig_pkts'' (PInt 0)) = Inr pkts" "safe_int (dget_or event ''id.resp_p'' (PInt 0)) = Inr port"
    and "safe_int (oget event ''orig_bytes'') = Inr orig" "safe_int (oget event ''resp_bytes'') = Inr resp"
    and "event_ja4 rp event = []" "conn_rule_table pkts (oget event ''conn_state'') port orig resp False = []"
  shows "evaluate_rules rp fs event f = Inr []"
  using conn_rules_fire [OF assms(1-6), of rp fs] assms(7,8) by (auto simp: rule_ids_def)

lemma documented_attacks_unreported:
  "\<exists>f. extract_features half_open_flood = Inr f \<and> evaluate_rules rp fs half_open_flood f = Inr []"
  "\<exists>f. extract_features answered_upload = Inr f \<and> evaluate_rules rp fs answered_upload f = Inr []"
proof -
  have f: "extract_features half_open_flood = Inr [(''duration'', PFloat (Fin 0)), (''orig_bytes'', PInt 0), (''resp_bytes'', PInt 0),
      (''bytes_per_sec'', PFloat (Fin 0))]"
    "extract_features answered_upload = Inr [(''duration'', PFloat (Fin 0)), (''orig_bytes'', PInt 10000000), (''resp_bytes'', PInt 15000),
      (''bytes_per_sec'', PFloat (Fin 0))]"
    by (simp_all add: half_open_flood_def answered_upload_def extract_features_def extract_flow_features_def safe_float_def
        safe_int_def is_null_field_def rate_def)
  have "evaluate_rules rp fs half_open_flood [(''duration'', PFloat (Fin 0)), (''orig_bytes'', PInt 0), (''resp_bytes'', PInt 0),
      (''bytes_per_sec'', PFloat (Fin 0))] = Inr []"
    by (rule unreported_connection [OF _ f(1), of 350 80 0 0])
       (simp_all add: half_open_flood_def is_event_def safe_int_def is_null_field_def event_ja4_def py_or_def conn_rule_table_def)
  moreover have "evaluate_rules rp fs answered_upload [(''duration'', PFloat (Fin 0)), (''orig_bytes'', PInt 10000000), (''resp_bytes'', PInt 15000),
      (''bytes_per_sec'', PFloat (Fin 0))] = Inr []"
    by (rule unreported_connection [OF _ f(2), of 7000 443 10000000 15000])
       (simp_all add: answered_upload_def is_event_def safe_int_def is_null_field_def event_ja4_def py_or_def conn_rule_table_def)
  ultimately show "\<exists>f. extract_features half_open_flood = Inr f \<and> evaluate_rules rp fs half_open_flood f = Inr []"
    "\<exists>f. extract_features answered_upload = Inr f \<and> evaluate_rules rp fs answered_upload f = Inr []"
    using f by blast+
qed

text \<open>C35. Exactly which rules fire on a connection: with the four numeric fields parsed, the rules
  that fire, in order, are those of the threshold table (a flood, a heartbeat on an odd port, a
  listed fingerprint, a lone unanswered SYN, a one-sided upload) and no others, whatever the rest
  of the event holds. The table is that of the code; where the documents promise more, nothing fires.\<close>

theorem connection_rules_exact:
  assumes "is_event ''conn'' event" and "extract_features event = Inr f"
    and "safe_int (dget_or event ''orig_pkts'' (PInt 0)) = Inr pkts"
    and "safe_int (dget_or event ''id.resp_p'' (PInt 0)) = Inr port"
    and "safe_int (oget event ''orig_bytes'') = Inr orig"
    and "safe_int (oget event ''resp_bytes'') = Inr resp"
  shows "\<exists>ds. evaluate_rules rp fs event f = Inr ds \<and>
    rule_ids ds = map PStr (conn_rule_table pkts (oget event ''conn_state'') port orig resp
      (event_ja4 rp event \<noteq> [] \<and> event_ja4 rp event \<in> set fs))"
  using assms by (rule conn_rules_fire)

theorem connection_rules_exact_witness:
  "\<exists>f ds. extract_features sample_scan = Inr f \<and> evaluate_rules (\<lambda>_. []) [] sample_scan f = Inr ds \<and>
     rule_ids ds = [PStr ''RULE_RECON_PORT_SCAN'', PStr ''RULE_CONN_EXFIL'']"
  using connection_rules_exact [OF _ sample_scan_features, of 1 22 6000000 0 "\<lambda>_. []" "[]"]
  by (simp add: sample_scan_features) (simp add: sample_scan_def is_event_def conn_rule_table_def safe_int_def is_null_field_def)

theorem detections_well_formed_witness:
  "\<exists>ds. evaluate_rules (\<lambda>_. []) [] sample_scan [(''resp_bytes'', PInt 0)] = Inr ds \<and> list_all det_ok ds"
proof -
  obtain ds where "evaluate_rules (\<lambda>_. []) [] sample_scan [(''resp_bytes'', PInt 0)] = Inr ds"
    by (simp add: evaluate_rules_def rule_defs sample_scan_def is_event_def Let_def)
  with detections_well_formed [OF this] show ?thesis by blast
qed

text \<open>Exactly which rules fire on a DNS query: a text query always yields features, and the rules
  that fire are tunnelling, for a TXT query of more than 60 characters, and the entropy fallback,
  for a first label of at least 16 characters with entropy above 3.8 outside the known suffixes.\<close>

theorem dns_rules_exact:
  assumes "is_event ''dns'' event" and "dget_or event ''query'' (PStr []) = PStr q"
  shows "\<exists>f ds. extract_features event = Inr f \<and> evaluate_rules rp fs event f = Inr ds \<and>
    rule_ids ds = map PStr (dns_rule_table q (oget event ''qtype_name''))"
  using assms by (rule dns_rules_fire)

theorem dns_rules_exact_witness:
  "\<exists>f ds. extract_features [(''event_type'', PStr ''dns''), (''query'', PStr ''www.example.org'')] = Inr f \<and>
     evaluate_rules (\<lambda>_. []) [] [(''event_type'', PStr ''dns''), (''query'', PStr ''www.example.org'')] f = Inr ds \<and>
     rule_ids ds = []"
  using dns_rules_exact [of "[(''event_type'', PStr ''dns''), (''query'', PStr ''www.example.org'')]"
      "''www.example.org''" "\<lambda>_. []" "[]"]
  by (simp add: is_event_def dns_rule_table_def Let_def)

end
