(* ===== verification/PyIp.thy ===== *)
theory PyIp
  imports PyValue "HOL-Library.Word"
begin

unbundle bit_operations_syntax

text \<open>
  Python's \<open>ipaddress\<close> module as the program uses it: parsing and printing of IPv4 and IPv6
  addresses (scope ids included), the address classes (\<open>is_private\<close>, \<open>is_global\<close>, ...) with
  the module's network tables, and CIDR networks parsed with \<open>strict=False\<close>. Addresses keep
  their width: 32-bit and 128-bit words.
\<close>

section \<open>IPv4\<close>

definition parse_octet :: "string \<Rightarrow> nat option" where
  "parse_octet s =
     (if s = [] \<or> \<not> list_all is_decimal s \<or> 3 < length s \<or> (s \<noteq> ''0'' \<and> hd s = CHR ''0'')
         \<or> 255 < nat_of_digits s
      then None else Some (nat_of_digits s))"

text \<open>\<open>int.from_bytes(xs, 'big')\<close> and \<open>n.to_bytes(k, 'big')\<close>.\<close>

definition from_bytes :: "nat list \<Rightarrow> nat" where
  "from_bytes xs = foldl (\<lambda>q x. q * 256 + x) 0 xs"

fun to_bytes :: "nat \<Rightarrow> nat \<Rightarrow> nat list" where
  "to_bytes 0 n = []"
| "to_bytes (Suc k) n = to_bytes k (n div 256) @ [n mod 256]"

definition dotted :: "nat \<Rightarrow> nat \<Rightarrow> nat \<Rightarrow> nat \<Rightarrow> 32 word" where
  "dotted a b c d = word_of_nat (from_bytes [a, b, c, d])"

definition octets_of :: "32 word \<Rightarrow> nat list" where
  "octets_of w = to_bytes 4 (unat w)"

definition parse_v4 :: "string \<Rightarrow> 32 word option" where
  "parse_v4 s =
     (case map parse_octet (split_on (CHR ''.'') s) of
        [Some a, Some b, Some c, Some d] \<Rightarrow> Some (dotted a b c d)
      | _ \<Rightarrow> None)"

definition str_v4 :: "32 word \<Rightarrow> string" where
  "str_v4 w = join ''.'' (map str_of_nat (octets_of w))"

lemma parse_octet_str [simp]: "n < 256 \<Longrightarrow> parse_octet (str_of_nat n) = Some n"
proof -
  assume n: "n < 256"
  have dec: "list_all is_decimal (str_of_nat n)" by (auto simp: list_all_iff dest: str_of_nat_decimal)
  have len: "length (str_of_nat n) \<le> 3"
  proof (cases "n < 10")
    case True
    then show ?thesis by (simp add: str_of_nat_small)
  next
    case False
    then show ?thesis using n
      by (cases "n < 100") (simp_all add: str_of_nat_big str_of_nat_small less_mult_imp_div_less)
  qed
  have zero: "str_of_nat n = ''0'' \<or> hd (str_of_nat n) \<noteq> CHR ''0''"
  proof (cases "n = 0")
    case True
    then show ?thesis by (simp add: str_of_nat_small digit_char_def)
  next
    case False
    then show ?thesis by (simp add: str_of_nat_hd)
  qed
  show ?thesis using n dec len zero by (auto simp: parse_octet_def)
qed

lemma parse_octet_bound: "parse_octet s = Some n \<Longrightarrow> n < 256"
  by (auto simp: parse_octet_def split: if_splits)

lemma base10: "x < 10 \<Longrightarrow> (q * 10 + x) div 10 = q" "x < 10 \<Longrightarrow> (q * 10 + x) mod 10 = x" for q x :: nat
  by simp_all

lemma str_of_nat_snoc: "0 < q \<Longrightarrow> x < 10 \<Longrightarrow> str_of_nat (10 * q + x) = str_of_nat q @ [digit_char x]"
  by (subst str_of_nat.simps) (simp add: base10 mult.commute)

lemma str_parse_octet:
  assumes "parse_octet s = Some n" shows "str_of_nat n = s"
proof -
  from assms have dec: "\<forall>c\<in>set s. is_decimal c" and len: "s \<noteq> []" "length s \<le> 3"
    and zero: "s = ''0'' \<or> hd s \<noteq> CHR ''0''" and n: "n = nat_of_digits s"
    by (auto simp: parse_octet_def list_all_iff split: if_splits)
  from len have "(\<exists>a. s = [a]) \<or> (\<exists>a b. s = [a, b]) \<or> (\<exists>a b c. s = [a, b, c])"
    by (cases s rule: list.exhaust; cases "tl s"; cases "tl (tl s)") auto
  moreover have lead: "0 < digit_val a" if "is_decimal a" "a \<noteq> CHR ''0''" for a
  proof (rule ccontr)
    assume "\<not> 0 < digit_val a"
    with that have "cp a = cp (CHR ''0'')" by (auto simp: is_decimal_def digit_val_def)
    with that show False by (simp only: of_char_eq_iff)
  qed
  ultimately show ?thesis
  proof (elim disjE exE)
    fix a assume "s = [a]"
    with dec n show ?thesis
      by (simp add: nat_of_digits_def str_of_nat_small is_decimal_digit_val digit_char_val)
  next
    fix a b assume s: "s = [a, b]"
    with dec zero lead [of a] have "0 < digit_val a" "digit_val a < 10" "digit_val b < 10"
      by (auto simp: is_decimal_digit_val)
    with s dec n show ?thesis
      by (simp add: nat_of_digits_def str_of_nat_big str_of_nat_small digit_char_val)
  next
    fix a b c assume s: "s = [a, b, c]"
    with dec zero lead [of a]
    have d: "0 < digit_val a" "digit_val a < 10" "digit_val b < 10" "digit_val c < 10"
      by (auto simp: is_decimal_digit_val)
    then have "str_of_nat (10 * (10 * digit_val a + digit_val b) + digit_val c) = [a, b, c]"
      using s dec by (simp only: str_of_nat_snoc str_of_nat_small add_pos_nonneg nat_0_less_mult_iff)
        (simp add: digit_char_val str_of_nat_small str_of_nat_snoc)
    with s n show ?thesis by (simp add: nat_of_digits_def)
  qed
qed

lemma from_bytes_snoc [simp]: "from_bytes (xs @ [x]) = from_bytes xs * 256 + x"
  by (simp add: from_bytes_def)

lemma from_bytes_Nil [simp]: "from_bytes [] = 0"
  by (simp add: from_bytes_def)

lemma from_bytes_less: "\<forall>x\<in>set xs. x < 256 \<Longrightarrow> from_bytes xs < 256 ^ length xs"
proof (induction xs rule: rev_induct)
  case (snoc x xs)
  then have "from_bytes xs + 1 \<le> 256 ^ length xs" "x < 256" by auto
  then have "(from_bytes xs + 1) * 256 \<le> 256 ^ length xs * 256" by (simp only: mult_le_mono1)
  then show ?case using \<open>x < 256\<close> by simp
qed simp

lemma to_bytes_from_bytes: "length xs = k \<Longrightarrow> \<forall>x\<in>set xs. x < 256 \<Longrightarrow> to_bytes k (from_bytes xs) = xs"
  by (induction xs arbitrary: k rule: rev_induct) auto

lemma from_bytes_to_bytes: "n < 256 ^ k \<Longrightarrow> from_bytes (to_bytes k n) = n"
proof (induction k arbitrary: n)
  case (Suc k)
  then have "n div 256 < 256 ^ k" by (simp add: less_mult_imp_div_less mult.commute)
  with Suc.IH have "from_bytes (to_bytes k (n div 256)) = n div 256" .
  then show ?case by (simp add: div_mult_mod_eq)
qed simp

lemma to_bytes_bound: "x \<in> set (to_bytes k n) \<Longrightarrow> x < 256"
  by (induction k arbitrary: n) auto

lemma length_to_bytes [simp]: "length (to_bytes k n) = k"
  by (induction k arbitrary: n) auto

lemma unat_less32: "unat (w :: 32 word) < 256 ^ 4"
  using unsigned_less [of w, where 'a = nat] by simp

lemma unat_dotted:
  assumes "a < 256" "b < 256" "c < 256" "d < 256"
  shows "unat (dotted a b c d) = from_bytes [a, b, c, d]"
proof -
  have "from_bytes [a, b, c, d] < 256 ^ length [a, b, c, d]" by (rule from_bytes_less) (use assms in simp)
  then have "from_bytes [a, b, c, d] < 2 ^ 32" by simp
  then show ?thesis unfolding dotted_def unsigned_of_nat by (simp add: take_bit_nat_eq_self)
qed

lemma octets_of_dotted:
  assumes "a < 256" "b < 256" "c < 256" "d < 256"
  shows "octets_of (dotted a b c d) = [a, b, c, d]"
proof -
  have "to_bytes 4 (from_bytes [a, b, c, d]) = [a, b, c, d]"
    by (rule to_bytes_from_bytes) (use assms in simp_all)
  then show ?thesis unfolding octets_of_def unat_dotted [OF assms] .
qed

lemma four_cases: "length xs = 4 \<Longrightarrow> \<exists>a b c d. xs = [a, b, c, d]"
  by (auto simp: length_Suc_conv numeral_eq_Suc)

lemma octets_cases: obtains a b c d where "octets_of w = [a, b, c, d]"
  using four_cases [of "octets_of w"] by (auto simp: octets_of_def)

lemma dotted_octets: "octets_of w = [a, b, c, d] \<Longrightarrow> dotted a b c d = w"
proof -
  assume "octets_of w = [a, b, c, d]"
  then have "from_bytes [a, b, c, d] = unat w"
    using from_bytes_to_bytes [OF unat_less32 [of w]] by (simp only: octets_of_def)
  then show ?thesis unfolding dotted_def by (simp only: of_nat_unat ucast_id)
qed

lemma octets_bound: "x \<in> set (octets_of w) \<Longrightarrow> x < 256"
  unfolding octets_of_def by (rule to_bytes_bound)

lemma length_octets [simp]: "length (octets_of w) = 4"
  by (simp add: octets_of_def)

lemma str_of_nat_no_dot: "CHR ''.'' \<notin> set (str_of_nat n)"
  using str_of_nat_decimal by (fastforce simp: is_decimal_def)

text \<open>Printing then parsing gives the address back, and a parsed text is already canonical.\<close>

lemma parse_str_v4 [simp]: "parse_v4 (str_v4 w) = Some w"
proof -
  obtain a b c d where o4: "octets_of w = [a, b, c, d]" by (rule octets_cases)
  then have bnd: "a < 256" "b < 256" "c < 256" "d < 256"
    using octets_bound [of _ w] by auto
  have "split_on (CHR ''.'') (str_v4 w) = map str_of_nat (octets_of w)"
    unfolding str_v4_def using o4 by (intro split_on_join) (auto simp: str_of_nat_no_dot)
  then show ?thesis using o4 bnd by (simp add: parse_v4_def dotted_octets)
qed

lemma parse_v4_cases:
  assumes "parse_v4 s = Some w"
  obtains p q r t a b c d where "split_on (CHR ''.'') s = [p, q, r, t]" "w = dotted a b c d"
    "parse_octet p = Some a" "parse_octet q = Some b" "parse_octet r = Some c" "parse_octet t = Some d"
  using assms by (auto simp: parse_v4_def split: list.splits option.splits)

lemma str_parse_v4: "parse_v4 s = Some w \<Longrightarrow> str_v4 w = s"
proof (erule parse_v4_cases)
  fix p q r t a b c d
  assume s: "split_on (CHR ''.'') s = [p, q, r, t]" and w: "w = dotted a b c d"
    and o4: "parse_octet p = Some a" "parse_octet q = Some b" "parse_octet r = Some c" "parse_octet t = Some d"
  have "octets_of w = [a, b, c, d]"
    unfolding w using o4 by (simp add: octets_of_dotted parse_octet_bound)
  then have "str_v4 w = join ''.'' (split_on (CHR ''.'') s)"
    using o4 s by (simp add: str_v4_def str_parse_octet)
  then show "str_v4 w = s" by simp
qed

lemma str_v4_chars: "x \<in> set (str_v4 w) \<Longrightarrow> is_decimal x \<or> x = CHR ''.''"
proof -
  have "x \<in> set (join ''.'' ps) \<Longrightarrow> x = CHR ''.'' \<or> (\<exists>p\<in>set ps. x \<in> set p)" for ps
    by (induction "''.''" ps rule: join.induct) auto
  then show "x \<in> set (str_v4 w) \<Longrightarrow> is_decimal x \<or> x = CHR ''.''"
    unfolding str_v4_def by (fastforce dest: str_of_nat_decimal)
qed

lemma length_join_dots: "length (join ''.'' ps) = sum_list (map length ps) + (length ps - 1)"
  by (induction "''.''" ps rule: join.induct) auto

lemma length_str_octet: "n < 256 \<Longrightarrow> length (str_of_nat n) \<le> 3"
  using parse_octet_str [of n] by (auto simp: parse_octet_def split: if_splits)

lemma length_str_v4: "length (str_v4 w) \<le> 15"
proof -
  obtain a b c d where o4: "octets_of w = [a, b, c, d]" by (rule octets_cases)
  then have "a < 256" "b < 256" "c < 256" "d < 256"
    using octets_bound [of _ w] by auto
  from this [THEN length_str_octet] show ?thesis
    unfolding str_v4_def length_join_dots by (simp add: o4)
qed

section \<open>IPv6\<close>

definition hex_val :: "char \<Rightarrow> nat option" where
  "hex_val c =
     (if is_decimal c then Some (cp c - 48)
      else if 97 \<le> cp c \<and> cp c \<le> 102 then Some (cp c - 87)
      else if 65 \<le> cp c \<and> cp c \<le> 70 then Some (cp c - 55)
      else None)"

definition hex_char :: "nat \<Rightarrow> char" where
  "hex_char n = char_of (if n < 10 then 48 + n else 87 + n)"

fun hex_of_nat :: "nat \<Rightarrow> string" where
  "hex_of_nat n = (if n < 16 then [hex_char n] else hex_of_nat (n div 16) @ [hex_char (n mod 16)])"

declare hex_of_nat.simps [simp del]

fun nat_of_hex :: "nat \<Rightarrow> string \<Rightarrow> nat option" where
  "nat_of_hex a [] = Some a"
| "nat_of_hex a (c # cs) = (case hex_val c of None \<Rightarrow> None | Some v \<Rightarrow> nat_of_hex (16 * a + v) cs)"

definition parse_hextet :: "string \<Rightarrow> nat option" where
  "parse_hextet s = (if s = [] \<or> 4 < length s then None else nat_of_hex 0 s)"

text \<open>All hextets of a list, most significant first, folded into one number.\<close>

fun hextets_val :: "nat \<Rightarrow> string list \<Rightarrow> nat option" where
  "hextets_val a [] = Some a"
| "hextets_val a (p # ps) =
     (case parse_hextet p of None \<Rightarrow> None | Some v \<Rightarrow> hextets_val (65536 * a + v) ps)"

text \<open>The positions strictly inside the list that hold an empty part: each is a \<open>::\<close>.\<close>

definition skip_positions :: "string list \<Rightarrow> nat list" where
  "skip_positions ps = filter (\<lambda>i. ps ! i = []) [1..<length ps - 1]"

text \<open>\<open>_ip_int_from_string\<close>. The dotted suffix is rewritten into two hextets first.\<close>

definition v6_parts :: "string \<Rightarrow> string list option" where
  "v6_parts s =
     (let ps = split_on (CHR '':'') s in
      if length ps < 3 then None
      else if CHR ''.'' \<in> set (last ps) then
        (case parse_v4 (last ps) of
           None \<Rightarrow> None
         | Some w \<Rightarrow> Some (butlast ps @ [hex_of_nat (unat w div 65536), hex_of_nat (unat w mod 65536)]))
      else Some ps)"

definition v6_int :: "string list \<Rightarrow> nat option" where
  "v6_int ps =
     (if 9 < length ps then None else
      (case skip_positions ps of
         [] \<Rightarrow> if length ps \<noteq> 8 \<or> hd ps = [] \<or> last ps = [] then None else hextets_val 0 ps
       | [i] \<Rightarrow>
           (let hi = (if hd ps = [] then i - 1 else i);
                lo = (if last ps = [] then length ps - i - 2 else length ps - i - 1)
            in if (hd ps = [] \<and> hi \<noteq> 0) \<or> (last ps = [] \<and> lo \<noteq> 0) \<or> 7 < hi + lo then None
               else (case hextets_val 0 (take hi ps) of
                       None \<Rightarrow> None
                     | Some a \<Rightarrow> hextets_val (a * 65536 ^ (8 - (hi + lo))) (drop (length ps - lo) ps)))
       | _ \<Rightarrow> None))"

definition parse_v6 :: "string \<Rightarrow> 128 word option" where
  "parse_v6 s =
     (case v6_parts s of None \<Rightarrow> None | Some ps \<Rightarrow> map_option word_of_nat (v6_int ps))"

text \<open>\<open>_compress_hextets\<close>: the first longest run of zero hextets becomes \<open>::\<close>.\<close>

fun zero_run :: "nat \<Rightarrow> string list \<Rightarrow> nat \<times> nat \<Rightarrow> nat \<times> nat \<Rightarrow> nat \<times> nat" where
  "zero_run i [] best cur = best"
| "zero_run i (h # hs) (bs, bl) (cs, cl) =
     (if h = ''0'' then
        (let cs' = (if cl = 0 then i else cs); cl' = Suc cl
         in zero_run (Suc i) hs (if bl < cl' then (cs', cl') else (bs, bl)) (cs', cl'))
      else zero_run (Suc i) hs (bs, bl) (0, 0))"

definition compress_hextets :: "string list \<Rightarrow> string list" where
  "compress_hextets hs =
     (case zero_run 0 hs (0, 0) (0, 0) of (bs, bl) \<Rightarrow>
        if 1 < bl then
          (let e = bs + bl;
               hs1 = (if e = length hs then hs @ [[]] else hs);
               hs2 = take bs hs1 @ [[]] @ drop e hs1
           in if bs = 0 then [] # hs2 else hs2)
        else hs)"

fun hextets_of :: "nat \<Rightarrow> nat \<Rightarrow> nat list" where
  "hextets_of 0 n = []"
| "hextets_of (Suc k) n = hextets_of k (n div 65536) @ [n mod 65536]"

definition str_v6 :: "128 word \<Rightarrow> string" where
  "str_v6 w = join '':'' (compress_hextets (map hex_of_nat (hextets_of 8 (unat w))))"

section \<open>Addresses\<close>

datatype ip_addr = V4 "32 word" | V6 "128 word" "string option"

text \<open>\<open>ipaddress.ip_address(s)\<close>: \<open>None\<close> where it raises ValueError.\<close>

definition split_scope :: "string \<Rightarrow> (string \<times> string option) option" where
  "split_scope s =
     (case split_on (CHR ''%'') s of
        [a] \<Rightarrow> Some (a, None)
      | [a, z] \<Rightarrow> (if z = [] then None else Some (a, Some z))
      | _ \<Rightarrow> None)"

definition ip_address :: "string \<Rightarrow> ip_addr option" where
  "ip_address s =
     (if CHR ''/'' \<in> set s then None else
      (case parse_v4 s of
         Some w \<Rightarrow> Some (V4 w)
       | None \<Rightarrow>
           (case split_scope s of
              None \<Rightarrow> None
            | Some (a, z) \<Rightarrow> map_option (\<lambda>w. V6 w z) (parse_v6 a))))"

fun str_ip :: "ip_addr \<Rightarrow> string" where
  "str_ip (V4 w) = str_v4 w"
| "str_ip (V6 w None) = str_v6 w"
| "str_ip (V6 w (Some z)) = str_v6 w @ ''%'' @ z"

fun ip_version :: "ip_addr \<Rightarrow> nat" where
  "ip_version (V4 _) = 4"
| "ip_version (V6 _ _) = 6"

lemma str_v4_no_slash: "CHR ''/'' \<notin> set (str_v4 w)"
  using str_v4_chars [of "CHR ''/''" w] by (auto simp: is_decimal_def)

lemma ip_address_str_v4 [simp]: "ip_address (str_v4 w) = Some (V4 w)"
  by (simp add: ip_address_def str_v4_no_slash)

lemma ip_address_V4: "ip_address s = Some (V4 w) \<Longrightarrow> s = str_v4 w"
  by (auto simp: ip_address_def str_parse_v4 split: if_splits option.splits prod.splits)

text \<open>Addresses written out, by their octets.\<close>

lemma str_v4_dotted:
  "a < 256 \<Longrightarrow> b < 256 \<Longrightarrow> c < 256 \<Longrightarrow> d < 256 \<Longrightarrow>
   str_v4 (dotted a b c d) = join ''.'' (map str_of_nat [a, b, c, d])"
  by (simp add: str_v4_def octets_of_dotted)

lemma ip_address_dotted:
  "a < 256 \<Longrightarrow> b < 256 \<Longrightarrow> c < 256 \<Longrightarrow> d < 256 \<Longrightarrow>
   ip_address (join ''.'' (map str_of_nat [a, b, c, d])) = Some (V4 (dotted a b c d))"
  by (metis ip_address_str_v4 str_v4_dotted)

section \<open>Networks and address classes\<close>

datatype ip_net = Net4 "32 word" nat | Net6 "128 word" nat

text \<open>The netmask of a prefix length, and membership as \<open>addr & netmask == network_address\<close>.\<close>

definition mask4 :: "nat \<Rightarrow> 32 word" where
  "mask4 p = push_bit (32 - p) (- 1)"

definition mask6 :: "nat \<Rightarrow> 128 word" where
  "mask6 p = push_bit (128 - p) (- 1)"

fun in_net :: "ip_addr \<Rightarrow> ip_net \<Rightarrow> bool" where
  "in_net (V4 w) (Net4 n p) = (w AND mask4 p = n)"
| "in_net (V6 w z) (Net6 n p) = (w AND mask6 p = n)"
| "in_net _ _ = False"

definition net4 :: "nat \<Rightarrow> nat \<Rightarrow> nat \<Rightarrow> nat \<Rightarrow> nat \<Rightarrow> ip_net" where
  "net4 a b c d p = Net4 (dotted a b c d) p"

definition private4 :: "ip_net list" where
  "private4 =
     [net4 0 0 0 0 8, net4 10 0 0 0 8, net4 127 0 0 0 8, net4 169 254 0 0 16, net4 172 16 0 0 12,
      net4 192 0 0 0 24, net4 192 0 0 170 31, net4 192 0 2 0 24, net4 192 168 0 0 16,
      net4 198 18 0 0 15, net4 198 51 100 0 24, net4 203 0 113 0 24, net4 240 0 0 0 4,
      net4 255 255 255 255 32]"

definition private4_exceptions :: "ip_net list" where
  "private4_exceptions = [net4 192 0 0 9 32, net4 192 0 0 10 32]"

definition net6 :: "nat \<Rightarrow> nat \<Rightarrow> nat \<Rightarrow> nat \<Rightarrow> nat \<Rightarrow> ip_net" where
  "net6 a b c l p =
     Net6 (word_of_nat (((a * 65536 + b) * 65536 + c) * 65536 ^ 5 + l)) p"

definition private6 :: "ip_net list" where
  "private6 =
     [net6 0 0 0 1 128, net6 0 0 0 0 128, net6 0 0 0 (65535 * 65536 ^ 2) 96,
      net6 0x64 0xff9b 1 0 48, net6 0x100 0 0 0 64, net6 0x2001 0 0 0 23, net6 0x2001 0xdb8 0 0 32,
      net6 0x2002 0 0 0 16, net6 0xfc00 0 0 0 7, net6 0xfe80 0 0 0 10]"

definition private6_exceptions :: "ip_net list" where
  "private6_exceptions =
     [net6 0x2001 1 0 1 128, net6 0x2001 1 0 2 128, net6 0x2001 3 0 0 32,
      net6 0x2001 4 0x112 0 48, net6 0x2001 0x20 0 0 28, net6 0x2001 0x30 0 0 28]"

definition in_any :: "ip_net list \<Rightarrow> ip_addr \<Rightarrow> bool" where
  "in_any nets a = list_ex (in_net a) nets"

text \<open>\<open>ipv4_mapped\<close>: the embedded address of \<open>::ffff:a.b.c.d\<close>.\<close>

definition ipv4_mapped :: "128 word \<Rightarrow> 32 word option" where
  "ipv4_mapped w = (if unat w div 2 ^ 32 = 65535 then Some (word_of_nat (unat w mod 2 ^ 32)) else None)"

definition is_private4 :: "32 word \<Rightarrow> bool" where
  "is_private4 w \<longleftrightarrow> in_any private4 (V4 w) \<and> \<not> in_any private4_exceptions (V4 w)"

fun is_private :: "ip_addr \<Rightarrow> bool" where
  "is_private (V4 w) = is_private4 w"
| "is_private (V6 w z) =
     (case ipv4_mapped w of
        Some v \<Rightarrow> is_private4 v
      | None \<Rightarrow> in_any private6 (V6 w z) \<and> \<not> in_any private6_exceptions (V6 w z))"

fun is_global :: "ip_addr \<Rightarrow> bool" where
  "is_global (V4 w) = (\<not> in_net (V4 w) (net4 100 64 0 0 10) \<and> \<not> is_private4 w)"
| "is_global (V6 w z) = (\<not> is_private (V6 w z))"

fun is_loopback :: "ip_addr \<Rightarrow> bool" where
  "is_loopback (V4 w) = in_net (V4 w) (net4 127 0 0 0 8)"
| "is_loopback (V6 w z) = (w = 1)"

fun is_link_local :: "ip_addr \<Rightarrow> bool" where
  "is_link_local (V4 w) = in_net (V4 w) (net4 169 254 0 0 16)"
| "is_link_local (V6 w z) = in_net (V6 w z) (net6 0xfe80 0 0 0 10)"

fun is_multicast :: "ip_addr \<Rightarrow> bool" where
  "is_multicast (V4 w) = in_net (V4 w) (net4 224 0 0 0 4)"
| "is_multicast (V6 w z) = in_net (V6 w z) (net6 0xff00 0 0 0 8)"

fun is_reserved :: "ip_addr \<Rightarrow> bool" where
  "is_reserved (V4 w) = in_net (V4 w) (net4 240 0 0 0 4)"
| "is_reserved (V6 w z) =
     in_any [net6 0 0 0 0 8, net6 0x100 0 0 0 8, net6 0x200 0 0 0 7, net6 0x400 0 0 0 6,
             net6 0x800 0 0 0 5, net6 0x1000 0 0 0 4, net6 0x4000 0 0 0 3, net6 0x6000 0 0 0 3,
             net6 0x8000 0 0 0 3, net6 0xA000 0 0 0 3, net6 0xC000 0 0 0 3, net6 0xE000 0 0 0 4,
             net6 0xF000 0 0 0 5, net6 0xF800 0 0 0 6, net6 0xFE00 0 0 0 9] (V6 w z)"

fun is_unspecified :: "ip_addr \<Rightarrow> bool" where
  "is_unspecified (V4 w) = (w = 0)"
| "is_unspecified (V6 w z) = (w = 0)"

text \<open>\<open>ipaddress.ip_network(s, strict=False)\<close>.\<close>

definition parse_prefix :: "nat \<Rightarrow> string \<Rightarrow> nat option" where
  "parse_prefix m s =
     (if s = [] \<or> \<not> list_all is_decimal s \<or> 4300 < length s \<or> m < nat_of_digits s then None
      else Some (nat_of_digits s))"

text \<open>A dotted netmask, else a dotted hostmask, as a prefix length.\<close>

definition parse_netmask :: "string \<Rightarrow> nat option" where
  "parse_netmask s =
     (case parse_v4 s of
        None \<Rightarrow> None
      | Some w \<Rightarrow>
          (case find (\<lambda>p. mask4 p = w) [0..<33] of
             Some p \<Rightarrow> Some p
           | None \<Rightarrow> find (\<lambda>p. mask4 p = NOT w) [0..<33]))"

definition ip_network4 :: "string \<Rightarrow> string option \<Rightarrow> ip_net option" where
  "ip_network4 a m =
     (case parse_v4 a of
        None \<Rightarrow> None
      | Some w \<Rightarrow>
          (case m of
             None \<Rightarrow> Some (Net4 w 32)
           | Some t \<Rightarrow>
               (case parse_prefix 32 t of
                  Some p \<Rightarrow> Some (Net4 (w AND mask4 p) p)
                | None \<Rightarrow> map_option (\<lambda>p. Net4 (w AND mask4 p) p) (parse_netmask t))))"

definition ip_network6 :: "string \<Rightarrow> string option \<Rightarrow> ip_net option" where
  "ip_network6 a m =
     (case split_scope a of
        None \<Rightarrow> None
      | Some (b, z) \<Rightarrow>
          (case parse_v6 b of
             None \<Rightarrow> None
           | Some w \<Rightarrow>
               (case m of
                  None \<Rightarrow> Some (Net6 w 128)
                | Some t \<Rightarrow> map_option (\<lambda>p. Net6 (w AND mask6 p) p) (parse_prefix 128 t))))"

definition ip_network :: "string \<Rightarrow> ip_net option" where
  "ip_network s =
     (let go = (\<lambda>a m. (case ip_network4 a m of Some n \<Rightarrow> Some n | None \<Rightarrow> ip_network6 a m)) in
      case split_on (CHR ''/'') s of
        [a] \<Rightarrow> go a None
      | [a, m] \<Rightarrow> go a (Some m)
      | _ \<Rightarrow> None)"

fun net_version :: "ip_net \<Rightarrow> nat" where
  "net_version (Net4 _ _) = 4"
| "net_version (Net6 _ _) = 6"

fun net_prefixlen :: "ip_net \<Rightarrow> nat" where
  "net_prefixlen (Net4 _ p) = p"
| "net_prefixlen (Net6 _ p) = p"

fun str_net :: "ip_net \<Rightarrow> string" where
  "str_net (Net4 n p) = str_v4 n @ ''/'' @ str_of_nat p"
| "str_net (Net6 n p) = str_v6 n @ ''/'' @ str_of_nat p"

lemma in_net_version: "in_net a n \<Longrightarrow> ip_version a = net_version n"
  by (cases "(a, n)" rule: in_net.cases) auto

section \<open>Membership in a network, by octets\<close>

lemma and_mask4: "w AND mask4 p = push_bit (32 - p) (drop_bit (32 - p) w)"
  by (rule bit_eqI) (auto simp: mask4_def push_bit_minus_one_eq_not_mask bit_simps)

lemma in_net4_iff:
  assumes "unat v mod 2 ^ (32 - p) = 0" "0 < p"
  shows "in_net (V4 w) (Net4 v p) \<longleftrightarrow> unat w div 2 ^ (32 - p) = unat v div 2 ^ (32 - p)"
proof -
  let ?n = "32 - p"
  have n: "?n < 32" using assms(2) by simp
  have v: "push_bit ?n (drop_bit ?n v) = v"
  proof -
    have "unat (take_bit ?n v) = 0" using assms(1) unfolding unsigned_take_bit_eq unfolding take_bit_eq_mod .
    then have "take_bit ?n v = 0" by (simp only: unsigned_eq_0_iff)
    then show ?thesis using bits_ident [of ?n v] by simp
  qed
  have "push_bit ?n (drop_bit ?n w) = v \<longleftrightarrow> drop_bit ?n w = drop_bit ?n v"
  proof
    assume "push_bit ?n (drop_bit ?n w) = v"
    then have "drop_bit ?n (push_bit ?n (drop_bit ?n w)) = drop_bit ?n v" by simp
    moreover have "drop_bit ?n (push_bit ?n (drop_bit ?n w)) = drop_bit ?n w"
      by (rule bit_eqI) (auto simp: bit_drop_bit_eq bit_push_bit_iff dest: bit_imp_le_length)
    ultimately show "drop_bit ?n w = drop_bit ?n v" by simp
  qed (use v in simp)
  also have "\<dots> \<longleftrightarrow> unat w div 2 ^ ?n = unat v div 2 ^ ?n"
    unfolding word_unat_eq_iff unat_drop_bit_eq unfolding drop_bit_eq_div ..
  finally show ?thesis by (simp add: and_mask4)
qed

lemma in_net4_dotted:
  assumes "a < 256" "b < 256" "c < 256" "d < 256" "e < 256" "f < 256" "g < 256" "h < 256"
    and "0 < p" "(((e * 256 + f) * 256 + g) * 256 + h) mod 2 ^ (32 - p) = 0"
  shows "in_net (V4 (dotted a b c d)) (net4 e f g h p) \<longleftrightarrow>
    (((a * 256 + b) * 256 + c) * 256 + d) div 2 ^ (32 - p) = (((e * 256 + f) * 256 + g) * 256 + h) div 2 ^ (32 - p)"
proof -
  have sum: "from_bytes [x, y, z, w] = ((x * 256 + y) * 256 + z) * 256 + w" for x y z w
    by (simp add: from_bytes_def)
  have u: "unat (dotted e f g h) mod 2 ^ (32 - p) = 0"
    using assms(10) unfolding unat_dotted [OF assms(5-8)] sum .
  show ?thesis
    unfolding net4_def in_net4_iff [OF u assms(9)] unat_dotted [OF assms(5-8)] unat_dotted [OF assms(1-4)] sum ..
qed

lemma octets_div:
  fixes a b c d :: nat
  assumes "c < 256" "d < 256"
  shows "(((a * 256 + b) * 256 + c) * 256 + d) div 2 ^ 16 = a * 256 + b"
    and "b < 256 \<Longrightarrow> (((a * 256 + b) * 256 + c) * 256 + d) div 2 ^ 24 = a"
    and "(((a * 256 + b) * 256 + c) * 256 + d) div 2 ^ 20 = a * 16 + b div 16"
    and "(((a * 256 + b) * 256 + c) * 256 + d) div 2 ^ 22 = a * 4 + b div 64"
    and "b < 256 \<Longrightarrow> (((a * 256 + b) * 256 + c) * 256 + d) div 2 ^ 28 = a div 16"
proof -
  let ?v = "((a * 256 + b) * 256 + c) * 256 + d"
  have "?v = (c * 256 + d) + (a * 256 + b) * 2 ^ 16" by simp
  then show 16: "?v div 2 ^ 16 = a * 256 + b" using assms by (simp only: div_mult_self1) simp
  have s: "?v div 2 ^ (16 + k) = (a * 256 + b) div 2 ^ k" for k
    unfolding power_add div_mult2_eq 16 ..
  show "?v div 2 ^ 24 = a" if "b < 256" using s [of 8] that by simp
  show "?v div 2 ^ 20 = a * 16 + b div 16" using s [of 4] by (simp add: div_plus_div_distrib_dvd_left)
  show "?v div 2 ^ 22 = a * 4 + b div 64" using s [of 6] by (simp add: div_plus_div_distrib_dvd_left)
  show "?v div 2 ^ 28 = a div 16" if "b < 256"
    using s [of 12] that div_mult2_eq [of "a * 256 + b" 256 16] by simp
qed

lemma radix_eq: "r < m \<Longrightarrow> s < m \<Longrightarrow> q * m + r = p * m + s \<longleftrightarrow> q = p \<and> r = s" for q :: nat
proof
  assume h: "r < m" "s < m" "q * m + r = p * m + s"
  have "(q * m + r) div m = q" "(q * m + r) mod m = r" "(p * m + s) div m = p" "(p * m + s) mod m = s"
    using h(1,2) by auto
  with h(3) show "q = p \<and> r = s" by metis
qed simp

lemma in_net4_octets:
  assumes "a < 256" "b < 256" "c < 256" "d < 256"
  shows "e < 256 \<Longrightarrow> in_net (V4 (dotted a b c d)) (net4 e 0 0 0 8) \<longleftrightarrow> a = e"
    and "e < 256 \<Longrightarrow> f < 256 \<Longrightarrow> in_net (V4 (dotted a b c d)) (net4 e f 0 0 16) \<longleftrightarrow> a = e \<and> b = f"
    and "in_net (V4 (dotted a b c d)) (net4 172 16 0 0 12) \<longleftrightarrow> a = 172 \<and> b div 16 = 1"
    and "in_net (V4 (dotted a b c d)) (net4 100 64 0 0 10) \<longleftrightarrow> a = 100 \<and> b div 64 = 1"
    and "in_net (V4 (dotted a b c d)) (net4 224 0 0 0 4) \<longleftrightarrow> a div 16 = 14"
    and "in_net (V4 (dotted a b c d)) (net4 240 0 0 0 4) \<longleftrightarrow> a div 16 = 15"
proof -
  note net = in_net4_dotted [OF assms]
  note v = octets_div [OF assms(3,4)]
  show "in_net (V4 (dotted a b c d)) (net4 e 0 0 0 8) \<longleftrightarrow> a = e" if "e < 256"
    using net [of e 0 0 0 8] v(2) [OF assms(2), of a] that by simp
  show "in_net (V4 (dotted a b c d)) (net4 e f 0 0 16) \<longleftrightarrow> a = e \<and> b = f" if "e < 256" "f < 256"
  proof -
    have "in_net (V4 (dotted a b c d)) (net4 e f 0 0 16) \<longleftrightarrow> a * 256 + b = e * 256 + f"
      using net [of e f 0 0 16] v(1) [of a b] octets_div(1) [of 0 0 e f] that by (simp add: mult.commute)
    then show ?thesis using radix_eq [of b 256 f a e] assms(2) that(2) by simp
  qed
  have small: "b div 16 < 16" "b div 64 < 4" using assms(2) by auto
  show "in_net (V4 (dotted a b c d)) (net4 172 16 0 0 12) \<longleftrightarrow> a = 172 \<and> b div 16 = 1"
  proof -
    have "in_net (V4 (dotted a b c d)) (net4 172 16 0 0 12) \<longleftrightarrow> a * 16 + b div 16 = 172 * 16 + 1"
      using net [of 172 16 0 0 12] v(3) [of a b] by simp
    then show ?thesis using radix_eq [OF small(1), of 1 a 172] by simp
  qed
  show "in_net (V4 (dotted a b c d)) (net4 100 64 0 0 10) \<longleftrightarrow> a = 100 \<and> b div 64 = 1"
  proof -
    have "in_net (V4 (dotted a b c d)) (net4 100 64 0 0 10) \<longleftrightarrow> a * 4 + b div 64 = 100 * 4 + 1"
      using net [of 100 64 0 0 10] v(4) [of a b] by simp
    then show ?thesis using radix_eq [OF small(2), of 1 a 100] by simp
  qed
  show "in_net (V4 (dotted a b c d)) (net4 224 0 0 0 4) \<longleftrightarrow> a div 16 = 14"
    using net [of 224 0 0 0 4] v(5) [OF assms(2), of a] by simp
  show "in_net (V4 (dotted a b c d)) (net4 240 0 0 0 4) \<longleftrightarrow> a div 16 = 15"
    using net [of 240 0 0 0 4] v(5) [OF assms(2), of a] by simp
qed

text \<open>The documentation and benchmarking networks, and the two addresses excepted from the private ones.\<close>

lemma in_net4_special:
  assumes "a < 256" "b < 256" "c < 256" "d < 256"
  shows "e < 256 \<Longrightarrow> f < 256 \<Longrightarrow> g < 256 \<Longrightarrow>
      in_net (V4 (dotted a b c d)) (net4 e f g 0 24) \<longleftrightarrow> a = e \<and> b = f \<and> c = g"
    and "in_net (V4 (dotted a b c d)) (net4 198 18 0 0 15) \<longleftrightarrow> a = 198 \<and> b div 2 = 9"
proof -
  note net = in_net4_dotted [OF assms]
  show "in_net (V4 (dotted a b c d)) (net4 e f g 0 24) \<longleftrightarrow> a = e \<and> b = f \<and> c = g" if "e < 256" "f < 256" "g < 256"
  proof -
    have last: "(x * 256 + y) div 256 = x" if "y < 256" for x y :: nat using that by simp
    have "in_net (V4 (dotted a b c d)) (net4 e f g 0 24) \<longleftrightarrow>
        (((a * 256 + b) * 256 + c) * 256 + d) div 256 = (((e * 256 + f) * 256 + g) * 256 + 0) div 256"
      using net [of e f g 0 24] that by simp
    also have "\<dots> \<longleftrightarrow> (a * 256 + b) * 256 + c = (e * 256 + f) * 256 + g" using assms(4) by (simp only: last)
    also have "\<dots> \<longleftrightarrow> a * 256 + b = e * 256 + f \<and> c = g" by (rule radix_eq [OF assms(3) that(3)])
    finally show ?thesis unfolding radix_eq [OF assms(2) that(2)] by blast
  qed
  have "(((a * 256 + b) * 256 + c) * 256 + d) div 2 ^ 17 = (a * 256 + b) div 2"
    using octets_div(1) [OF assms(3,4), of a b] div_mult2_eq [of "((a * 256 + b) * 256 + c) * 256 + d" "2 ^ 16" 2] by simp
  moreover have "(a * 256 + b) div 2 = a * 128 + b div 2" by (simp add: div_plus_div_distrib_dvd_left)
  ultimately have "in_net (V4 (dotted a b c d)) (net4 198 18 0 0 15) \<longleftrightarrow> a * 128 + b div 2 = 198 * 128 + 9"
    using net [of 198 18 0 0 15] by simp
  moreover have "b div 2 < 128" using assms(2) by simp
  ultimately show "in_net (V4 (dotted a b c d)) (net4 198 18 0 0 15) \<longleftrightarrow> a = 198 \<and> b div 2 = 9"
    using radix_eq [of "b div 2" 128 9 a 198] by simp
qed

lemma exceptions_octets:
  assumes "octets_of w = [a, b, c, d]" "in_any private4_exceptions (V4 w)"
  shows "[a, b, c, d] = [192, 0, 0, 9] \<or> [a, b, c, d] = [192, 0, 0, 10]"
proof -
  have "w = dotted 192 0 0 9 \<or> w = dotted 192 0 0 10"
    using assms(2) by (auto simp: in_any_def private4_exceptions_def net4_def mask4_def)
  then show ?thesis using octets_of_dotted [of 192 0 0 9] octets_of_dotted [of 192 0 0 10] assms(1) by auto
qed

text \<open>The special ranges an address outside \<open>is_private4\<close> and the shared, multicast and reserved
  blocks avoids.\<close>

definition public_octets :: "nat \<Rightarrow> nat \<Rightarrow> nat \<Rightarrow> nat \<Rightarrow> bool" where
  "public_octets a b c d \<longleftrightarrow>
     a \<notin> {0, 10, 127} \<and> a < 224 \<and> \<not> (a = 100 \<and> 64 \<le> b \<and> b < 128) \<and> \<not> (a = 169 \<and> b = 254) \<and>
     \<not> (a = 172 \<and> 16 \<le> b \<and> b < 32) \<and> \<not> (a = 192 \<and> b = 168) \<and> \<not> (a = 192 \<and> b = 0 \<and> c = 0 \<and> d \<notin> {9, 10}) \<and>
     \<not> (a = 192 \<and> b = 0 \<and> c = 2) \<and> \<not> (a = 198 \<and> b \<in> {18, 19}) \<and> \<not> (a = 198 \<and> b = 51 \<and> c = 100) \<and>
     \<not> (a = 203 \<and> b = 0 \<and> c = 113)"

lemma public_octetsI:
  assumes "octets_of w = [a, b, c, d]" "is_global (V4 w)" "\<not> is_multicast (V4 w)" "\<not> is_reserved (V4 w)"
    and "\<not> is_loopback (V4 w)" "\<not> is_link_local (V4 w)"
    and "\<not> in_any [net4 0 0 0 0 8, net4 10 0 0 0 8, net4 172 16 0 0 12, net4 192 168 0 0 16] (V4 w)"
  shows "public_octets a b c d"
proof -
  have o: "a < 256" "b < 256" "c < 256" "d < 256"
    using octets_bound [of _ w] assms(1) by auto
  have w: "w = dotted a b c d" using dotted_octets [OF assms(1)] by simp
  note net = in_net4_octets [OF o]
  have 1: "a \<notin> {0, 10, 127}" using assms(5,7) by (simp add: w in_any_def net del: in_net.simps)
  have 2: "\<not> (a = 100 \<and> b div 64 = 1)" using assms(2) by (simp add: w net del: in_net.simps)
  have 3: "\<not> (a = 169 \<and> b = 254)" using assms(6) by (simp add: w net del: in_net.simps)
  have 4: "\<not> (a = 172 \<and> b div 16 = 1)" "\<not> (a = 192 \<and> b = 168)"
    using assms(7) by (simp_all add: w in_any_def net del: in_net.simps)
  have 5: "a div 16 \<noteq> 14" "a div 16 \<noteq> 15" using assms(3,4) by (simp_all add: w net del: in_net.simps)
  have 6: "[a, b, c, d] = [192, 0, 0, 9] \<or> [a, b, c, d] = [192, 0, 0, 10] \<or> \<not> in_any private4 (V4 w)"
    using exceptions_octets [OF assms(1)] assms(2) by (auto simp: is_private4_def)
  have nets: "\<not> in_any private4 (V4 w) \<Longrightarrow> \<not> in_net (V4 w) (net4 192 0 0 0 24) \<and> \<not> in_net (V4 w) (net4 192 0 2 0 24) \<and>
      \<not> in_net (V4 w) (net4 198 18 0 0 15) \<and> \<not> in_net (V4 w) (net4 198 51 100 0 24) \<and> \<not> in_net (V4 w) (net4 203 0 113 0 24)"
    by (simp add: in_any_def private4_def del: in_net.simps)
  have free: "\<not> in_any private4 (V4 w) \<Longrightarrow> \<not> (a = 192 \<and> b = 0 \<and> c = 0) \<and> \<not> (a = 192 \<and> b = 0 \<and> c = 2) \<and> \<not> (a = 198 \<and> b div 2 = 9) \<and>
      \<not> (a = 198 \<and> b = 51 \<and> c = 100) \<and> \<not> (a = 203 \<and> b = 0 \<and> c = 113)"
    using nets unfolding w by (simp add: in_net4_special [OF o] del: in_net.simps)
  have 7: "\<not> (a = 192 \<and> b = 0 \<and> c = 0 \<and> d \<notin> {9, 10}) \<and> \<not> (a = 192 \<and> b = 0 \<and> c = 2) \<and>
    \<not> (a = 198 \<and> b div 2 = 9) \<and> \<not> (a = 198 \<and> b = 51 \<and> c = 100) \<and> \<not> (a = 203 \<and> b = 0 \<and> c = 113)"
  proof (cases "in_any private4 (V4 w)")
    case True
    with 6 have "a = 192 \<and> b = 0 \<and> c = 0 \<and> d \<in> {9, 10}" by (simp only: list.inject) blast
    then show ?thesis by simp
  next
    case False
    from free [OF this] show ?thesis by blast
  qed
  have r: "a < 224" "64 \<le> b \<and> b < 128 \<Longrightarrow> b div 64 = 1" "16 \<le> b \<and> b < 32 \<Longrightarrow> b div 16 = 1" "b \<in> {18, 19} \<Longrightarrow> b div 2 = 9"
    using 5 o(1) by auto
  show ?thesis unfolding public_octets_def using 1 2 3 4 7 r by (intro conjI) blast+
qed

end
