(* ===== verification/Playbooks.thy ===== *)
theory Playbooks
  imports Rules PyIp
begin

text \<open>
  \<open>inference/playbooks.py\<close>: the response templates, the mapping of threat classes to them, the
  offline address intelligence, and \<open>generate_playbook\<close>, with the standard library's
  \<open>shlex.quote\<close>. A reading of the shell's word splitting says what a recommended firewall rule
  means when it is pasted into a shell.
\<close>

section \<open>Templates\<close>

record playbook_template =
  t_title :: string
  t_containment_steps :: "string list"
  t_firewall_rule :: string
  t_forensic_checklist :: "string list"
  t_mitre_mitigations :: "string list"

definition volumetric_protocol_ddos_template :: playbook_template where
  "volumetric_protocol_ddos_template =
     \<lparr>t_title = ''Volumetric & Protocol DDoS Containment'',
      t_containment_steps =
        [''Enable upstream BGP Blackhole / Rate-Limiting for victim destination port.'',
         ''Activate SYN Cookies and aggressive TCP connection timeout parameters on gateway edge.'',
         ''Block amplification reflector source IPs at border ingress filter.''],
      t_firewall_rule = ''iptables -A INPUT -p tcp --dport {dst_port} -m limit --limit 25/minute --limit-burst 100 -j ACCEPT'',
      t_forensic_checklist =
        [''Extract 5-minute PCAP slice around attack onset.'',
         ''Analyze source IP distribution for spoofed /56 or /64 prefix clusters.'',
         ''Identify amplification reflection vectors (NTP monlist, DNS ANY, Memcached).''],
      t_mitre_mitigations =
        [''M1037 - Filter Network Traffic'',
         ''M1035 - Limit Hardware & Protocol Interfaces'']\<rparr>"

definition botnet_c2_beaconing_template :: playbook_template where
  "botnet_c2_beaconing_template =
     \<lparr>t_title = ''Botnet C2 Infrastructure Isolation & Host Triage'',
      t_containment_steps =
        [''Isolate compromised endpoint from local LAN segment.'',
         ''Block C2 IP/domain at outbound gateway border router.'',
         ''Revoke active Kerberos / OAuth sessions associated with the infected host.''],
      t_firewall_rule = ''iptables -I FORWARD -s {src_ip} -j DROP'' @ [CHR 0x0A] @ ''iptables -I OUTPUT -d {dst_ip} -j DROP'',
      t_forensic_checklist =
        [''Acquire volatile memory dump (RAM) of infected endpoint via Volatility / WinPmem.'',
         ''Inspect process hierarchy for parentless binaries or suspicious PowerShell/rundll32 executions.'',
         ''Collect scheduled tasks and autorun registry persistence keys.''],
      t_mitre_mitigations =
        [''M1037 - Filter Network Traffic'',
         ''M1049 - Antivirus/Antimalware'',
         ''M1040 - Network Segmentation'']\<rparr>"

definition dga_domain_template :: playbook_template where
  "dga_domain_template =
     \<lparr>t_title = ''Algorithmic DGA Resolution Sinkholing'',
      t_containment_steps =
        [''Add domain to internal DNS sinkhole / RPZ (Response Policy Zone) returning 127.0.0.1.'',
         ''Identify internal client issuing high-entropy recursive DNS requests.'',
         ''Trigger automated EDR scan on requesting endpoint.''],
      t_firewall_rule = ''unbound-control local_zone {domain} always_nxdomain'',
      t_forensic_checklist =
        [''Extract full DNS query history for requesting source IP over past 24 hours.'',
         ''Correlate with known DGA seed dates (Conficker, Cryptolocker, Banjori families).'',
         ''Identify executable responsible for initiating UDP 53 socket connection.''],
      t_mitre_mitigations =
        [''M1031 - Network Intrusion Prevention'',
         ''M1020 - Automated Dynamic DNS Filtering'']\<rparr>"

definition dns_tunneling_exfil_template :: playbook_template where
  "dns_tunneling_exfil_template =
     \<lparr>t_title = ''DNS Tunneling & Data Exfiltration Remediation'',
      t_containment_steps =
        [''Block authoritative nameserver domain on recursive resolvers.'',
         ''Enforce strict DNS query length limits (< 60 chars) on perimeter DNS forwarders.'',
         ''Quarantine endpoint transmitting high-entropy TXT/NULL payloads.''],
      t_firewall_rule = ''iptables -A FORWARD -s {src_ip} -p udp --dport 53 -m length --length 150:65535 -j DROP'',
      t_forensic_checklist =
        [''Reconstruct Base64/Hex stream from decoded subdomain chunks.'',
         ''Perform DLP classification on reconstructed files to assess data exposure.'',
         ''Analyze process network sockets to find DNS tunneling tools (e.g. dnscat2, iodine).''],
      t_mitre_mitigations =
        [''M1037 - Filter Network Traffic'',
         ''M1057 - Data Loss Prevention'']\<rparr>"

definition malicious_ja3_fingerprint_template :: playbook_template where
  "malicious_ja3_fingerprint_template =
     \<lparr>t_title = ''Encrypted C2 Malware Handshake Interception'',
      t_containment_steps =
        [''Quarantine infected host immediately via EDR agent.'',
         ''Blacklist destination C2 IP and JA3 fingerprint across all perimeter sensors.'',
         ''Scan host for known C2 framework stagers (Cobalt Strike, Sliver, Metasploit).''],
      t_firewall_rule = ''iptables -I FORWARD -s {src_ip} -d {dst_ip} -j DROP'',
      t_forensic_checklist =
        [''Extract in-memory DLL injections (e.g. Cobalt Strike Reflective DLL Loader).'',
         ''Inspect named pipes used for local inter-process communication.'',
         ''Cross-reference JA3 hash ({ja3_hash}) against latest threat intelligence feeds.''],
      t_mitre_mitigations =
        [''M1037 - Filter Network Traffic'',
         ''M1049 - Antivirus/EDR Containment'',
         ''M1041 - Execution Prevention'']\<rparr>"

definition encrypted_malware_tls_template :: playbook_template where
  "encrypted_malware_tls_template =
     \<lparr>t_title = ''Suspicious TLS Handshake Containment'',
      t_containment_steps =
        [''Block outbound connections to destination host with anomalous self-signed certificate.'',
         ''Inspect internal client for unsigned binaries initiating TLS sockets.''],
      t_firewall_rule = ''iptables -I OUTPUT -d {dst_ip} -p tcp --dport {dst_port} -j DROP'',
      t_forensic_checklist =
        [''Extract full X.509 certificate metadata from Zeek ssl.log.'',
         ''Correlate SNI entropy with malware infrastructure hosting providers.''],
      t_mitre_mitigations =
        [''M1037 - Filter Network Traffic'',
         ''M1031 - Network Intrusion Prevention'']\<rparr>"

definition recon_port_scan_template :: playbook_template where
  "recon_port_scan_template =
     \<lparr>t_title = ''Internal Reconnaissance & Port Scan Containment'',
      t_containment_steps =
        [''Temporarily restrict source IP from accessing internal server VLANs.'',
         ''Inspect source host for compromised credentials or scanning tools (Nmap, Masscan).'',
         ''Verify if target ports contain unpatched vulnerabilities.''],
      t_firewall_rule = ''iptables -I FORWARD -s {src_ip} -j DROP'',
      t_forensic_checklist =
        [''Determine whether scan was automated SYN sweep or interactive discovery.'',
         ''Check authentication logs on target systems for subsequent lateral movement attempts.''],
      t_mitre_mitigations =
        [''M1030 - Network Segmentation'',
         ''M1035 - Disable Unnecessary Services'']\<rparr>"

definition data_exfiltration_template :: playbook_template where
  "data_exfiltration_template =
     \<lparr>t_title = ''High-Volume Unilateral Data Exfiltration Response'',
      t_containment_steps =
        [''Sever outbound internet connection for exfiltrating host immediately.'',
         ''Trigger emergency incident response team notification and forensic preservation.'',
         ''Block external drop-site / C2 receiver IP across all egress firewalls.''],
      t_firewall_rule = ''iptables -I FORWARD -s {src_ip} -j REJECT --reject-with icmp-admin-prohibited'' @ [CHR 0x0A] @ ''iptables -I OUTPUT -d {dst_ip} -j DROP'',
      t_forensic_checklist =
        [''Audit endpoint file access logs to determine exact sensitive files accessed before exfiltration.'',
         ''Identify archive tools (7-Zip, WinRAR) or staging directories used prior to upload.'',
         ''Calculate total exfiltrated data volume across all concurrent connections.''],
      t_mitre_mitigations =
        [''M1057 - Data Loss Prevention'',
         ''M1037 - Filter Network Traffic'',
         ''M1040 - Restrict File & Directory Access'']\<rparr>"

definition PLAYBOOK_TEMPLATES :: "(string, playbook_template) pydict" where
  "PLAYBOOK_TEMPLATES =
     [(''VOLUMETRIC_PROTOCOL_DDOS'', volumetric_protocol_ddos_template),
      (''BOTNET_C2_BEACONING'', botnet_c2_beaconing_template),
      (''DGA_DOMAIN'', dga_domain_template),
      (''DNS_TUNNELING_EXFIL'', dns_tunneling_exfil_template),
      (''MALICIOUS_JA3_FINGERPRINT'', malicious_ja3_fingerprint_template),
      (''ENCRYPTED_MALWARE_TLS'', encrypted_malware_tls_template),
      (''RECON_PORT_SCAN'', recon_port_scan_template),
      (''DATA_EXFILTRATION'', data_exfiltration_template)]"

definition THREAT_CLASS_MAP :: "(string, string) pydict" where
  "THREAT_CLASS_MAP =
     [(''DDOS'', ''VOLUMETRIC_PROTOCOL_DDOS''),
      (''VOLUMETRIC_PROTOCOL_DDOS'', ''VOLUMETRIC_PROTOCOL_DDOS''),
      (''C2 BEACONING'', ''BOTNET_C2_BEACONING''),
      (''BOTNET_C2_BEACONING'', ''BOTNET_C2_BEACONING''),
      (''DGA / DNS TUNNELLING'', ''DGA_DOMAIN''),
      (''DGA'', ''DGA_DOMAIN''),
      (''DGA_DOMAIN'', ''DGA_DOMAIN''),
      (''DNS TUNNELLING'', ''DNS_TUNNELING_EXFIL''),
      (''DNS_TUNNELING_EXFIL'', ''DNS_TUNNELING_EXFIL''),
      (''ENCRYPTED-TRAFFIC MALWARE'', ''ENCRYPTED_MALWARE_TLS''),
      (''ENCRYPTED_MALWARE_TLS'', ''ENCRYPTED_MALWARE_TLS''),
      (''MALICIOUS_JA3_FINGERPRINT'', ''MALICIOUS_JA3_FINGERPRINT''),
      (''RECONNAISSANCE'', ''RECON_PORT_SCAN''),
      (''RECON_PORT_SCAN'', ''RECON_PORT_SCAN''),
      (''DATA EXFILTRATION'', ''DATA_EXFILTRATION''),
      (''DATA_EXFILTRATION'', ''DATA_EXFILTRATION'')]"

section \<open>Operations\<close>

text \<open>\<open>re.sub(r'[\r\n\x00]', '', str(val))\<close>.\<close>

definition sanitize_input :: "py_repr \<Rightarrow> pyval \<Rightarrow> string \<Rightarrow> string" where
  "sanitize_input rp val dflt =
     (if val = PNone then dflt
      else filter (\<lambda>c. c \<notin> {CHR 0x0D, CHR 0x0A, CHR 0x00}) (py_str rp val))"

definition safe_format_string :: "string \<Rightarrow> (string \<times> string) list \<Rightarrow> string" where
  "safe_format_string template_str kwargs =
     foldl (\<lambda>res (k, v). replace_all (''{'' @ k @ ''}'') v res) template_str kwargs"

text \<open>\<open>shlex.quote\<close>: text with a character outside \<open>[A-Za-z0-9_@%+=:,./-]\<close> is put between single
  quotes, a single quote of its own leaving and re-entering them.\<close>

definition shell_safe :: "char \<Rightarrow> bool" where
  "shell_safe c \<longleftrightarrow> is_ascii_alnum c \<or> c \<in> set ''_@%+=:,./-''"

definition shlex_quote :: "string \<Rightarrow> string" where
  "shlex_quote s =
     (if s = [] then [CHR 0x27, CHR 0x27]
      else if list_all shell_safe s then s
      else CHR 0x27 # replace_all [CHR 0x27] [CHR 0x27, CHR 0x22, CHR 0x27, CHR 0x22, CHR 0x27] s @ [CHR 0x27])"

definition intel_countries :: "string list" where
  "intel_countries = [''RU'', ''CN'', ''IR'', ''KP'', ''BR'', ''RO'', ''US'', ''NL'', ''DE'']"

definition intel_asns :: "string list" where
  "intel_asns = [''AS47764'', ''AS4134'', ''AS58224'', ''AS174'', ''AS398324'', ''AS20473'']"

definition trusted_intel :: obj where
  "trusted_intel = [(''country'', PStr ''Internal / RFC1918''), (''asn'', PStr ''N/A''), (''reputation'', PStr ''Trusted'')]"

text \<open>\<open>md5\<close> is the standard library's digest, read as a number.\<close>

definition enrich_ip_intel :: "(string \<Rightarrow> nat) \<Rightarrow> string \<Rightarrow> obj" where
  "enrich_ip_intel md5 ip =
     (if ip = [] then trusted_intel
      else (case ip_address ip of
          None \<Rightarrow> trusted_intel
        | Some a \<Rightarrow>
            if is_private a \<or> is_loopback a \<or> is_link_local a \<or> is_unspecified a then trusted_intel
            else
              (let h = md5 ip;
                   country = intel_countries ! (h mod length intel_countries);
                   asn = intel_asns ! (h div 10 mod length intel_asns);
                   rep = (if country \<in> {''RU'', ''CN'', ''IR'', ''KP'', ''RO''}
                          then ''Suspicious (Known Bulletproof Hoster)'' else ''Neutral'')
               in [(''country'', PStr country), (''asn'', PStr asn), (''reputation'', PStr rep)])))"

definition template_for :: "py_repr \<Rightarrow> pyval \<Rightarrow> playbook_template" where
  "template_for rp raw_threat_class =
     dget_or PLAYBOOK_TEMPLATES
       (dget_or THREAT_CLASS_MAP (py_upper (py_strip (py_str rp raw_threat_class))) ''DATA_EXFILTRATION'')
       data_exfiltration_template"

text \<open>The five values a template can name: what the alert says of the flow and its evidence.\<close>

definition playbook_fields :: "py_repr \<Rightarrow> obj \<Rightarrow> string \<times> string \<times> string \<times> string \<times> string" where
  "playbook_fields rp alert =
     (let evidence = (case dget_or alert ''evidence'' (PDict []) of PDict d \<Rightarrow> d | _ \<Rightarrow> []) in
      (sanitize_input rp (py_or (py_or (oget alert ''source_ip'') (oget alert ''src_ip'')) (oget alert ''id.orig_h''))
         ''192.168.1.100'',
       sanitize_input rp (py_or (py_or (oget alert ''destination_ip'') (oget alert ''dst_ip'')) (oget alert ''id.resp_h''))
         ''198.51.100.1'',
       sanitize_input rp (py_or (py_or (oget alert ''destination_port'') (oget alert ''dst_port'')) (oget alert ''id.resp_p''))
         ''443'',
       sanitize_input rp (py_or (py_or (oget evidence ''domain'') (oget evidence ''query'')) (oget alert ''query''))
         ''malicious-c2.com'',
       sanitize_input rp (py_or (oget evidence ''ja3_hash'') (oget evidence ''ja4''))
         ''a0e9f5d64349fb13191bc781f81f42e1''))"

definition firewall_rule :: "py_repr \<Rightarrow> obj \<Rightarrow> string" where
  "firewall_rule rp alert =
     (case playbook_fields rp alert of (src_ip, dst_ip, dst_port, domain, ja3_hash) \<Rightarrow>
        safe_format_string
          (t_firewall_rule (template_for rp (py_or (oget alert ''threat_class'') (PStr ''DATA_EXFILTRATION''))))
          [(''src_ip'', shlex_quote src_ip), (''dst_ip'', shlex_quote dst_ip),
           (''dst_port'', shlex_quote dst_port), (''domain'', shlex_quote domain),
           (''ja3_hash'', shlex_quote ja3_hash)])"

definition generate_playbook :: "(string \<Rightarrow> nat) \<Rightarrow> py_repr \<Rightarrow> obj \<Rightarrow> obj" where
  "generate_playbook md5 rp alert =
     (let raw_threat_class = py_or (oget alert ''threat_class'') (PStr ''DATA_EXFILTRATION'');
          template = template_for rp raw_threat_class in
      case playbook_fields rp alert of (src_ip, dst_ip, dst_port, domain, ja3_hash) \<Rightarrow>
        [(''title'', PStr (t_title template)),
         (''threat_class'', raw_threat_class),
         (''severity'', dget_or alert ''severity'' (PStr ''HIGH'')),
         (''containment_steps'', PList (map PStr (t_containment_steps template))),
         (''recommended_firewall_rule'', PStr (firewall_rule rp alert)),
         (''forensic_checklist'',
            PList (map (\<lambda>item. PStr (safe_format_string item
              [(''src_ip'', src_ip), (''dst_ip'', dst_ip), (''domain'', domain), (''ja3_hash'', ja3_hash)]))
              (t_forensic_checklist template))),
         (''mitre_mitigations'', PList (map PStr (t_mitre_mitigations template))),
         (''threat_intel'',
            PDict [(''source'', PDict (enrich_ip_intel md5 src_ip)),
                   (''destination'', PDict (enrich_ip_intel md5 dst_ip))])])"

section \<open>Reading a command line\<close>

text \<open>
  How a POSIX shell splits a line into words: \<open>Live c\<close> marks a character the shell would act on
  (an operator, an expansion, a line end) instead of taking it literally. \<open>None\<close> is a quote left
  open.
\<close>

datatype sh_tok = Word string | Live char

datatype sh_mode = Plain | Single | Double

definition flush_word :: "string option \<Rightarrow> sh_tok list" where
  "flush_word w = (case w of None \<Rightarrow> [] | Some s \<Rightarrow> [Word s])"

definition add_char :: "string option \<Rightarrow> char \<Rightarrow> string option" where
  "add_char w c = (case w of None \<Rightarrow> Some [c] | Some s \<Rightarrow> Some (s @ [c]))"

definition open_word :: "string option \<Rightarrow> string option" where
  "open_word w = (case w of None \<Rightarrow> Some [] | Some s \<Rightarrow> Some s)"

definition shell_literal :: "char \<Rightarrow> bool" where
  "shell_literal c \<longleftrightarrow> is_ascii_alnum c \<or> c \<in> set ''_@%+=:,./-{}'' \<or> 128 \<le> cp c"

fun sh_lex :: "sh_mode \<Rightarrow> string option \<Rightarrow> string \<Rightarrow> sh_tok list option" where
  "sh_lex Plain w [] = Some (flush_word w)"
| "sh_lex Plain w (c # cs) =
     (if c = CHR 0x27 then sh_lex Single (open_word w) cs
      else if c = CHR 0x22 then sh_lex Double (open_word w) cs
      else if c = CHR '' '' then map_option (\<lambda>ts. flush_word w @ ts) (sh_lex Plain None cs)
      else if shell_literal c then sh_lex Plain (add_char w c) cs
      else map_option (\<lambda>ts. flush_word w @ Live c # ts) (sh_lex Plain None cs))"
| "sh_lex Single w [] = None"
| "sh_lex Single w (c # cs) =
     (if c = CHR 0x27 then sh_lex Plain w cs else sh_lex Single (add_char w c) cs)"
| "sh_lex Double w [] = None"
| "sh_lex Double w (c # cs) =
     (if c = CHR 0x22 then sh_lex Plain w cs
      else if c \<in> {CHR ''$'', CHR 0x60, CHR 0x5C}
      then map_option (\<lambda>ts. flush_word w @ Live c # ts) (sh_lex Double None cs)
      else sh_lex Double (add_char w c) cs)"

definition sh_words :: "string \<Rightarrow> sh_tok list option" where
  "sh_words = sh_lex Plain None"

definition grow_word :: "string option \<Rightarrow> string \<Rightarrow> string option" where
  "grow_word w s = (case w of None \<Rightarrow> Some s | Some v \<Rightarrow> Some (v @ s))"

lemma add_char_grow [simp]: "add_char (grow_word w s) c = grow_word w (s @ [c])"
  by (simp add: add_char_def grow_word_def split: option.split)

lemma open_word_grow [simp]: "open_word (grow_word w s) = grow_word w s" "open_word w = grow_word w []"
  by (simp_all add: open_word_def grow_word_def split: option.split)

lemma grow_grow [simp]: "grow_word (grow_word w s) t = grow_word w (s @ t)"
  by (simp add: grow_word_def split: option.split)

lemma add_char_None [simp]: "add_char w c = grow_word w [c]"
  by (simp add: add_char_def grow_word_def split: option.split)

lemma shell_safe_literal: "shell_safe c \<Longrightarrow> shell_literal c \<and> c \<noteq> CHR 0x27 \<and> c \<noteq> CHR 0x22 \<and> c \<noteq> CHR '' ''"
  by (auto simp: shell_safe_def shell_literal_def is_ascii_alnum_def is_decimal_def is_lower_az_def is_upper_az_def)

lemma lex_safe: "list_all shell_safe s \<Longrightarrow> s \<noteq> [] \<Longrightarrow> sh_lex Plain w (s @ t) = sh_lex Plain (grow_word w s) t"
proof (induction s arbitrary: w)
  case (Cons c s)
  then show ?case using shell_safe_literal [of c] by (cases s) auto
qed simp

lemma lex_single:
  "sh_lex Single (grow_word w u) (replace_all [CHR 0x27] [CHR 0x27, CHR 0x22, CHR 0x27, CHR 0x22, CHR 0x27] s @ CHR 0x27 # t) =
   sh_lex Plain (grow_word w (u @ s)) t"
  by (induction s arbitrary: u) auto

lemma lex_quote: "sh_lex Plain w (shlex_quote s @ t) = sh_lex Plain (grow_word w s) t"
  using lex_single [of w "[]" s t] by (auto simp: shlex_quote_def lex_safe)

section \<open>Filling templates\<close>

text \<open>A template as text with holes; \<open>fill\<close> puts all values in at once.\<close>

datatype seg = Lit string | Hole string

fun seg_text :: "seg \<Rightarrow> string" where
  "seg_text (Lit s) = s"
| "seg_text (Hole k) = ''{'' @ k @ ''}''"

definition segs_text :: "seg list \<Rightarrow> string" where
  "segs_text gs = concat (map seg_text gs)"

fun fill_seg :: "(string \<times> string) list \<Rightarrow> seg \<Rightarrow> seg" where
  "fill_seg vs (Lit s) = Lit s"
| "fill_seg vs (Hole k) = (case map_of vs k of None \<Rightarrow> Hole k | Some v \<Rightarrow> Lit v)"

fun seg_ok :: "seg \<Rightarrow> bool" where
  "seg_ok (Lit s) = (CHR ''{'' \<notin> set s)"
| "seg_ok (Hole k) = (CHR ''{'' \<notin> set k \<and> CHR ''}'' \<notin> set k)"

lemma brace_cut: "CHR ''}'' \<notin> set x \<Longrightarrow> takeWhile (\<lambda>c. c \<noteq> CHR ''}'') (x @ CHR ''}'' # r) = x"
  by (induction x) auto

lemma hole_other:
  assumes "CHR ''{'' \<notin> set j" "CHR ''}'' \<notin> set j" "CHR ''}'' \<notin> set k" "j \<noteq> k"
  shows "replace_all (''{'' @ k @ ''}'') v (''{'' @ j @ ''}'' @ t) = ''{'' @ j @ ''}'' @ replace_all (''{'' @ k @ ''}'') v t"
proof -
  have "\<not> prefix (k @ ''}'') (j @ ''}'' @ t)"
  proof
    assume "prefix (k @ ''}'') (j @ ''}'' @ t)"
    then obtain r where "j @ ''}'' @ t = k @ ''}'' @ r" by (auto elim!: prefixE)
    then have "j = k" using brace_cut [of j "t"] brace_cut [of k r] assms(2,3) by simp
    with assms(4) show False by simp
  qed
  then have "replace_all (''{'' @ k @ ''}'') v (''{'' @ j @ ''}'' @ t) =
      CHR ''{'' # replace_all (''{'' @ k @ ''}'') v ((j @ ''}'') @ t)" by simp
  also have "\<dots> = CHR ''{'' # (j @ ''}'') @ replace_all (''{'' @ k @ ''}'') v t"
    using assms(1) by (subst replace_all_skip [of _ "CHR ''{''" "k @ ''}''"]) auto
  finally show ?thesis by simp
qed

lemma replace_segs:
  assumes "CHR ''}'' \<notin> set k" "list_all seg_ok gs"
  shows "replace_all (''{'' @ k @ ''}'') v (segs_text gs) = segs_text (map (fill_seg [(k, v)]) gs)"
  using assms(2)
proof (induction gs)
  case (Cons g gs)
  show ?case
  proof (cases g)
    case (Lit s)
    with Cons show ?thesis
      by (simp add: segs_text_def replace_all_skip [of _ "CHR ''{''" "k @ ''}''"])
  next
    case (Hole j)
    have "replace_all (''{'' @ k @ ''}'') v ((''{'' @ k @ ''}'') @ t) = v @ replace_all (''{'' @ k @ ''}'') v t" for t
      by (rule replace_all_hit) simp
    with Hole Cons hole_other [of j k v "segs_text gs"] assms(1) show ?thesis
      by (cases "j = k") (auto simp: segs_text_def)
  qed
qed (simp add: segs_text_def)

lemma format_segs:
  "list_all seg_ok gs \<Longrightarrow> \<forall>(k, v)\<in>set vs. CHR ''}'' \<notin> set k \<and> CHR ''{'' \<notin> set v \<Longrightarrow>
   safe_format_string (segs_text gs) vs = segs_text (map (fill_seg vs) gs)"
proof (induction vs arbitrary: gs)
  case Nil
  have "fill_seg [] g = g" for g by (cases g) auto
  then show ?case by (simp add: safe_format_string_def)
next
  case (Cons p vs)
  obtain k v where p: "p = (k, v)" by (cases p)
  have "seg_ok g \<Longrightarrow> seg_ok (fill_seg [(k, v)] g)" for g
    using Cons.prems(2) by (cases g) (auto simp: p)
  then have ok: "list_all seg_ok (map (fill_seg [(k, v)]) gs)"
    using Cons.prems(1) by (simp add: list_all_iff)
  have two: "fill_seg vs (fill_seg [(k, v)] g) = fill_seg ((k, v) # vs) g" for g
    by (cases g) auto
  have comp: "fill_seg vs \<circ> fill_seg [(k, v)] = fill_seg ((k, v) # vs)"
    by (rule ext) (simp add: two)
  have "safe_format_string (segs_text gs) (p # vs) = safe_format_string (segs_text (map (fill_seg [(k, v)]) gs)) vs"
    using Cons.prems replace_segs [of k gs v] by (simp add: safe_format_string_def p)
  also have "\<dots> = segs_text (map (fill_seg vs) (map (fill_seg [(k, v)]) gs))"
    using Cons.IH [OF ok] Cons.prems by simp
  finally show ?case by (simp add: p comp)
qed

lemma quote_brace: "CHR ''{'' \<notin> set s \<Longrightarrow> CHR ''{'' \<notin> set (shlex_quote s)"
proof -
  have r: "set (replace_all [CHR 0x27] [CHR 0x27, CHR 0x22, CHR 0x27, CHR 0x22, CHR 0x27] s) \<subseteq> set s \<union> {CHR 0x27, CHR 0x22}"
    by (induction s) auto
  assume "CHR ''{'' \<notin> set s"
  with r show ?thesis by (auto simp: shlex_quote_def)
qed

definition fill_tok :: "(string \<times> string) list \<Rightarrow> sh_tok \<Rightarrow> sh_tok" where
  "fill_tok vs tk =
     (case tk of Live c \<Rightarrow> Live c
      | Word s \<Rightarrow> (case find (\<lambda>(k, v). s = ''{'' @ k @ ''}'') vs of None \<Rightarrow> Word s | Some (k, v) \<Rightarrow> Word v))"

definition quote_all :: "(string \<times> string) list \<Rightarrow> (string \<times> string) list" where
  "quote_all = map (\<lambda>(k, v). (k, shlex_quote v))"

definition the_fields :: "string \<Rightarrow> string \<Rightarrow> string \<Rightarrow> string \<Rightarrow> string \<Rightarrow> (string \<times> string) list" where
  "the_fields src_ip dst_ip dst_port domain ja3_hash =
     [(''src_ip'', src_ip), (''dst_ip'', dst_ip), (''dst_port'', dst_port), (''domain'', domain), (''ja3_hash'', ja3_hash)]"

lemma shell_literal_simps:
  "shell_literal c \<longleftrightarrow> is_decimal c \<or> is_lower_az c \<or> is_upper_az c \<or> c \<in> set ''_@%+=:,./-{}'' \<or> 128 \<le> cp c"
  by (auto simp: shell_literal_def is_ascii_alnum_def)

lemma lex_step:
  "sh_lex Plain w [] = Some (flush_word w)"
  "shell_literal c \<and> c \<noteq> CHR 0x27 \<and> c \<noteq> CHR 0x22 \<and> c \<noteq> CHR '' '' \<Longrightarrow>
   sh_lex Plain w (c # cs) = sh_lex Plain (grow_word w [c]) cs"
  "sh_lex Plain w (CHR '' '' # cs) = map_option (\<lambda>ts. flush_word w @ ts) (sh_lex Plain None cs)"
  "sh_lex Plain w (CHR 0x0A # cs) = map_option (\<lambda>ts. flush_word w @ Live (CHR 0x0A) # ts) (sh_lex Plain None cs)"
  by (simp_all add: shell_literal_simps is_decimal_def is_lower_az_def is_upper_az_def)

lemma format_rule:
  assumes "list_all (\<lambda>(k, v). CHR ''{'' \<notin> set v) (the_fields a b c d e)" "list_all seg_ok gs"
  shows "safe_format_string (segs_text gs) (quote_all (the_fields a b c d e)) =
    segs_text (map (fill_seg (quote_all (the_fields a b c d e))) gs)"
  using assms by (intro format_segs) (auto simp: quote_all_def the_fields_def quote_brace)

definition fills_ok :: "playbook_template \<Rightarrow> bool" where
  "fills_ok t \<longleftrightarrow>
     (\<forall>a b c d e. list_all (\<lambda>(k, v). CHR ''{'' \<notin> set v) (the_fields a b c d e) \<longrightarrow>
        (\<exists>toks. sh_words (t_firewall_rule t) = Some toks \<and>
          sh_words (safe_format_string (t_firewall_rule t) (quote_all (the_fields a b c d e))) =
            Some (map (fill_tok (the_fields a b c d e)) toks)))"

lemma fills_okI:
  assumes "t_firewall_rule t = segs_text gs" "list_all seg_ok gs" "sh_words (segs_text gs) = Some toks"
    "\<And>a b c d e. sh_words (segs_text (map (fill_seg (quote_all (the_fields a b c d e))) gs)) =
       Some (map (fill_tok (the_fields a b c d e)) toks)"
  shows "fills_ok t"
  using assms format_rule by (auto simp: fills_ok_def)

lemmas lexing = sh_words_def segs_text_def quote_all_def the_fields_def lex_quote lex_step shell_literal_simps
  is_decimal_def is_lower_az_def is_upper_az_def fill_tok_def flush_word_def grow_word_def

lemma fills_volumetric_protocol_ddos: "fills_ok volumetric_protocol_ddos_template"
proof (rule fills_okI)
  let ?gs = "[Lit (''iptables -A INPUT -p tcp --dport ''),
      Hole ''dst_port'',
      Lit ('' -m limit --limit 25/minute --limit-burst 100 -j ACCEPT'')]"
  show "t_firewall_rule volumetric_protocol_ddos_template = segs_text ?gs"
    by (simp add: volumetric_protocol_ddos_template_def segs_text_def)
  show "list_all seg_ok ?gs" by simp
  show "sh_words (segs_text ?gs) =
      Some [Word ''iptables'', Word ''-A'', Word ''INPUT'', Word ''-p'', Word ''tcp'', Word ''--dport'', Word ''{dst_port}'', Word ''-m'', Word ''limit'', Word ''--limit'', Word ''25/minute'', Word ''--limit-burst'', Word ''100'', Word ''-j'', Word ''ACCEPT'']"
    by (simp del: sh_lex.simps add: lexing)
qed (simp del: sh_lex.simps add: lexing)

lemma fills_botnet_c2_beaconing: "fills_ok botnet_c2_beaconing_template"
proof (rule fills_okI)
  let ?gs = "[Lit (''iptables -I FORWARD -s ''),
      Hole ''src_ip'',
      Lit ('' -j DROP'' @ [CHR 0x0A] @ ''iptables -I OUTPUT -d ''),
      Hole ''dst_ip'',
      Lit ('' -j DROP'')]"
  show "t_firewall_rule botnet_c2_beaconing_template = segs_text ?gs"
    by (simp add: botnet_c2_beaconing_template_def segs_text_def)
  show "list_all seg_ok ?gs" by simp
  show "sh_words (segs_text ?gs) =
      Some [Word ''iptables'', Word ''-I'', Word ''FORWARD'', Word ''-s'', Word ''{src_ip}'', Word ''-j'', Word ''DROP'', Live (CHR 0x0A), Word ''iptables'', Word ''-I'', Word ''OUTPUT'', Word ''-d'', Word ''{dst_ip}'', Word ''-j'', Word ''DROP'']"
    by (simp del: sh_lex.simps add: lexing)
qed (simp del: sh_lex.simps add: lexing)

lemma fills_dga_domain: "fills_ok dga_domain_template"
proof (rule fills_okI)
  let ?gs = "[Lit (''unbound-control local_zone ''),
      Hole ''domain'',
      Lit ('' always_nxdomain'')]"
  show "t_firewall_rule dga_domain_template = segs_text ?gs"
    by (simp add: dga_domain_template_def segs_text_def)
  show "list_all seg_ok ?gs" by simp
  show "sh_words (segs_text ?gs) =
      Some [Word ''unbound-control'', Word ''local_zone'', Word ''{domain}'', Word ''always_nxdomain'']"
    by (simp del: sh_lex.simps add: lexing)
qed (simp del: sh_lex.simps add: lexing)

lemma fills_dns_tunneling_exfil: "fills_ok dns_tunneling_exfil_template"
proof (rule fills_okI)
  let ?gs = "[Lit (''iptables -A FORWARD -s ''),
      Hole ''src_ip'',
      Lit ('' -p udp --dport 53 -m length --length 150:65535 -j DROP'')]"
  show "t_firewall_rule dns_tunneling_exfil_template = segs_text ?gs"
    by (simp add: dns_tunneling_exfil_template_def segs_text_def)
  show "list_all seg_ok ?gs" by simp
  show "sh_words (segs_text ?gs) =
      Some [Word ''iptables'', Word ''-A'', Word ''FORWARD'', Word ''-s'', Word ''{src_ip}'', Word ''-p'', Word ''udp'', Word ''--dport'', Word ''53'', Word ''-m'', Word ''length'', Word ''--length'', Word ''150:65535'', Word ''-j'', Word ''DROP'']"
    by (simp del: sh_lex.simps add: lexing)
qed (simp del: sh_lex.simps add: lexing)

lemma fills_malicious_ja3_fingerprint: "fills_ok malicious_ja3_fingerprint_template"
proof (rule fills_okI)
  let ?gs = "[Lit (''iptables -I FORWARD -s ''),
      Hole ''src_ip'',
      Lit ('' -d ''),
      Hole ''dst_ip'',
      Lit ('' -j DROP'')]"
  show "t_firewall_rule malicious_ja3_fingerprint_template = segs_text ?gs"
    by (simp add: malicious_ja3_fingerprint_template_def segs_text_def)
  show "list_all seg_ok ?gs" by simp
  show "sh_words (segs_text ?gs) =
      Some [Word ''iptables'', Word ''-I'', Word ''FORWARD'', Word ''-s'', Word ''{src_ip}'', Word ''-d'', Word ''{dst_ip}'', Word ''-j'', Word ''DROP'']"
    by (simp del: sh_lex.simps add: lexing)
qed (simp del: sh_lex.simps add: lexing)

lemma fills_encrypted_malware_tls: "fills_ok encrypted_malware_tls_template"
proof (rule fills_okI)
  let ?gs = "[Lit (''iptables -I OUTPUT -d ''),
      Hole ''dst_ip'',
      Lit ('' -p tcp --dport ''),
      Hole ''dst_port'',
      Lit ('' -j DROP'')]"
  show "t_firewall_rule encrypted_malware_tls_template = segs_text ?gs"
    by (simp add: encrypted_malware_tls_template_def segs_text_def)
  show "list_all seg_ok ?gs" by simp
  show "sh_words (segs_text ?gs) =
      Some [Word ''iptables'', Word ''-I'', Word ''OUTPUT'', Word ''-d'', Word ''{dst_ip}'', Word ''-p'', Word ''tcp'', Word ''--dport'', Word ''{dst_port}'', Word ''-j'', Word ''DROP'']"
    by (simp del: sh_lex.simps add: lexing)
qed (simp del: sh_lex.simps add: lexing)

lemma fills_recon_port_scan: "fills_ok recon_port_scan_template"
proof (rule fills_okI)
  let ?gs = "[Lit (''iptables -I FORWARD -s ''),
      Hole ''src_ip'',
      Lit ('' -j DROP'')]"
  show "t_firewall_rule recon_port_scan_template = segs_text ?gs"
    by (simp add: recon_port_scan_template_def segs_text_def)
  show "list_all seg_ok ?gs" by simp
  show "sh_words (segs_text ?gs) =
      Some [Word ''iptables'', Word ''-I'', Word ''FORWARD'', Word ''-s'', Word ''{src_ip}'', Word ''-j'', Word ''DROP'']"
    by (simp del: sh_lex.simps add: lexing)
qed (simp del: sh_lex.simps add: lexing)

lemma fills_data_exfiltration: "fills_ok data_exfiltration_template"
proof (rule fills_okI)
  let ?gs = "[Lit (''iptables -I FORWARD -s ''),
      Hole ''src_ip'',
      Lit ('' -j REJECT --reject-with icmp-admin-prohibited'' @ [CHR 0x0A] @ ''iptables -I OUTPUT -d ''),
      Hole ''dst_ip'',
      Lit ('' -j DROP'')]"
  show "t_firewall_rule data_exfiltration_template = segs_text ?gs"
    by (simp add: data_exfiltration_template_def segs_text_def)
  show "list_all seg_ok ?gs" by simp
  show "sh_words (segs_text ?gs) =
      Some [Word ''iptables'', Word ''-I'', Word ''FORWARD'', Word ''-s'', Word ''{src_ip}'', Word ''-j'', Word ''REJECT'', Word ''--reject-with'', Word ''icmp-admin-prohibited'', Live (CHR 0x0A), Word ''iptables'', Word ''-I'', Word ''OUTPUT'', Word ''-d'', Word ''{dst_ip}'', Word ''-j'', Word ''DROP'']"
    by (simp del: sh_lex.simps add: lexing)
qed (simp del: sh_lex.simps add: lexing)

lemma fills_all: "t \<in> snd ` set PLAYBOOK_TEMPLATES \<Longrightarrow> fills_ok t"
  unfolding PLAYBOOK_TEMPLATES_def
  by (auto intro: fills_volumetric_protocol_ddos fills_botnet_c2_beaconing fills_dga_domain fills_dns_tunneling_exfil fills_malicious_ja3_fingerprint fills_encrypted_malware_tls fills_recon_port_scan fills_data_exfiltration)

lemma map_of_range: "dget_or d k v \<in> insert v (snd ` set d)"
  by (auto simp: dget_or_def split: option.split dest!: map_of_SomeD intro: rev_image_eqI)

lemma template_for_cases: "template_for rp v \<in> snd ` set PLAYBOOK_TEMPLATES"
proof -
  have "data_exfiltration_template \<in> snd ` set PLAYBOOK_TEMPLATES" by (simp add: PLAYBOOK_TEMPLATES_def)
  then show ?thesis
    unfolding template_for_def
    using map_of_range [of PLAYBOOK_TEMPLATES _ data_exfiltration_template] by (simp only: insert_absorb)
qed

lemma firewall_rule_quoted:
  assumes "playbook_fields rp alert = (a, b, c, d, e)"
  shows "firewall_rule rp alert =
    safe_format_string (t_firewall_rule (template_for rp (py_or (oget alert ''threat_class'') (PStr ''DATA_EXFILTRATION''))))
      (quote_all (the_fields a b c d e))"
  using assms by (simp add: firewall_rule_def quote_all_def the_fields_def)

section \<open>Properties\<close>

text \<open>\<open>shlex.quote\<close> is a faithful quoting: appended to any beginning of a command line, the quoted
  text is read back by the shell as exactly that text, joined to the word begun before it, with
  no live character.\<close>

theorem quote_is_read_back:
  "sh_lex Plain w (shlex_quote s @ t) = sh_lex Plain (grow_word w s) t \<and> sh_words (shlex_quote s) = Some [Word s]"
  using lex_quote [of w s t] lex_quote [of None s "[]"] by (simp add: sh_words_def flush_word_def grow_word_def)

text \<open>C11. No injection through the recommended rule: as long as none of the five values of the alert
  contains an opening brace, the filled rule reads as the template's own words with each hole
  replaced by the value, whatever characters the value has: no value adds a word, an operator or
  an expansion.\<close>

theorem firewall_rule_safe:
  assumes "playbook_fields rp alert = (a, b, c, d, e)"
    and "\<forall>v\<in>{a, b, c, d, e}. CHR ''{'' \<notin> set v"
  shows "\<exists>toks. sh_words (t_firewall_rule (template_for rp (py_or (oget alert ''threat_class'') (PStr ''DATA_EXFILTRATION''))))
      = Some toks \<and>
    sh_words (firewall_rule rp alert) = Some (map (fill_tok (the_fields a b c d e)) toks)"
  using fills_all [OF template_for_cases] assms(2)
  by (simp add: firewall_rule_quoted [OF assms(1)] fills_ok_def the_fields_def)

text \<open>The brace is a real hole: values are put in one after the other, so a value that spells the
  placeholder of a later one is itself filled, inside the quotes of the first. The domain and the
  fingerprint of one alert are enough to run a command.\<close>

definition injecting_alert :: obj where
  "injecting_alert =
     [(''threat_class'', PStr ''DGA''),
      (''evidence'', PDict [(''domain'', PStr ''{ja3_hash}''), (''ja3_hash'', PStr ''; reboot'')])]"

lemma firewall_rule_injection:
  "sh_words (firewall_rule rp injecting_alert) =
     Some [Word ''unbound-control'', Word ''local_zone'', Word [], Live (CHR '';''), Word ''reboot'', Word ''always_nxdomain'']"
  by code_simp

lemma rule_classes_mapped:
  "list_all (\<lambda>(rid, tc). case dget THREAT_CLASS_MAP (py_upper (py_strip tc)) of None \<Rightarrow> False
     | Some k \<Rightarrow> k \<in> set (dkeys PLAYBOOK_TEMPLATES)) RULE_CLASSES"
  by code_simp

theorem firewall_rule_safe_witness:
  "sh_words (firewall_rule (\<lambda>_. ''?'') [(''threat_class'', PStr ''reconnaissance''), (''source_ip'', PStr ''10.0.0.7; reboot'')]) =
     Some [Word ''iptables'', Word ''-I'', Word ''FORWARD'', Word ''-s'', Word ''10.0.0.7; reboot'', Word ''-j'', Word ''DROP'']"
proof -
  let ?alert = "[(''threat_class'', PStr ''reconnaissance''), (''source_ip'', PStr ''10.0.0.7; reboot'')]"
  have f: "playbook_fields (\<lambda>_. ''?'') ?alert = (''10.0.0.7; reboot'', ''198.51.100.1'', ''443'', ''malicious-c2.com'',
      ''a0e9f5d64349fb13191bc781f81f42e1'')" by code_simp
  have t: "sh_words (t_firewall_rule (template_for (\<lambda>_. ''?'') (py_or (oget ?alert ''threat_class'') (PStr ''DATA_EXFILTRATION'')))) =
      Some [Word ''iptables'', Word ''-I'', Word ''FORWARD'', Word ''-s'', Word ''{src_ip}'', Word ''-j'', Word ''DROP'']"
    by code_simp
  show ?thesis using firewall_rule_safe [OF f] t by (simp add: fill_tok_def the_fields_def)
qed

end
