(* ===== verification/Enrichment.thy ===== *)
theory Enrichment
  imports Playbooks
begin

text \<open>
  \<open>inference/enrichment.py\<close>: the bounded least-recently-used cache with expiry, the lookup that
  asks one fixed host about public IPv4 addresses only, and the enrichment of an alert. The
  HTTP client and \<open>json.loads\<close> are parameters; a lookup also returns the addresses it requested.
\<close>

section \<open>The cache\<close>

type_synonym cache = "(string, obj \<times> real) pydict"

definition CACHE_TTL :: real where
  "CACHE_TTL = 86400"

definition MAX_CACHE_SIZE :: nat where
  "MAX_CACHE_SIZE = 5000"

definition get_cached :: "real \<Rightarrow> string \<Rightarrow> cache \<Rightarrow> obj \<times> cache" where
  "get_cached now ip c =
     (case dget c ip of
        None \<Rightarrow> ([], c)
      | Some (data, until) \<Rightarrow>
          if now < until then (data, ddel ip c @ [(ip, (data, until))]) else ([], ddel ip c))"

definition set_cached :: "real \<Rightarrow> string \<Rightarrow> obj \<Rightarrow> cache \<Rightarrow> cache" where
  "set_cached now ip data c =
     (let c1 = (case dget c ip of None \<Rightarrow> c | Some v \<Rightarrow> ddel ip c @ [(ip, v)]);
          c2 = dset ip (data, now + CACHE_TTL) c1
      in drop (length c2 - MAX_CACHE_SIZE) c2)"

definition cache_ok :: "cache \<Rightarrow> bool" where
  "cache_ok c \<longleftrightarrow> distinct (dkeys c) \<and> length c \<le> MAX_CACHE_SIZE"

section \<open>Looking an address up\<close>

text \<open>A reply of the client: no usable response, or the size of its body and what the body
  decodes to.\<close>

datatype http_reply = HttpFailed | HttpBody nat "pyval result"

definition ssrf_allowed :: "ip_addr \<Rightarrow> bool" where
  "ssrf_allowed addr \<longleftrightarrow>
     \<not> (ip_version addr \<noteq> 4 \<or> \<not> is_global addr \<or> is_private addr \<or> is_loopback addr
        \<or> is_link_local addr \<or> is_multicast addr \<or> is_reserved addr \<or> is_unspecified addr
        \<or> in_net addr (net4 100 64 0 0 10) \<or> in_net addr (net4 169 254 0 0 16))"

definition intel_url :: "string \<Rightarrow> string" where
  "intel_url clean_ip = ''https://ipapi.co/'' @ clean_ip @ ''/json/''"

definition usable_reply :: "string \<Rightarrow> pyval result \<Rightarrow> obj option" where
  "usable_reply clean_ip r =
     (case r of
        Inr (PDict d) \<Rightarrow>
          if d \<noteq> [] \<and> \<not> truthy (oget d ''error'') \<and> oget d ''ip'' = PStr clean_ip then Some d else None
      | _ \<Rightarrow> None)"

definition text_of :: "pyval \<Rightarrow> string" where
  "text_of v = (case v of PStr s \<Rightarrow> s | _ \<Rightarrow> [])"

definition fallback_intel :: "(string \<Rightarrow> nat) \<Rightarrow> string \<Rightarrow> obj" where
  "fallback_intel md5 clean_ip =
     (let f = enrich_ip_intel md5 clean_ip in
      [(''city'', PStr ''Unknown''),
       (''country_name'', dget_or f ''country'' (PStr ''Unknown'')),
       (''org'', dget_or f ''asn'' (PStr ''Unknown'')),
       (''hosting'', PBool (sublist ''Bulletproof'' (text_of (dget_or f ''reputation'' (PStr [])))))])"

text \<open>\<open>now\<close> and \<open>later\<close> are the clock at the lookup and when the reply is stored.\<close>

definition fetch_with ::
  "(real \<Rightarrow> string \<Rightarrow> 'c \<Rightarrow> obj \<times> 'c) \<Rightarrow> (real \<Rightarrow> string \<Rightarrow> obj \<Rightarrow> 'c \<Rightarrow> 'c) \<Rightarrow>
   (string \<Rightarrow> nat) \<Rightarrow> (string \<Rightarrow> http_reply) \<Rightarrow> real \<Rightarrow> real \<Rightarrow> string \<Rightarrow> 'c \<Rightarrow> obj \<times> 'c \<times> string list" where
  "fetch_with lookup put md5 http now later ip c =
     (case lookup now ip c of (cached, c1) \<Rightarrow>
        if cached \<noteq> [] then (cached, c1, [])
        else
          (case ip_address (py_strip ip) of
             None \<Rightarrow> ([], c1, [])
           | Some addr \<Rightarrow>
               if \<not> ssrf_allowed addr then ([], c1, [])
               else
                 (let clean_ip = str_ip addr; url = intel_url clean_ip;
                      offline = fallback_intel md5 clean_ip in
                  case http url of
                    HttpBody len body \<Rightarrow>
                      if len > 65536 then ([], c1, [url])
                      else (case usable_reply clean_ip body of
                              Some d \<Rightarrow> (d, put later clean_ip d c1, [url])
                            | None \<Rightarrow> (offline, put later clean_ip offline c1, [url]))
                  | HttpFailed \<Rightarrow> (offline, put later clean_ip offline c1, [url]))))"

definition fetch_intel ::
  "(string \<Rightarrow> nat) \<Rightarrow> (string \<Rightarrow> http_reply) \<Rightarrow> real \<Rightarrow> real \<Rightarrow> string \<Rightarrow> cache \<Rightarrow> obj \<times> cache \<times> string list" where
  "fetch_intel = fetch_with get_cached set_cached"

section \<open>Enriching an alert\<close>

text \<open>The address to look up: the source when it is a public address, else the destination when
  there is one. A source that is no text has no \<open>strip\<close>.\<close>

definition ip_to_check :: "obj \<Rightarrow> pyval result" where
  "ip_to_check alert =
     (let src = dget_or alert ''source_ip'' (PStr []); dst = dget_or alert ''destination_ip'' (PStr []);
          other = (if truthy dst then dst else src) in
      case src of
        PStr s \<Rightarrow>
          (case ip_address (py_strip s) of
             None \<Rightarrow> Inr other
           | Some a \<Rightarrow> Inr (if is_private a \<or> is_loopback a then other else src))
      | _ \<Rightarrow> Inl AttributeError)"

definition evidence_of :: "(string \<Rightarrow> pyval result) \<Rightarrow> obj \<Rightarrow> pyval" where
  "evidence_of loads alert =
     (case dget_or alert ''evidence'' (PDict []) of
        PDict d \<Rightarrow> PDict d
      | PStr s \<Rightarrow>
          if length s > 65536 then PDict [(''warning'', PStr ''Evidence string exceeds 64KB maximum limit'')]
          else (case loads s of Inl _ \<Rightarrow> PDict [] | Inr v \<Rightarrow> v)
      | _ \<Rightarrow> PDict [])"

definition add_intel :: "py_repr \<Rightarrow> obj \<Rightarrow> obj \<Rightarrow> obj" where
  "add_intel rp intel evidence =
     (let city = py_or (oget intel ''city'') (PStr ''Unknown'');
          country = py_or (py_or (oget intel ''country_name'') (oget intel ''countryCode'')) (PStr ''Unknown'');
          isp = py_or (py_or (oget intel ''org'') (oget intel ''isp'')) (PStr ''Unknown'');
          e1 = dset ''Live GeoIP'' (PStr (py_str rp city @ '', '' @ py_str rp country)) evidence;
          e2 = dset ''Live ISP'' isp e1
      in if truthy (oget intel ''hosting'')
         then dset ''Threat Intel'' (PStr ''WARNING: Data Center / Bulletproof Hosting Detected'') e2 else e2)"

text \<open>An address that is no text cannot be stripped; one that no dictionary can hold cannot be
  looked up; evidence that is no dictionary takes no items.\<close>

definition enrich ::
  "(string \<Rightarrow> nat) \<Rightarrow> (string \<Rightarrow> http_reply) \<Rightarrow> (string \<Rightarrow> pyval result) \<Rightarrow> py_repr \<Rightarrow> real \<Rightarrow> real \<Rightarrow>
   obj \<Rightarrow> cache \<Rightarrow> obj result \<times> cache \<times> string list" where
  "enrich md5 http loads rp now later alert c =
     (case ip_to_check alert of
        Inl e \<Rightarrow> (Inl e, c, [])
      | Inr (PStr ip) \<Rightarrow>
          (case fetch_intel md5 http now later ip c of (intel, c1, urls) \<Rightarrow>
             (let ev = evidence_of loads alert in
              if intel \<noteq> [] \<and> \<not> truthy (oget intel ''error'')
              then (case ev of
                      PDict d \<Rightarrow> (Inr (dset ''evidence'' (PDict (add_intel rp intel d)) alert), c1, urls)
                    | _ \<Rightarrow> (Inl TypeError, c1, urls))
              else (Inr (dset ''evidence'' ev alert), c1, urls)))
      | Inr v \<Rightarrow> (Inl (if hashable v then AttributeError else TypeError), c, []))"

lemma py_strip_v4 [simp]: "py_strip (str_v4 w) = str_v4 w"
  by (rule py_strip_no_space) (auto dest!: str_v4_chars simp: is_space_def is_decimal_def)

section \<open>Requests go to public addresses only\<close>

lemma ssrf_allowed_V4: "ssrf_allowed a \<Longrightarrow> \<exists>w. a = V4 w"
  by (cases a) (auto simp: ssrf_allowed_def)

lemma special_exceptions:
  assumes "octets_of w = [a, b, c, d]" "in_any private4_exceptions (V4 w)"
  shows "\<not> in_any [net4 0 0 0 0 8, net4 10 0 0 0 8, net4 172 16 0 0 12, net4 192 168 0 0 16] (V4 w)"
proof -
  have o: "a < 256" "b < 256" "c < 256" "d < 256"
    using octets_bound [of _ w] assms(1) by auto
  have w: "w = dotted a b c d" using dotted_octets [OF assms(1)] by simp
  show ?thesis
    using exceptions_octets [OF assms] in_net4_octets [OF o] by (auto simp: w in_any_def simp del: in_net.simps)
qed

lemma ssrf_allowed_public:
  assumes "ssrf_allowed (V4 w)" "octets_of w = [a, b, c, d]"
  shows "public_octets a b c d"
proof (rule public_octetsI [OF assms(2)])
  have "\<not> is_private4 w" using assms(1) by (simp add: ssrf_allowed_def)
  moreover have "in_any private4_exceptions (V4 w) \<Longrightarrow>
    \<not> in_any [net4 0 0 0 0 8, net4 10 0 0 0 8, net4 172 16 0 0 12, net4 192 168 0 0 16] (V4 w)"
    using special_exceptions [OF assms(2)] by blast
  ultimately show "\<not> in_any [net4 0 0 0 0 8, net4 10 0 0 0 8, net4 172 16 0 0 12, net4 192 168 0 0 16] (V4 w)"
    by (auto simp: is_private4_def in_any_def private4_def)
qed (use assms(1) in \<open>simp_all add: ssrf_allowed_def\<close>)

lemma fetch_urls:
  assumes "fetch_with lookup put md5 http now later ip c = (data, c', urls)" "url \<in> set urls"
  obtains w where "ip_address (py_strip ip) = Some (V4 w)" "ssrf_allowed (V4 w)" "urls = [intel_url (str_v4 w)]"
proof -
  obtain addr where "ip_address (py_strip ip) = Some addr" "ssrf_allowed addr" "urls = [intel_url (str_ip addr)]"
    using assms by (auto simp: fetch_with_def Let_def case_prod_beta split: if_splits option.splits http_reply.splits)
  with ssrf_allowed_V4 [of addr] that show ?thesis by auto
qed

section \<open>The cache contract\<close>

text \<open>What a client of the cache relies on.\<close>

locale intel_cache =
  fixes lookup :: "real \<Rightarrow> string \<Rightarrow> 'c \<Rightarrow> obj \<times> 'c"
    and put :: "real \<Rightarrow> string \<Rightarrow> obj \<Rightarrow> 'c \<Rightarrow> 'c"
    and ok :: "'c \<Rightarrow> bool"
    and ttl :: real
  assumes lookup_ok: "ok c \<Longrightarrow> ok (snd (lookup t k c))"
    and put_ok: "ok c \<Longrightarrow> ok (put t k d c)"
    and lookup_put: "ok c \<Longrightarrow> t' < t + ttl \<Longrightarrow> fst (lookup t' k (put t k d c)) = d"
    and lookup_expired: "ok c \<Longrightarrow> t + ttl \<le> t' \<Longrightarrow> fst (lookup t' k (put t k d c)) = []"
begin

lemma fetch_ok:
  "ok c \<Longrightarrow> fetch_with lookup put md5 http now later ip c = (data, c', urls) \<Longrightarrow> ok c'"
  by (auto simp: fetch_with_def Let_def case_prod_beta lookup_ok put_ok
      split: if_splits option.splits http_reply.splits)

lemma fallback_ne: "fallback_intel md5 ip \<noteq> []"
  by (simp add: fallback_intel_def Let_def)

lemma fetch_stores:
  assumes "ok c" "fetch_with lookup put md5 http now later (str_v4 w) c = (data, c', [url])" "data \<noteq> []"
  shows "\<exists>c1. ok c1 \<and> c' = put later (str_v4 w) data c1"
  using assms
  by (auto simp: fetch_with_def Let_def case_prod_beta lookup_ok py_strip_v4
      split: if_splits option.splits http_reply.splits intro!: exI [of _ "snd (lookup now (str_v4 w) c)"])

lemma second_fetch:
  assumes "ok c" "fetch_with lookup put md5 http now later (str_v4 w) c = (data, c', [url])" "data \<noteq> []"
    and "now' < later + ttl"
  shows "\<exists>c''. fetch_with lookup put md5 http' now' later' (str_v4 w) c' = (data, c'', [])"
proof -
  obtain c1 where c1: "ok c1" "c' = put later (str_v4 w) data c1"
    using fetch_stores [OF assms(1-3)] by blast
  have "fst (lookup now' (str_v4 w) c') = data" unfolding c1(2) by (rule lookup_put [OF c1(1) assms(4)])
  with assms(3) show ?thesis by (auto simp: fetch_with_def case_prod_beta)
qed

end

section \<open>The cache keeps the contract\<close>

lemma dset_moved:
  "dset k v (case dget c k of None \<Rightarrow> c | Some w \<Rightarrow> ddel k c @ [(k, w)]) = ddel k c @ [(k, v)]"
proof (cases "dget c k")
  case None
  then have n: "k \<notin> set (dkeys c)" by (simp only: dget_None_iff not_False_eq_True)
  show ?thesis by (simp only: None option.case ddel_notin [OF n] dset_new [OF n])
next
  case (Some w)
  have "dset k v (p @ [(k, w)]) = p @ [(k, v)]" if "k \<notin> set (dkeys p)" for p
    using that by (induction p) auto
  then show ?thesis using Some by simp
qed

lemma set_cached_eq:
  "set_cached now ip data c =
     (let c2 = ddel ip c @ [(ip, (data, now + CACHE_TTL))] in drop (length c2 - MAX_CACHE_SIZE) c2)"
  by (simp add: set_cached_def Let_def dset_moved)

lemma keys_drop: "set (dkeys (drop n c)) \<subseteq> set (dkeys c)"
  by (simp only: drop_map [symmetric] set_drop_subset)

lemma distinct_moved: "distinct (dkeys c) \<Longrightarrow> distinct (dkeys (ddel k c @ [(k, v)]))"
  using set_dkeys_ddel [of k c] by (simp del: set_map)

lemma set_cached_ok: "cache_ok c \<Longrightarrow> cache_ok (set_cached now ip data c)"
  using distinct_moved [of c ip "(data, now + CACHE_TTL)"]
  unfolding cache_ok_def set_cached_eq Let_def drop_map [symmetric]
  by (intro conjI distinct_drop) (simp_all add: MAX_CACHE_SIZE_def)

lemma get_cached_ok: "cache_ok c \<Longrightarrow> cache_ok (snd (get_cached now ip c))"
proof (cases "dget c ip")
  case (Some v)
  assume ok: "cache_ok c"
  obtain data until where v: "v = (data, until)" by (cases v)
  have "length (ddel ip c) < length c" using Some by (intro length_ddel_less dget_dkeysI)
  then show ?thesis using ok Some v distinct_moved [of c ip v]
    by (auto simp: cache_ok_def get_cached_def)
qed (simp add: get_cached_def)

lemma map_of_append_last: "k \<notin> set (dkeys p) \<Longrightarrow> dget (p @ [(k, v)]) k = Some v"
  by (induction p) auto

lemma drop_ddel_keys: "k \<notin> set (dkeys (drop n (ddel k c)))"
  using keys_drop [of n "ddel k c"] set_dkeys_ddel [of k c] by blast

lemma get_set_cached:
  "fst (get_cached t' k (set_cached t k d c)) = (if t' < t + CACHE_TTL then d else [])"
proof -
  let ?c2 = "ddel k c @ [(k, (d, t + CACHE_TTL))]"
  have n: "length ?c2 - MAX_CACHE_SIZE \<le> length (ddel k c)" by (simp add: MAX_CACHE_SIZE_def)
  have "drop (length ?c2 - MAX_CACHE_SIZE) ?c2 =
      drop (length ?c2 - MAX_CACHE_SIZE) (ddel k c) @ [(k, (d, t + CACHE_TTL))]"
    using n by simp
  then have "dget (drop (length ?c2 - MAX_CACHE_SIZE) ?c2) k = Some (d, t + CACHE_TTL)"
    using map_of_append_last [OF drop_ddel_keys] by (simp only:)
  then show ?thesis by (simp only: get_cached_def set_cached_eq Let_def) (simp del: length_append)
qed

interpretation lru: intel_cache get_cached set_cached cache_ok CACHE_TTL
  by unfold_locales (simp_all add: get_cached_ok set_cached_ok get_set_cached)

section \<open>The enricher over a stream of alerts\<close>

record enrich_call =
  n_http :: "string \<Rightarrow> http_reply"
  n_now :: real
  n_later :: real
  n_alert :: obj

definition enrich_step ::
  "(string \<Rightarrow> nat) \<Rightarrow> (string \<Rightarrow> pyval result) \<Rightarrow> py_repr \<Rightarrow> cache \<Rightarrow> enrich_call \<Rightarrow> cache" where
  "enrich_step md5 loads rp c n =
     fst (snd (enrich md5 (n_http n) loads rp (n_now n) (n_later n) (n_alert n) c))"

lemma enrich_cases:
  "fst (snd (enrich md5 http loads rp now later alert c)) = c \<and>
     snd (snd (enrich md5 http loads rp now later alert c)) = [] \<or>
   (\<exists>ip. snd (enrich md5 http loads rp now later alert c) = snd (fetch_intel md5 http now later ip c))"
  by (auto simp: enrich_def Let_def case_prod_beta split: sum.split pyval.split)

lemma enrich_step_ok: "cache_ok c \<Longrightarrow> cache_ok (enrich_step md5 loads rp c n)"
  using enrich_cases [of md5 "n_http n" loads rp "n_now n" "n_later n" "n_alert n" c]
    lru.fetch_ok [of c md5 "n_http n" "n_now n" "n_later n"]
  unfolding enrich_step_def fetch_intel_def by (metis prod.collapse)

interpretation enricher: machine "enrich_step md5 loads rp" cache_ok
  by unfold_locales (rule enrich_step_ok)

lemma enrich_alert_cases:
  "enrich md5 http loads rp now later alert c = (Inr alert', c', urls) \<Longrightarrow>
   \<exists>ev. alert' = dset ''evidence'' ev alert"
  by (auto simp: enrich_def Let_def case_prod_beta split: sum.splits pyval.splits if_splits)

section \<open>Properties\<close>

text \<open>C13. No server-side request forgery: whatever an alert contains and whatever the cache holds,
  enrichment makes at most one request, to the one intelligence host, and the address it puts in
  the path is the canonical text of an IPv4 address outside every private, shared, loopback,
  link-local, multicast and reserved block and the networks set aside for protocols, documentation and
  benchmarks.\<close>

theorem enrichment_requests_public_only:
  assumes "enrich md5 http loads rp now later alert c = (r, c', urls)" and "url \<in> set urls"
  shows "\<exists>w x y z u. urls = [url] \<and> url = intel_url (str_v4 w) \<and> octets_of w = [x, y, z, u] \<and>
    public_octets x y z u"
proof -
  obtain ip where "snd (fetch_intel md5 http now later ip c) = (c', urls)"
    using assms enrich_cases [of md5 http loads rp now later alert c] by auto
  then obtain data where "fetch_with get_cached set_cached md5 http now later ip c = (data, c', urls)"
    unfolding fetch_intel_def by (metis prod.collapse)
  from fetch_urls [OF this assms(2)] obtain w where w: "ssrf_allowed (V4 w)" "urls = [intel_url (str_v4 w)]" .
  obtain x y z u where o: "octets_of w = [x, y, z, u]" by (rule octets_cases)
  from w(2) assms(2) have "urls = [url]" "url = intel_url (str_v4 w)" by auto
  with ssrf_allowed_public [OF w(1) o] o show ?thesis by blast
qed

lemma public_8: "ssrf_allowed (V4 (dotted 8 8 8 8))"
proof -
  have "dotted 8 8 8 8 \<noteq> 0" using unat_dotted [of 8 8 8 8] by (auto simp: from_bytes_def)
  then show ?thesis
    by (simp add: ssrf_allowed_def is_private4_def in_any_def private4_def private4_exceptions_def
        in_net4_dotted del: in_net.simps)
qed

text \<open>A public address, a host that does not answer: one request, then the offline data.\<close>

lemma fetch_8:
  "fetch_intel md5 (\<lambda>_. HttpFailed) 0 1 (str_v4 (dotted 8 8 8 8)) [] =
     (fallback_intel md5 (str_v4 (dotted 8 8 8 8)),
      set_cached 1 (str_v4 (dotted 8 8 8 8)) (fallback_intel md5 (str_v4 (dotted 8 8 8 8))) [],
      [intel_url (str_v4 (dotted 8 8 8 8))])"
  using public_8 by (simp add: fetch_intel_def fetch_with_def get_cached_def Let_def)

lemma enrich_8:
  "\<exists>r c'. enrich md5 (\<lambda>_. HttpFailed) loads rp 0 1 [(''source_ip'', PStr (str_v4 (dotted 8 8 8 8)))] [] =
     (Inr r, c', [intel_url (str_v4 (dotted 8 8 8 8))])"
proof -
  have "ssrf_allowed (V4 (dotted 8 8 8 8))" by (rule public_8)
  then have "ip_to_check [(''source_ip'', PStr (str_v4 (dotted 8 8 8 8)))] = Inr (PStr (str_v4 (dotted 8 8 8 8)))"
    by (simp add: ip_to_check_def ssrf_allowed_def Let_def)
  then show ?thesis using fetch_8 [of md5] by (simp add: enrich_def evidence_of_def Let_def)
qed

theorem enrichment_requests_public_only_witness:
  "\<exists>x y z u. octets_of (dotted 8 8 8 8) = [x, y, z, u] \<and> public_octets x y z u"
proof -
  obtain r c' where e: "enrich (\<lambda>_. 0) (\<lambda>_. HttpFailed) (\<lambda>_. Inl ValueError) (\<lambda>_. []) 0 1
      [(''source_ip'', PStr (str_v4 (dotted 8 8 8 8)))] [] = (Inr r, c', [intel_url (str_v4 (dotted 8 8 8 8))])"
    using enrich_8 by blast
  obtain w x y z u where w: "intel_url (str_v4 (dotted 8 8 8 8)) = intel_url (str_v4 w)" "octets_of w = [x, y, z, u]"
    "public_octets x y z u"
    using enrichment_requests_public_only [OF e, of "intel_url (str_v4 (dotted 8 8 8 8))"] by auto
  then have "w = dotted 8 8 8 8" using parse_str_v4 by (metis intel_url_def option.inject same_append_eq append_same_eq)
  with w show ?thesis by blast
qed

text \<open>The cache of the enricher stays a cache: after any sequence of alerts, clocks and replies it
  holds at most 5000 addresses, none twice.\<close>

theorem enricher_cache_bounded:
  "let c = foldl (enrich_step md5 loads rp) [] calls in length c \<le> 5000 \<and> distinct (dkeys c)"
  using enricher.run_inv [of "[]" md5 loads rp calls] by (simp add: cache_ok_def MAX_CACHE_SIZE_def Let_def)

text \<open>Within its day of life an answer is not asked for again: after a lookup of an address that
  made a request and returned data, the next lookup of the same address before the entry expires
  returns the same data and makes no request, whatever the host would answer by then.\<close>

theorem intel_served_from_cache:
  assumes "cache_ok c" and "fetch_intel md5 http now later (str_v4 w) c = (data, c', [url])"
    and "data \<noteq> []" and "now' < later + 86400"
  shows "\<exists>c''. fetch_intel md5 http' now' later' (str_v4 w) c' = (data, c'', [])"
  using lru.second_fetch [of c md5 http now later w data c' url now' http' later'] assms
  by (simp add: fetch_intel_def CACHE_TTL_def)

theorem intel_served_from_cache_witness:
  "\<exists>c''. fetch_intel (\<lambda>_. 0) (\<lambda>_. HttpBody 2 (Inr (PDict []))) 50 51 (str_v4 (dotted 8 8 8 8))
      (fst (snd (fetch_intel (\<lambda>_. 0) (\<lambda>_. HttpFailed) 0 1 (str_v4 (dotted 8 8 8 8)) []))) =
    (fallback_intel (\<lambda>_. 0) (str_v4 (dotted 8 8 8 8)), c'', [])"
  using intel_served_from_cache [OF _ fetch_8 [of "\<lambda>_. 0"], where now' = 50 and http' = "\<lambda>_. HttpBody 2 (Inr (PDict []))"
      and later' = 51] lru.fallback_ne
  by (simp add: fetch_8 cache_ok_def)

text \<open>Enrichment adds to the evidence of an alert and changes nothing else, so every field the
  correlator and the schema read is the one the detection wrote.\<close>

theorem enrichment_only_evidence:
  assumes "enrich md5 http loads rp now later alert c = (Inr alert', c', urls)" and "k \<noteq> ''evidence''"
  shows "dget alert' k = dget alert k"
  using enrich_alert_cases [OF assms(1)] assms(2) by auto

theorem enrichment_only_evidence_witness:
  "\<exists>alert'. dget alert' ''source_ip'' = Some (PStr (str_v4 (dotted 8 8 8 8)))"
proof -
  obtain r c' where e: "enrich (\<lambda>_. 0) (\<lambda>_. HttpFailed) (\<lambda>_. Inl ValueError) (\<lambda>_. []) 0 1
      [(''source_ip'', PStr (str_v4 (dotted 8 8 8 8)))] [] = (Inr r, c', [intel_url (str_v4 (dotted 8 8 8 8))])"
    using enrich_8 by blast
  show ?thesis using enrichment_only_evidence [OF e, of "''source_ip''"] by auto
qed

end
