(* ===== verification/Redis.thy ===== *)
theory Redis
  imports PyValue "HOL-Library.List_Lexorder" "HOL-Library.Char_ord"
begin

text \<open>
  The Redis service the correlator's Lua scripts talk to. It is not part of the repository:
  the scripts take the commands as a parameter, a record of operations on an unknown state,
  and the locale \<open>redis\<close> states what the scripts rely on, as the documented effect of each
  command on an observable view of that state (lists, sorted sets, counters, expiries).
  \<open>mem_redis\<close> is a concrete service that meets the contract. The expiries are bookkeeping: time does not
  pass between commands, so no key goes away by itself; statements about more than one call are about calls
  within one window.
\<close>

record rdb =
  rlists :: "string \<Rightarrow> obj list"
  rzsets :: "string \<Rightarrow> (int \<times> string) list"
  rnums :: "string \<Rightarrow> int option"
  rttl :: "string \<Rightarrow> int option"

definition rexists :: "rdb \<Rightarrow> string \<Rightarrow> bool" where
  "rexists d k \<longleftrightarrow> rlists d k \<noteq> [] \<or> rzsets d k \<noteq> [] \<or> rnums d k \<noteq> None"

text \<open>A key that no longer holds a value loses its expiry, as DEL does.\<close>

definition reap :: "string \<Rightarrow> rdb \<Rightarrow> rdb" where
  "reap k d = (if rexists d k then d else d\<lparr>rttl := (rttl d)(k := None)\<rparr>)"

text \<open>Sorted sets: ascending by score, then by member.\<close>

definition zbefore :: "int \<times> string \<Rightarrow> int \<times> string \<Rightarrow> bool" where
  "zbefore p q \<longleftrightarrow> fst p < fst q \<or> (fst p = fst q \<and> snd p < snd q)"

fun zins :: "int \<times> string \<Rightarrow> (int \<times> string) list \<Rightarrow> (int \<times> string) list" where
  "zins p [] = [p]"
| "zins p (q # qs) = (if zbefore p q then p # q # qs else q # zins p qs)"

definition zrem_list :: "string \<Rightarrow> (int \<times> string) list \<Rightarrow> (int \<times> string) list" where
  "zrem_list m = filter (\<lambda>p. snd p \<noteq> m)"

definition zscore_list :: "string \<Rightarrow> (int \<times> string) list \<Rightarrow> int option" where
  "zscore_list m z = map_of (map (\<lambda>p. (snd p, fst p)) z) m"

text \<open>The commands the scripts call, on a state of type \<open>'s\<close>. A command that answers returns
  its answer; one that changes the store returns the new state.\<close>

record 's redis_ops =
  r_zscore :: "string \<Rightarrow> string \<Rightarrow> 's \<Rightarrow> int option"
  r_zcard :: "string \<Rightarrow> 's \<Rightarrow> nat"
  r_zadd :: "string \<Rightarrow> int \<Rightarrow> string \<Rightarrow> 's \<Rightarrow> 's"
  r_zrem_lowest :: "string \<Rightarrow> 's \<Rightarrow> 's"
  r_zrem :: "string \<Rightarrow> string \<Rightarrow> 's \<Rightarrow> 's"
  r_ttl :: "string \<Rightarrow> 's \<Rightarrow> int"
  r_expire :: "string \<Rightarrow> int \<Rightarrow> 's \<Rightarrow> 's"
  r_lpush :: "string \<Rightarrow> obj \<Rightarrow> 's \<Rightarrow> 's"
  r_ltrim :: "string \<Rightarrow> nat \<Rightarrow> 's \<Rightarrow> 's"
  r_lrange :: "string \<Rightarrow> 's \<Rightarrow> obj list"
  r_lrem1 :: "string \<Rightarrow> obj \<Rightarrow> 's \<Rightarrow> nat \<times> 's"
  r_incr :: "string \<Rightarrow> 's \<Rightarrow> int \<times> 's"
  r_decr :: "string \<Rightarrow> 's \<Rightarrow> 's"
  r_get :: "string \<Rightarrow> 's \<Rightarrow> int option"
  r_set_ex :: "string \<Rightarrow> int \<Rightarrow> int \<Rightarrow> 's \<Rightarrow> 's"
  r_del :: "string \<Rightarrow> 's \<Rightarrow> 's"

locale redis =
  fixes R :: "'s redis_ops"
    and view :: "'s \<Rightarrow> rdb"
  assumes zscore: "r_zscore R k m s = zscore_list m (rzsets (view s) k)"
    and zcard: "r_zcard R k s = length (rzsets (view s) k)"
    and zadd: "view (r_zadd R k n m s) =
      (view s)\<lparr>rzsets := (rzsets (view s))(k := zins (n, m) (zrem_list m (rzsets (view s) k)))\<rparr>"
    and zrem_lowest: "view (r_zrem_lowest R k s) =
      reap k ((view s)\<lparr>rzsets := (rzsets (view s))(k := drop 1 (rzsets (view s) k))\<rparr>)"
    and zrem: "view (r_zrem R k m s) =
      reap k ((view s)\<lparr>rzsets := (rzsets (view s))(k := zrem_list m (rzsets (view s) k))\<rparr>)"
    and ttl: "r_ttl R k s =
      (if \<not> rexists (view s) k then - 2 else case rttl (view s) k of None \<Rightarrow> - 1 | Some t \<Rightarrow> t)"
    and expire: "view (r_expire R k t s) =
      (if rexists (view s) k then (view s)\<lparr>rttl := (rttl (view s))(k \<mapsto> t)\<rparr> else view s)"
    and lpush: "view (r_lpush R k x s) =
      (view s)\<lparr>rlists := (rlists (view s))(k := x # rlists (view s) k)\<rparr>"
    and ltrim: "view (r_ltrim R k n s) =
      reap k ((view s)\<lparr>rlists := (rlists (view s))(k := take n (rlists (view s) k))\<rparr>)"
    and lrange: "r_lrange R k s = rlists (view s) k"
    and lrem1: "r_lrem1 R k x s = (n, s') \<Longrightarrow>
      n = (if x \<in> set (rlists (view s) k) then 1 else 0) \<and>
      view s' = reap k ((view s)\<lparr>rlists := (rlists (view s))(k := remove1 x (rlists (view s) k))\<rparr>)"
    and incr: "r_incr R k s = (i, s') \<Longrightarrow>
      i = (case rnums (view s) k of None \<Rightarrow> 1 | Some n \<Rightarrow> n + 1) \<and>
      view s' = (view s)\<lparr>rnums := (rnums (view s))(k \<mapsto> i)\<rparr>"
    and decr: "view (r_decr R k s) =
      (view s)\<lparr>rnums := (rnums (view s))(k \<mapsto> (case rnums (view s) k of None \<Rightarrow> - 1 | Some n \<Rightarrow> n - 1))\<rparr>"
    and get: "r_get R k s = rnums (view s) k"
    and set_ex: "view (r_set_ex R k v t s) =
      (view s)\<lparr>rnums := (rnums (view s))(k \<mapsto> v), rttl := (rttl (view s))(k \<mapsto> t)\<rparr>"
    and del: "view (r_del R k s) =
      (view s)\<lparr>rlists := (rlists (view s))(k := []), rzsets := (rzsets (view s))(k := []),
               rnums := (rnums (view s))(k := None), rttl := (rttl (view s))(k := None)\<rparr>"

text \<open>The service on the observable state itself.\<close>

definition mem_redis :: "rdb redis_ops" where
  "mem_redis =
     \<lparr> r_zscore = (\<lambda>k m d. zscore_list m (rzsets d k)),
       r_zcard = (\<lambda>k d. length (rzsets d k)),
       r_zadd = (\<lambda>k n m d. d\<lparr>rzsets := (rzsets d)(k := zins (n, m) (zrem_list m (rzsets d k)))\<rparr>),
       r_zrem_lowest = (\<lambda>k d. reap k (d\<lparr>rzsets := (rzsets d)(k := drop 1 (rzsets d k))\<rparr>)),
       r_zrem = (\<lambda>k m d. reap k (d\<lparr>rzsets := (rzsets d)(k := zrem_list m (rzsets d k))\<rparr>)),
       r_ttl = (\<lambda>k d. if \<not> rexists d k then - 2 else case rttl d k of None \<Rightarrow> - 1 | Some t \<Rightarrow> t),
       r_expire = (\<lambda>k t d. if rexists d k then d\<lparr>rttl := (rttl d)(k \<mapsto> t)\<rparr> else d),
       r_lpush = (\<lambda>k x d. d\<lparr>rlists := (rlists d)(k := x # rlists d k)\<rparr>),
       r_ltrim = (\<lambda>k n d. reap k (d\<lparr>rlists := (rlists d)(k := take n (rlists d k))\<rparr>)),
       r_lrange = (\<lambda>k d. rlists d k),
       r_lrem1 = (\<lambda>k x d. (if x \<in> set (rlists d k) then 1 else 0,
                    reap k (d\<lparr>rlists := (rlists d)(k := remove1 x (rlists d k))\<rparr>))),
       r_incr = (\<lambda>k d. let i = (case rnums d k of None \<Rightarrow> 1 | Some n \<Rightarrow> n + 1)
                       in (i, d\<lparr>rnums := (rnums d)(k \<mapsto> i)\<rparr>)),
       r_decr = (\<lambda>k d. d\<lparr>rnums := (rnums d)(k \<mapsto> (case rnums d k of None \<Rightarrow> - 1 | Some n \<Rightarrow> n - 1))\<rparr>),
       r_get = (\<lambda>k d. rnums d k),
       r_set_ex = (\<lambda>k v t d. d\<lparr>rnums := (rnums d)(k \<mapsto> v), rttl := (rttl d)(k \<mapsto> t)\<rparr>),
       r_del = (\<lambda>k d. d\<lparr>rlists := (rlists d)(k := []), rzsets := (rzsets d)(k := []),
                        rnums := (rnums d)(k := None), rttl := (rttl d)(k := None)\<rparr>) \<rparr>"

interpretation mem: redis mem_redis "\<lambda>d. d"
  by unfold_locales (auto simp: mem_redis_def Let_def)

definition empty_rdb :: rdb where
  "empty_rdb = \<lparr>rlists = (\<lambda>_. []), rzsets = (\<lambda>_. []), rnums = (\<lambda>_. None), rttl = (\<lambda>_. None)\<rparr>"

section \<open>Sorted sets\<close>

lemma set_zins [simp]: "set (zins p z) = insert p (set z)"
  by (induction z) auto

lemma length_zins [simp]: "length (zins p z) = Suc (length z)"
  by (induction z) auto

lemma zins_ne [simp]: "zins p z \<noteq> []"
  by (cases z) auto

lemma length_zrem_list: "length (zrem_list m z) \<le> length z"
  by (simp add: zrem_list_def)

lemma zrem_list_absent: "m \<notin> snd ` set z \<Longrightarrow> zrem_list m z = z"
  by (auto simp: zrem_list_def filter_id_conv)

lemma zscore_None_iff: "zscore_list m z = None \<longleftrightarrow> m \<notin> snd ` set z"
  by (force simp: zscore_list_def map_of_eq_None_iff)

lemma zrem_zins: "m \<notin> snd ` set z \<Longrightarrow> zrem_list m (zins (n, m) z) = z"
  by (induction z) (auto simp: zrem_list_def filter_id_conv)

lemma zscore_zins: "zscore_list m (zins (n, m) (zrem_list m z)) \<noteq> None"
  by (simp add: zscore_None_iff)

definition zsorted :: "(int \<times> string) list \<Rightarrow> bool" where
  "zsorted z \<longleftrightarrow> sorted_wrt zbefore z"

lemma zbefore_trans: "zbefore p q \<Longrightarrow> zbefore q r \<Longrightarrow> zbefore p r"
  by (auto simp: zbefore_def)

lemma zbefore_total: "\<not> zbefore p q \<Longrightarrow> p \<noteq> q \<Longrightarrow> zbefore q p"
  by (auto simp: zbefore_def prod_eq_iff)

lemma zsorted_zins: "zsorted z \<Longrightarrow> p \<notin> set z \<Longrightarrow> zsorted (zins p z)"
proof (induction z)
  case (Cons q qs)
  then have qs: "zsorted qs" "\<forall>r\<in>set qs. zbefore q r" "p \<noteq> q" "p \<notin> set qs"
    by (auto simp: zsorted_def)
  show ?case
  proof (cases "zbefore p q")
    case True
    with qs show ?thesis using zbefore_trans by (auto simp: zsorted_def)
  next
    case False
    then have "zbefore q p" using qs(3) by (rule zbefore_total)
    with False qs Cons.IH show ?thesis by (auto simp: zsorted_def)
  qed
qed (simp add: zsorted_def)

lemma zsorted_zrem: "zsorted z \<Longrightarrow> zsorted (zrem_list m z)"
  by (simp add: zsorted_def zrem_list_def sorted_wrt_filter)

text \<open>The lowest element of a non-empty sorted set goes first; a new element that does not come
  before it stays.\<close>

lemma zins_hd_stays:
  "z \<noteq> [] \<Longrightarrow> \<not> zbefore p (hd z) \<Longrightarrow> drop 1 (zins p z) = zins p (tl z)"
  by (cases z) auto

lemma zins_first: "(\<forall>q\<in>set z. zbefore p q) \<Longrightarrow> zins p z = p # z"
  by (cases z) auto

section \<open>Expiry bookkeeping\<close>

lemma reap_simps [simp]:
  "rlists (reap k d) = rlists d" "rzsets (reap k d) = rzsets d" "rnums (reap k d) = rnums d"
  by (simp_all add: reap_def)

lemma rttl_reap: "rttl (reap k d) j = (if j = k \<and> \<not> rexists d k then None else rttl d j)"
  by (simp add: reap_def)

lemma rexists_reap [simp]: "rexists (reap k d) j = rexists d j"
  by (simp add: rexists_def)

lemma rexists_ttl_update [simp]: "rexists (d\<lparr>rttl := t\<rparr>) j = rexists d j"
  by (simp add: rexists_def)

end
