(* ===== verification/Risk.thy ===== *)
theory Risk
  imports PyValue "HOL-Library.Multiset"
begin

text \<open>
  \<open>inference/risk.py\<close>: the aggregated risk score of a list of alerts, and the severity scale
  it rests on. The scale is also given as an ordered datatype, the abstract reading of the
  four severity strings.
\<close>

definition severity_weights :: "(string, real) pydict" where
  "severity_weights = [(''critical'', 100), (''high'', 75), (''medium'', 50), (''low'', 25)]"

text \<open>\<open>severity_weights.get(a.get("severity", "low").lower(), 10.0)\<close>: a severity that is no string
  has no \<open>lower\<close>.\<close>

definition alert_weight :: "obj \<Rightarrow> real result" where
  "alert_weight a =
     (case dget_or a ''severity'' (PStr ''low'') of
        PStr s \<Rightarrow> Inr (dget_or severity_weights (py_lower s) 10)
      | _ \<Rightarrow> Inl AttributeError)"

definition calculate_risk_score :: "obj list \<Rightarrow> real result" where
  "calculate_risk_score alerts =
     (if alerts = [] then Inr 0
      else bind_result (map_result alert_weight alerts) (\<lambda>ws.
        let base_score = Max (set ws);
            volume_penalty = real (length alerts - 1) * 5;
            total_risk = base_score + volume_penalty
        in Inr (min total_risk 100)))"

section \<open>The severity scale as an ordered type\<close>

datatype severity = Low | Medium | High | Critical

fun sev_rank :: "severity \<Rightarrow> nat" where
  "sev_rank Low = 0"
| "sev_rank Medium = 1"
| "sev_rank High = 2"
| "sev_rank Critical = 3"

instantiation severity :: linorder
begin

definition less_eq_severity :: "severity \<Rightarrow> severity \<Rightarrow> bool" where
  "less_eq_severity a b \<longleftrightarrow> sev_rank a \<le> sev_rank b"

definition less_severity :: "severity \<Rightarrow> severity \<Rightarrow> bool" where
  "less_severity a b \<longleftrightarrow> sev_rank a < sev_rank b"

instance
proof
  fix a b :: severity
  assume "a \<le> b" "b \<le> a"
  then show "a = b" by (cases a; cases b) (simp_all add: less_eq_severity_def)
qed (auto simp: less_eq_severity_def less_severity_def)

end

definition severity_of :: "string \<Rightarrow> severity option" where
  "severity_of s =
     dget [(''critical'', Critical), (''high'', High), (''medium'', Medium), (''low'', Low)] s"

definition sev_weight :: "severity \<Rightarrow> real" where
  "sev_weight v = 25 * real (sev_rank v + 1)"

lemma severity_weights_scale: "dget severity_weights s = map_option sev_weight (severity_of s)"
  by (simp add: severity_weights_def severity_of_def sev_weight_def)

lemma sev_weight_le_iff: "sev_weight a \<le> sev_weight b \<longleftrightarrow> a \<le> b"
  by (simp add: sev_weight_def less_eq_severity_def)

lemma sev_weight_le: "sev_weight v \<le> 100"
  by (cases v) (simp_all add: sev_weight_def)

lemma severity_weight_range: "dget severity_weights s = Some w \<Longrightarrow> 25 \<le> w \<and> w \<le> 100"
  by (auto simp: severity_weights_def split: if_splits)

definition the_weight :: "obj \<Rightarrow> real" where
  "the_weight a = (case alert_weight a of Inr w \<Rightarrow> w | Inl _ \<Rightarrow> 0)"

section \<open>Bounds and monotonicity of the score\<close>

lemma alert_weight_range: "alert_weight a = Inr w \<Longrightarrow> 10 \<le> w \<and> w \<le> 100"
  by (auto simp: alert_weight_def dget_or_def split: pyval.splits option.splits dest: severity_weight_range)

lemma map_result_set: "map_result f xs = Inr ys \<Longrightarrow> y \<in> set ys \<Longrightarrow> \<exists>x\<in>set xs. f x = Inr y"
  by (induction xs arbitrary: ys) (auto simp: result_simps)

lemma map_result_member: "map_result f xs = Inr ys \<Longrightarrow> x \<in> set xs \<Longrightarrow> \<exists>y. f x = Inr y \<and> y \<in> set ys"
  by (induction xs arbitrary: ys) (auto simp: result_simps)

lemma map_result_append:
  "map_result f (xs @ zs) = bind_result (map_result f xs) (\<lambda>ys. bind_result (map_result f zs) (\<lambda>ws. Inr (ys @ ws)))"
  by (induction xs) (auto simp: bind_result_def split: sum.splits)

lemma risk_score_cases:
  assumes "calculate_risk_score alerts = Inr r" "alerts \<noteq> []"
  obtains ws where "map_result alert_weight alerts = Inr ws" "ws \<noteq> []" "length ws = length alerts"
    "r = min (Max (set ws) + real (length alerts - 1) * 5) 100"
proof -
  from assms obtain ws where ws: "map_result alert_weight alerts = Inr ws"
    "r = min (Max (set ws) + real (length alerts - 1) * 5) 100"
    by (auto simp: calculate_risk_score_def result_simps Let_def)
  from map_result_length [OF ws(1)] have "length ws = length alerts" .
  moreover with assms(2) have "ws \<noteq> []" by auto
  ultimately show ?thesis using that ws by blast
qed

lemma Max_weights_range:
  assumes "map_result alert_weight alerts = Inr ws" "ws \<noteq> []"
  shows "10 \<le> Max (set ws) \<and> Max (set ws) \<le> 100"
proof -
  have "Max (set ws) \<in> set ws" using assms(2) by simp
  then obtain a where "alert_weight a = Inr (Max (set ws))" using map_result_set [OF assms(1)] by blast
  then show ?thesis by (rule alert_weight_range)
qed

lemma risk_score_range: "calculate_risk_score alerts = Inr r \<Longrightarrow> 0 \<le> r \<and> r \<le> 100 \<and> (alerts \<noteq> [] \<longrightarrow> 10 \<le> r)"
proof (cases "alerts = []")
  case False
  assume r: "calculate_risk_score alerts = Inr r"
  obtain ws where ws: "map_result alert_weight alerts = Inr ws" "ws \<noteq> []"
    "r = min (Max (set ws) + real (length alerts - 1) * 5) 100"
    using risk_score_cases [OF r False] by metis
  then have "10 \<le> Max (set ws)" using Max_weights_range by blast
  with ws(3) show ?thesis by (simp add: add_increasing2)
qed (simp add: calculate_risk_score_def)

lemma map_result_mset:
  "map_result f xs = Inr ys \<Longrightarrow> mset xs = mset zs \<Longrightarrow> \<exists>vs. map_result f zs = Inr vs \<and> set vs = set ys"
proof -
  assume ys: "map_result f xs = Inr ys" and m: "mset xs = mset zs"
  have all: "\<exists>y. f x = Inr y" if "x \<in> set xs" for x
    using ys that by (induction xs arbitrary: ys) (auto simp: result_simps)
  let ?g = "\<lambda>x. projr (f x)"
  have g: "f x = Inr (?g x)" if "x \<in> set xs" for x using all [OF that] by auto
  have "map_result f xs = Inr (map ?g xs)" "map_result f zs = Inr (map ?g zs)"
    using g mset_eq_setD [OF m] by (auto intro!: map_result_Inr)
  with ys mset_eq_setD [OF m] show ?thesis by auto
qed

lemma risk_score_order_irrelevant:
  assumes "calculate_risk_score alerts = Inr r" "mset alerts = mset alerts'"
  shows "calculate_risk_score alerts' = Inr r"
proof (cases "alerts = []")
  case True
  then have "alerts' = []" using assms(2) by simp
  with True assms(1) show ?thesis by simp
next
  case False
  then have ne: "alerts' \<noteq> []" using assms(2) by auto
  obtain ws where ws: "map_result alert_weight alerts = Inr ws"
    "r = min (Max (set ws) + real (length alerts - 1) * 5) 100"
    using risk_score_cases [OF assms(1) False] by metis
  obtain vs where vs: "map_result alert_weight alerts' = Inr vs" "set vs = set ws"
    using map_result_mset [OF ws(1) assms(2)] by blast
  have "length alerts' = length alerts" using assms(2) by (metis mset_eq_length)
  with vs ws(2) ne show ?thesis by (simp add: calculate_risk_score_def Let_def)
qed

section \<open>Properties\<close>

text \<open>What one alert scores is the weight of its severity, and every further alert counts five points, until the
  cap: no list of further alerts adds less, and one that brings nothing worse adds exactly that.\<close>

lemma risk_score_growth:
  assumes "calculate_risk_score alerts = Inr r" "calculate_risk_score (alerts @ more) = Inr r'" "alerts \<noteq> []"
  shows "min 100 (r + 5 * real (length more)) \<le> r'"
    and "(\<forall>b\<in>set more. \<exists>a\<in>set alerts. the_weight b \<le> the_weight a) \<Longrightarrow> r' = min 100 (r + 5 * real (length more))"
proof -
  obtain ws where ws: "map_result alert_weight alerts = Inr ws" "ws \<noteq> []"
    "r = min (Max (set ws) + real (length alerts - 1) * 5) 100"
    using risk_score_cases [OF assms(1,3)] by metis
  from assms(3) have "alerts @ more \<noteq> []" by simp
  then obtain vs where vs: "map_result alert_weight (alerts @ more) = Inr vs" "vs \<noteq> []"
    "r' = min (Max (set vs) + real (length (alerts @ more) - 1) * 5) 100"
    using risk_score_cases [OF assms(2)] by metis
  then obtain us where us: "map_result alert_weight more = Inr us" "vs = ws @ us" using ws(1) by (auto simp: map_result_append result_simps)
  have len: "real (length (alerts @ more) - 1) = real (length alerts - 1) + real (length more)"
    using assms(3) by (cases alerts) simp_all
  have le: "Max (set ws) \<le> Max (set vs)" using ws(2) unfolding us(2) by (intro Max_mono) auto
  then show "min 100 (r + 5 * real (length more)) \<le> r'" unfolding ws(3) vs(3) len by (auto simp: min_def)
  assume worse: "\<forall>b\<in>set more. \<exists>a\<in>set alerts. the_weight b \<le> the_weight a"
  have "u \<le> Max (set ws)" if u: "u \<in> set us" for u
  proof -
    obtain b where b: "b \<in> set more" "alert_weight b = Inr u" using map_result_set [OF us(1) u] by blast
    then obtain a where a: "a \<in> set alerts" "u \<le> the_weight a" using worse by (auto simp: the_weight_def)
    obtain w where "alert_weight a = Inr w" "w \<in> set ws" using map_result_member [OF ws(1) a(1)] by blast
    then have "u \<le> w" "w \<le> Max (set ws)" using a(2) by (simp_all add: the_weight_def)
    then show ?thesis by linarith
  qed
  then have "Max (set vs) \<le> Max (set ws)" using ws(2) unfolding us(2) by (intro Max.boundedI) (auto simp: Max_ge)
  with le have "Max (set vs) = Max (set ws)" by simp
  then show "r' = min 100 (r + 5 * real (length more))" unfolding ws(3) vs(3) len by (auto simp: min_def)
qed

lemma risk_score_single:
  "calculate_risk_score [a] = Inr r \<Longrightarrow> dget_or a ''severity'' (PStr ''low'') = PStr s \<Longrightarrow>
   r = (case severity_of (py_lower s) of Some v \<Rightarrow> sev_weight v | None \<Rightarrow> 10)"
  using sev_weight_le by (auto simp: calculate_risk_score_def alert_weight_def dget_or_def severity_weights_scale result_simps min_def
      split: option.splits)

text \<open>C39. What the risk score is made of: it is 0 for no alert and between 10 and 100 otherwise, and does not
  depend on the order of the alerts; one alert scores the weight of its severity on the scale; every
  further alert adds at least five points until the cap of 100 is reached, and exactly five when it is no
  worse than what is there.\<close>

theorem risk_score_sound:
  assumes "calculate_risk_score alerts = Inr r"
  shows "(alerts = [] \<longrightarrow> r = 0) \<and> (alerts \<noteq> [] \<longrightarrow> 10 \<le> r) \<and> r \<le> 100 \<and>
    (mset alerts' = mset alerts \<longrightarrow> calculate_risk_score alerts' = Inr r) \<and>
    (alerts = [a] \<longrightarrow> dget_or a ''severity'' (PStr ''low'') = PStr s \<longrightarrow>
       r = (case severity_of (py_lower s) of Some v \<Rightarrow> sev_weight v | None \<Rightarrow> 10)) \<and>
    (alerts \<noteq> [] \<longrightarrow> calculate_risk_score (alerts @ more) = Inr r' \<longrightarrow>
       min 100 (r + 5 * real (length more)) \<le> r' \<and>
       ((\<forall>b\<in>set more. \<exists>a\<in>set alerts. the_weight b \<le> the_weight a) \<longrightarrow> r' = min 100 (r + 5 * real (length more))))"
  using risk_score_range [OF assms] risk_score_order_irrelevant [OF assms, of alerts'] assms
    risk_score_growth [OF assms, of more r'] risk_score_single [of a r s]
  by (auto simp: calculate_risk_score_def)

theorem risk_score_sound_witness:
  "calculate_risk_score [[], [(''severity'', PStr ''x'')]] = Inr 30 \<and> calculate_risk_score ([[]] @ [[(''severity'', PStr ''x'')]]) = Inr 30 \<and>
   (30 :: real) = min 100 (25 + 5 * real (length [[(''severity'', PStr ''x'')] :: obj]))"
  using risk_score_sound [of "[[]]" 25 "[[]]" "[]" "''low''" "[[(''severity'', PStr ''x'')]]" 30]
  by (simp add: calculate_risk_score_def alert_weight_def the_weight_def severity_weights_def py_lower_def lower_char_def dget_or_def)

end
