(* ===== verification/Correlation.thy ===== *)
theory Correlation
  imports Redis Risk PyIp
begin

text \<open>
  \<open>inference/correlation.py\<close>: the two Lua scripts (\<open>CORRELATE_LUA\<close>, \<open>ROLLBACK_LUA\<close>) as state
  transformers over the commands of a Redis service, and the Python methods around them
  (\<open>check_redis_master\<close>, \<open>add_alert\<close>, \<open>rollback_alert_seen\<close>). \<open>tonumber\<close>/\<open>tostring\<close> of the
  severity scores, whole numbers all, is the identity on integers.
\<close>

section \<open>Construction\<close>

text \<open>What the constructor finds on the machine: whether a file exists, the CA bundle of \<open>certifi\<close> when
  it is installed, the default CA file and directory.\<close>

definition env_flag :: "environ \<Rightarrow> string \<Rightarrow> string \<Rightarrow> bool" where
  "env_flag env k dflt \<longleftrightarrow> py_lower (getenv_or env k dflt) \<in> {''true'', ''1'', ''yes''}"

record trust_store =
  ts_exists :: "string \<Rightarrow> bool"
  ts_certifi :: "string option"
  ts_cafile :: "string option"
  ts_capath :: "string option"

definition ca_fallback :: "trust_store \<Rightarrow> obj" where
  "ca_fallback ts =
     (case ts_certifi ts of
        Some ca \<Rightarrow> [(''ssl_ca_certs'', PStr ca)]
      | None \<Rightarrow>
          if ts_cafile ts \<notin> {None, Some []} then [(''ssl_ca_certs'', PStr (the (ts_cafile ts)))]
          else if ts_capath ts \<notin> {None, Some []} then [(''ssl_ca_path'', PStr (the (ts_capath ts)))]
          else [])"

definition tls_kwargs :: "environ \<Rightarrow> trust_store \<Rightarrow> obj" where
  "tls_kwargs env ts =
     [(''connection_class'', PStr ''SSLConnection''), (''ssl_cert_reqs'', PStr ''required'')] @
     (case env ''REDIS_CA_CERT_PATH'' of
        Some ca \<Rightarrow> if ca \<noteq> [] \<and> ts_exists ts ca then [(''ssl_ca_certs'', PStr ca)] else ca_fallback ts
      | None \<Rightarrow> ca_fallback ts)"

definition pool_base :: "environ \<Rightarrow> int \<Rightarrow> string \<Rightarrow> obj" where
  "pool_base env port password =
     [(''host'', PStr (getenv_or env ''REDIS_HOST'' ''localhost'')), (''port'', PInt port),
      (''password'', PStr password), (''db'', PInt 0), (''decode_responses'', PBool True),
      (''socket_timeout'', PFloat (Fin 2)), (''socket_connect_timeout'', PFloat (Fin 2)),
      (''max_connections'', PInt 50), (''retry_on_timeout'', PBool True),
      (''health_check_interval'', PInt 30)]"

definition pool_kwargs :: "environ \<Rightarrow> trust_store \<Rightarrow> obj result" where
  "pool_kwargs env ts =
     bind_result (of_option ValueError (parse_int (getenv_or env ''REDIS_PORT'' ''6379''))) (\<lambda>port.
       case env ''REDIS_PASSWORD'' of
         None \<Rightarrow> Inl RuntimeError
       | Some password \<Rightarrow>
           if password = [] then Inl RuntimeError
           else Inr
             (pool_base env port password @
              (if env_flag env ''REDIS_SSL'' ''true'' then tls_kwargs env ts else [])))"

section \<open>The scripts\<close>

definition MAX_SEEN :: nat where
  "MAX_SEEN = 5000"

definition seen_key :: "string \<Rightarrow> string" where
  "seen_key key = key @ '':seen''"

definition count_key :: "string \<Rightarrow> string" where
  "count_key key = key @ '':cnt''"

definition expire_if_unset :: "'s redis_ops \<Rightarrow> string \<Rightarrow> int \<Rightarrow> 's \<Rightarrow> 's" where
  "expire_if_unset R k window s = (if r_ttl R k s < 0 then r_expire R k window s else s)"

text \<open>Replay defence: \<open>True\<close> when the script returns early because the alert was seen.\<close>

definition seen_step :: "'s redis_ops \<Rightarrow> string \<Rightarrow> int \<Rightarrow> string \<Rightarrow> bool \<Rightarrow> 's \<Rightarrow> bool \<times> 's" where
  "seen_step R key window alert_id is_replay s =
     (if alert_id \<noteq> [] then
        (let k = seen_key key; is_dup = (r_zscore R k alert_id s \<noteq> None) in
         if is_dup \<and> \<not> is_replay then (True, s)
         else
           (let insertion_rank = r_zcard R k s;
                s1 = r_zadd R k (int insertion_rank) alert_id s;
                s2 = (if r_zcard R k s1 > MAX_SEEN then r_zrem_lowest R k s1 else s1)
            in (False, expire_if_unset R k window s2)))
      else (False, s))"

definition push_step :: "'s redis_ops \<Rightarrow> string \<Rightarrow> int \<Rightarrow> obj \<Rightarrow> 's \<Rightarrow> 's" where
  "push_step R key window alert_json s =
     expire_if_unset R key window (r_ltrim R key 100 (r_lpush R key alert_json s))"

definition count_step :: "'s redis_ops \<Rightarrow> string \<Rightarrow> int \<Rightarrow> 's \<Rightarrow> int \<times> 's" where
  "count_step R key window s =
     (case r_incr R (count_key key) s of
        (cnt, s1) \<Rightarrow> (cnt, expire_if_unset R (count_key key) window s1))"

definition incident_due :: "int \<Rightarrow> int \<Rightarrow> int \<Rightarrow> bool" where
  "incident_due cnt current_max severity \<longleftrightarrow>
     cnt \<ge> 2 \<and>
     (current_max = 0 \<or> severity > current_max \<or> cnt = 2 \<or> (cnt > 2 \<and> cnt mod 5 = 0))"

definition dedup_step :: "'s redis_ops \<Rightarrow> string \<Rightarrow> int \<Rightarrow> int \<Rightarrow> int \<Rightarrow> 's \<Rightarrow> 's" where
  "dedup_step R dedup window severity current_max s =
     (if current_max = 0 then r_set_ex R dedup severity window s
      else if severity > current_max then
        (let t = r_ttl R dedup s in
         if t > 0 then r_set_ex R dedup severity t s else r_set_ex R dedup severity window s)
      else s)"

definition correlate_lua ::
  "'s redis_ops \<Rightarrow> string \<Rightarrow> string \<Rightarrow> obj \<Rightarrow> int \<Rightarrow> int \<Rightarrow> string \<Rightarrow> bool \<Rightarrow> 's \<Rightarrow>
   (int \<times> int \<times> obj list) \<times> 's" where
  "correlate_lua R key dedup alert_json window severity alert_id is_replay s =
     (case seen_step R key window alert_id is_replay s of (dup, s1) \<Rightarrow>
        if dup then ((0, 0, []), s1)
        else
          (case count_step R key window (push_step R key window alert_json s1) of (cnt, s2) \<Rightarrow>
             let current_max = (case r_get R dedup s2 of None \<Rightarrow> 0 | Some m \<Rightarrow> m);
                 incident = (if incident_due cnt current_max severity then 1 else 0);
                 s3 = dedup_step R dedup window severity current_max s2;
                 snapshot = (if incident = 1 then r_lrange R key s3 else [])
             in ((cnt, incident, snapshot), s3)))"

definition rollback_lua ::
  "'s redis_ops \<Rightarrow> string \<Rightarrow> string \<Rightarrow> obj \<Rightarrow> string \<Rightarrow> 's \<Rightarrow> 's" where
  "rollback_lua R key dedup alert_json alert_id s =
     (let s1 = (if alert_id \<noteq> [] then r_zrem R (seen_key key) alert_id s else s);
          s2 = (case r_lrem1 R key alert_json s1 of (removed, t) \<Rightarrow>
                  if removed > 0 then
                    (let current = (case r_get R (count_key key) t of None \<Rightarrow> 0 | Some n \<Rightarrow> n) in
                     if current > 1 then r_decr R (count_key key) t
                     else if current = 1 then r_del R (count_key key) t
                     else t)
                  else t)
      in r_del R dedup s2)"

section \<open>Any conforming service behaves as the observable one\<close>

context redis begin

lemma incr_fst: "fst (r_incr R k s) = (case rnums (view s) k of None \<Rightarrow> 1 | Some n \<Rightarrow> n + 1)"
  and incr_view: "view (snd (r_incr R k s)) = (view s)\<lparr>rnums := (rnums (view s))(k \<mapsto> fst (r_incr R k s))\<rparr>"
  using incr [of k s "fst (r_incr R k s)" "snd (r_incr R k s)"] by simp_all

lemma lrem1_fst: "fst (r_lrem1 R k x s) = (if x \<in> set (rlists (view s) k) then 1 else 0)"
  and lrem1_view: "view (snd (r_lrem1 R k x s)) =
    reap k ((view s)\<lparr>rlists := (rlists (view s))(k := remove1 x (rlists (view s) k))\<rparr>)"
  using lrem1 [of k x s "fst (r_lrem1 R k x s)" "snd (r_lrem1 R k x s)"] by simp_all

lemmas laws = zscore zcard zadd zrem_lowest zrem ttl expire lpush ltrim lrange
  incr_fst incr_view lrem1_fst lrem1_view decr get set_ex del

lemma expire_if_unset_view:
  "view (expire_if_unset R k w s) = expire_if_unset mem_redis k w (view s)"
  by (simp add: expire_if_unset_def laws mem_redis_def)

lemma seen_step_view:
  "fst (seen_step R key w i rep s) = fst (seen_step mem_redis key w i rep (view s))"
  "view (snd (seen_step R key w i rep s)) = snd (seen_step mem_redis key w i rep (view s))"
  by (simp_all add: seen_step_def Let_def expire_if_unset_view laws mem_redis_def)

lemma push_step_view: "view (push_step R key w a s) = push_step mem_redis key w a (view s)"
  by (simp add: push_step_def expire_if_unset_view laws mem_redis_def)

lemma count_step_view:
  "fst (count_step R key w s) = fst (count_step mem_redis key w (view s))"
  "view (snd (count_step R key w s)) = snd (count_step mem_redis key w (view s))"
  by (simp_all add: count_step_def expire_if_unset_view case_prod_beta laws mem_redis_def Let_def)

lemma dedup_step_view:
  "view (dedup_step R k w v m s) = dedup_step mem_redis k w v m (view s)"
  by (simp add: dedup_step_def Let_def laws mem_redis_def)

lemma correlate_view:
  "fst (correlate_lua R key dedup a w v i rep s) = fst (correlate_lua mem_redis key dedup a w v i rep (view s))"
  "view (snd (correlate_lua R key dedup a w v i rep s)) =
     snd (correlate_lua mem_redis key dedup a w v i rep (view s))"
  unfolding correlate_lua_def Let_def case_prod_beta
  by (simp_all add: seen_step_view count_step_view push_step_view dedup_step_view
      get [of dedup] lrange [of key] mem.get mem.lrange)

lemma rollback_view:
  "view (rollback_lua R key dedup a i s) = rollback_lua mem_redis key dedup a i (view s)"
  by (simp add: rollback_lua_def Let_def case_prod_beta laws mem_redis_def)

end

section \<open>The Python side\<close>

definition time_window_sec :: int where
  "time_window_sec = 300"

definition safe_char :: "char \<Rightarrow> bool" where
  "safe_char c \<longleftrightarrow> is_ascii_alnum c \<or> c = CHR ''_'' \<or> c = CHR '' ''"

definition safe_threat :: "string \<Rightarrow> string" where
  "safe_threat threat_class =
     (let s = take 64 (replace_all '' '' ''_'' (filter safe_char threat_class))
      in if s = [] then ''unknown'' else s)"

definition alerts_key :: "string \<Rightarrow> string" where
  "alerts_key src_ip = ''{'' @ src_ip @ ''}:alerts''"

definition dedup_key :: "string \<Rightarrow> string \<Rightarrow> string" where
  "dedup_key src_ip safe = ''{'' @ src_ip @ ''}:dedup:'' @ safe"

definition sev_weights :: "(string, int) pydict" where
  "sev_weights = [(''critical'', 100), (''high'', 75), (''medium'', 50), (''low'', 25)]"

definition sev_score :: "py_repr \<Rightarrow> obj \<Rightarrow> int" where
  "sev_score rp alert =
     dget_or sev_weights (py_strip (py_lower (py_str rp (dget_or alert ''severity'' (PStr ''low''))))) 25"

text \<open>The canonical source address, or \<open>None\<close> where \<open>add_alert\<close> rejects the alert.\<close>

definition source_key :: "py_repr \<Rightarrow> obj \<Rightarrow> string option" where
  "source_key rp alert =
     (case ip_address (py_strip (py_str rp (dget_or alert ''source_ip'' (PStr ''127.0.0.1'')))) of
        None \<Rightarrow> None
      | Some a \<Rightarrow> (if length (str_ip a) > 45 then None else Some (str_ip a)))"

definition alert_threat :: "py_repr \<Rightarrow> obj \<Rightarrow> string" where
  "alert_threat rp alert = py_str rp (dget_or alert ''threat_class'' (PStr ''unknown''))"

text \<open>
  What the surroundings answer during one call: the clock before and after the script, the
  reply to \<open>INFO replication\<close>, whether the script ran and its reply arrived, the random part of
  the incident id, the order in which a set is listed, and \<open>repr\<close>.
\<close>

datatype lua_outcome = LuaRan | LuaFailed | LuaLost

record corr_env =
  e_now :: real
  e_info :: "obj result"
  e_lua :: lua_outcome
  e_after :: real
  e_uuid :: string
  e_so :: "pyval list \<Rightarrow> pyval list"
  e_repr :: py_repr

record 's correlator =
  c_store :: 's
  c_last_check :: real

definition check_redis_master :: "corr_env \<Rightarrow> 's correlator \<Rightarrow> bool result \<times> 's correlator" where
  "check_redis_master e c =
     (if e_now e - c_last_check c < 5 then (Inr True, c)
      else (case e_info e of
              Inl RedisError \<Rightarrow> (Inr False, c)
            | Inl x \<Rightarrow> (Inl x, c)
            | Inr info \<Rightarrow>
                if oget info ''role'' \<noteq> PStr ''master'' then (Inr False, c)
                else (Inr True, c\<lparr>c_last_check := e_now e\<rparr>)))"

text \<open>The accumulators of the evidence loop; a value that no set can hold ends the treatment of
  its alert, keeping what was already added.\<close>

record evidence =
  ev_threats :: "pyval list"
  ev_entities :: "pyval list"
  ev_related :: "pyval list"
  ev_tactics :: "pyval list"
  ev_alerts :: "obj list"
  ev_max_sev :: pyval

definition add_threat :: "obj \<Rightarrow> evidence \<Rightarrow> evidence result" where
  "add_threat a v =
     (let tc = oget a ''threat_class'' in
      if truthy tc
      then bind_result (py_add tc (ev_threats v)) (\<lambda>xs. Inr (v\<lparr>ev_threats := xs\<rparr>)) else Inr v)"

definition add_entity :: "obj \<Rightarrow> evidence \<Rightarrow> evidence result" where
  "add_entity a v =
     (let dst = oget a ''destination_ip'' in
      if truthy dst
      then bind_result (py_add dst (ev_entities v)) (\<lambda>xs. Inr (v\<lparr>ev_entities := xs\<rparr>)) else Inr v)"

definition add_related :: "obj \<Rightarrow> evidence \<Rightarrow> evidence" where
  "add_related a v =
     (let aid = oget a ''alert_id'' in
      if truthy aid \<and> \<not> py_in aid (ev_related v)
      then v\<lparr>ev_related := ev_related v @ [aid]\<rparr> else v)"

definition add_tactic :: "obj \<Rightarrow> evidence \<Rightarrow> evidence result" where
  "add_tactic a v =
     (let tactic = py_or (oget a ''mitre_tactic'') (oget a ''tactic'') in
      if truthy tactic
      then bind_result (py_add tactic (ev_tactics v)) (\<lambda>xs. Inr (v\<lparr>ev_tactics := xs\<rparr>)) else Inr v)"

definition raise_max_sev :: "py_repr \<Rightarrow> obj \<Rightarrow> evidence \<Rightarrow> evidence" where
  "raise_max_sev rp a v =
     (let a_sev = py_lower (py_str rp (dget_or a ''severity'' (PStr ''low''))) in
      if dget_or sev_weights a_sev 25 \<ge> dget_or sev_weights (py_lower (py_str rp (ev_max_sev v))) 25
      then v\<lparr>ev_max_sev := PStr a_sev\<rparr> else v)"

definition absorb_alert :: "py_repr \<Rightarrow> evidence \<Rightarrow> obj \<Rightarrow> evidence" where
  "absorb_alert rp v0 a =
     (let v1 = v0\<lparr>ev_alerts := ev_alerts v0 @ [a]\<rparr> in
      case add_threat a v1 of Inl _ \<Rightarrow> v1 | Inr v2 \<Rightarrow>
      case add_entity a v2 of Inl _ \<Rightarrow> v2 | Inr v3 \<Rightarrow>
      (let v4 = add_related a v3 in
       case add_tactic a v4 of Inl _ \<Rightarrow> v4 | Inr v5 \<Rightarrow> raise_max_sev rp a v5))"

definition gather_evidence :: "py_repr \<Rightarrow> string \<Rightarrow> obj \<Rightarrow> obj list \<Rightarrow> evidence" where
  "gather_evidence rp src_ip alert raw_alerts =
     (let v = foldl (absorb_alert rp)
                \<lparr>ev_threats = [], ev_entities = [PStr src_ip], ev_related = [], ev_tactics = [],
                 ev_alerts = [], ev_max_sev = dget_or alert ''severity'' (PStr ''high'')\<rparr> raw_alerts;
          v1 = (if ev_alerts v = [] then v\<lparr>ev_alerts := [alert]\<rparr> else v);
          v2 = (if ev_threats v1 = [] then v1\<lparr>ev_threats := [PStr (alert_threat rp alert)]\<rparr> else v1)
      in add_related alert v2)"

definition join_strs :: "string \<Rightarrow> pyval list \<Rightarrow> string result" where
  "join_strs sep xs =
     bind_result (map_result (\<lambda>x. case x of PStr s \<Rightarrow> Inr s | _ \<Rightarrow> Inl TypeError) xs)
       (\<lambda>ss. Inr (join sep ss))"

definition build_incident :: "corr_env \<Rightarrow> string \<Rightarrow> obj \<Rightarrow> evidence \<Rightarrow> obj result" where
  "build_incident e src_ip alert v =
     (let threats = e_so e (ev_threats v); entities = e_so e (ev_entities v) in
      bind_result (calculate_risk_score (ev_alerts v)) (\<lambda>risk.
      bind_result (join_strs '', '' threats) (\<lambda>names.
      Inr [(''incident_id'', PStr (''INC-'' @ e_uuid e)),
           (''source_ip'', PStr src_ip),
           (''affected_entities'', PList entities),
           (''threat_classes'', PList threats),
           (''tactics'', PList (e_so e (ev_tactics v))),
           (''highest_risk'', PFloat (Fin risk)),
           (''severity'', ev_max_sev v),
           (''risk_score'', PFloat (Fin risk)),
           (''created_timestamp'', PInt (trunc_real (e_after e))),
           (''timestamp'', PInt (trunc_real (e_after e * 1000))),
           (''status'', PStr ''active''),
           (''evidence_summary'', PStr (''Correlated '' @ str_of_nat (length threats) @
              '' threat vector(s) ('' @ names @ '') across '' @ str_of_nat (length (ev_related v)) @
              '' alert(s) involving '' @ src_ip)),
           (''related_alert_ids'', PList (ev_related v)),
           (''trace_id'', oget alert ''trace_id'')])))"

definition run_correlate ::
  "'s redis_ops \<Rightarrow> corr_env \<Rightarrow> string \<Rightarrow> obj \<Rightarrow> 's \<Rightarrow> (int \<times> int \<times> obj list) \<times> 's" where
  "run_correlate R e src_ip alert s =
     correlate_lua R (alerts_key src_ip)
       (dedup_key src_ip (safe_threat (alert_threat (e_repr e) alert))) alert time_window_sec
       (sev_score (e_repr e) alert)
       (py_str (e_repr e) (dget_or alert ''alert_id'' (PStr []))) (truthy (oget alert ''is_replay'')) s"

definition add_alert ::
  "'s redis_ops \<Rightarrow> corr_env \<Rightarrow> obj \<Rightarrow> 's correlator \<Rightarrow> obj option result \<times> 's correlator" where
  "add_alert R e alert c =
     (case check_redis_master e c of
        (Inl x, c1) \<Rightarrow> (Inl x, c1)
      | (Inr False, c1) \<Rightarrow> (Inr None, c1)
      | (Inr True, c1) \<Rightarrow>
          (case source_key (e_repr e) alert of
             None \<Rightarrow> (Inr None, c1)
           | Some src_ip \<Rightarrow>
               (case run_correlate R e src_ip alert (c_store c1) of ((cnt, flag, snapshot), s) \<Rightarrow>
                  (case e_lua e of
                     LuaFailed \<Rightarrow> (Inl RedisError, c1)
                   | LuaLost \<Rightarrow> (Inl RedisError, c1\<lparr>c_store := s\<rparr>)
                   | LuaRan \<Rightarrow>
                       (if flag = 1
                        then map_sum id Some (build_incident e src_ip alert
                               (gather_evidence (e_repr e) src_ip alert snapshot))
                        else Inr None,
                        c1\<lparr>c_store := s\<rparr>)))))"

text \<open>The compensating script. Every failure is logged and swallowed.\<close>

definition rollback_alert_seen ::
  "'s redis_ops \<Rightarrow> corr_env \<Rightarrow> obj \<Rightarrow> 's correlator \<Rightarrow> 's correlator" where
  "rollback_alert_seen R e alert c =
     (case ip_address (py_strip (py_str (e_repr e) (dget_or alert ''source_ip'' (PStr ''127.0.0.1'')))) of
        None \<Rightarrow> c
      | Some a \<Rightarrow>
          (if e_lua e = LuaFailed then c
           else c\<lparr>c_store := rollback_lua R (alerts_key (str_ip a))
                    (dedup_key (str_ip a) (safe_threat (alert_threat (e_repr e) alert))) alert
                    (py_strip (py_str (e_repr e) (dget_or alert ''alert_id'' (PStr [])))) (c_store c)\<rparr>))"

section \<open>The effect of the scripts on the observable state\<close>

lemma keys_distinct [simp]:
  "seen_key key \<noteq> key" "key \<noteq> seen_key key" "count_key key \<noteq> key" "key \<noteq> count_key key"
  "seen_key key \<noteq> count_key key" "count_key key \<noteq> seen_key key"
  by (auto simp: seen_key_def count_key_def)

lemma seen_count_keys [simp]:
  "seen_key k = seen_key j \<longleftrightarrow> k = j" "count_key k = count_key j \<longleftrightarrow> k = j"
  by (simp_all add: seen_key_def count_key_def)

text \<open>\<open>own_keys key dedup\<close>: the four keys one run of a script touches are different keys.\<close>

definition own_keys :: "string \<Rightarrow> string \<Rightarrow> bool" where
  "own_keys key dedup \<longleftrightarrow> dedup \<notin> {key, seen_key key, count_key key}"

lemma own_keys_ip: "own_keys (alerts_key ip) (dedup_key ip t)"
  by (simp add: own_keys_def alerts_key_def dedup_key_def seen_key_def count_key_def)

lemma expire_mem [simp]:
  "rlists (expire_if_unset mem_redis k w d) = rlists d"
  "rzsets (expire_if_unset mem_redis k w d) = rzsets d"
  "rnums (expire_if_unset mem_redis k w d) = rnums d"
  by (simp_all add: expire_if_unset_def mem_redis_def)

lemma rexists_expire_mem [simp]: "rexists (expire_if_unset mem_redis k w d) j = rexists d j"
  by (simp add: rexists_def)

definition next_seen :: "string \<Rightarrow> (int \<times> string) list \<Rightarrow> (int \<times> string) list" where
  "next_seen i z =
     (let z' = zins (int (length z), i) (zrem_list i z) in if length z' > MAX_SEEN then drop 1 z' else z')"

definition seen_before :: "string \<Rightarrow> string \<Rightarrow> bool \<Rightarrow> rdb \<Rightarrow> bool" where
  "seen_before key i rep d \<longleftrightarrow> i \<noteq> [] \<and> \<not> rep \<and> zscore_list i (rzsets d (seen_key key)) \<noteq> None"

lemma seen_step_mem:
  "fst (seen_step mem_redis key w i rep d) = seen_before key i rep d"
  "rlists (snd (seen_step mem_redis key w i rep d)) = rlists d"
  "rnums (snd (seen_step mem_redis key w i rep d)) = rnums d"
  "rzsets (snd (seen_step mem_redis key w i rep d)) =
     (if i = [] \<or> seen_before key i rep d then rzsets d
      else (rzsets d)(seen_key key := next_seen i (rzsets d (seen_key key))))"
  by (auto simp: seen_step_def Let_def mem_redis_def seen_before_def next_seen_def expire_if_unset_def)

lemma seen_before_state: "seen_before key i rep d \<Longrightarrow> snd (seen_step mem_redis key w i rep d) = d"
  by (simp add: seen_step_def seen_before_def mem_redis_def Let_def)

lemma push_step_mem:
  "rlists (push_step mem_redis key w a d) = (rlists d)(key := take 100 (a # rlists d key))"
  "rnums (push_step mem_redis key w a d) = rnums d"
  "rzsets (push_step mem_redis key w a d) = rzsets d"
  by (simp_all add: push_step_def) (simp_all add: mem_redis_def)

lemma count_step_mem:
  "fst (count_step mem_redis key w d) = (case rnums d (count_key key) of None \<Rightarrow> 1 | Some n \<Rightarrow> n + 1)"
  "rlists (snd (count_step mem_redis key w d)) = rlists d"
  "rzsets (snd (count_step mem_redis key w d)) = rzsets d"
  "rnums (snd (count_step mem_redis key w d)) =
     (rnums d)(count_key key \<mapsto> (case rnums d (count_key key) of None \<Rightarrow> 1 | Some n \<Rightarrow> n + 1))"
  by (simp_all add: count_step_def case_prod_beta) (simp_all add: mem_redis_def Let_def)

lemma dedup_step_mem:
  "rlists (dedup_step mem_redis dd w v m d) = rlists d"
  "rzsets (dedup_step mem_redis dd w v m d) = rzsets d"
  "rnums (dedup_step mem_redis dd w v m d) =
     (if m = 0 \<or> v > m then (rnums d)(dd \<mapsto> v) else rnums d)"
  by (simp_all add: dedup_step_def mem_redis_def Let_def)

lemmas step_mem = seen_step_mem push_step_mem count_step_mem dedup_step_mem

definition count_of :: "rdb \<Rightarrow> string \<Rightarrow> int" where
  "count_of d key = (case rnums d (count_key key) of None \<Rightarrow> 0 | Some n \<Rightarrow> n)"

definition max_of :: "rdb \<Rightarrow> string \<Rightarrow> int" where
  "max_of d dedup = (case rnums d dedup of None \<Rightarrow> 0 | Some n \<Rightarrow> n)"

lemma correlate_seen:
  assumes "seen_before key i rep d"
  shows "correlate_lua mem_redis key dedup a w v i rep d = ((0, 0, []), d)"
  using assms by (simp add: correlate_lua_def case_prod_beta seen_step_mem seen_before_state)

lemma correlate_mem:
  fixes key dedup a w v i rep d
  assumes "own_keys key dedup" and "\<not> seen_before key i rep d"
  defines "r \<equiv> correlate_lua mem_redis key dedup a w v i rep d"
  defines "flag \<equiv> incident_due (count_of d key + 1) (max_of d dedup) v"
  shows "fst r = (count_of d key + 1, if flag then 1 else 0,
                  if flag then take 100 (a # rlists d key) else [])"
    and "rlists (snd r) = (rlists d)(key := take 100 (a # rlists d key))"
    and "rzsets (snd r) = (if i = [] then rzsets d
           else (rzsets d)(seen_key key := next_seen i (rzsets d (seen_key key))))"
    and "rnums (snd r) = (if max_of d dedup = 0 \<or> v > max_of d dedup
           then (rnums d)(count_key key \<mapsto> count_of d key + 1, dedup \<mapsto> v)
           else (rnums d)(count_key key \<mapsto> count_of d key + 1))"
  using assms(1,2) unfolding r_def flag_def own_keys_def
  by (auto simp: correlate_lua_def Let_def case_prod_beta step_mem mem.get mem.lrange count_of_def
      max_of_def split: option.splits)

section \<open>The store the correlator keeps\<close>

text \<open>What kind of value a key holds shows in its last characters.\<close>

definition list_key :: "string \<Rightarrow> bool" where
  "list_key k \<longleftrightarrow> take 8 (rev k) = rev ''}:alerts''"

definition zset_key :: "string \<Rightarrow> bool" where
  "zset_key k \<longleftrightarrow> take 13 (rev k) = rev ''}:alerts:seen''"

definition num_key :: "string \<Rightarrow> bool" where
  "num_key k \<longleftrightarrow> take 12 (rev k) = rev ''}:alerts:cnt'' \<or>
     take 8 (dropWhile (\<lambda>c. c \<noteq> CHR '':'') (rev k)) = rev ''}:dedup:''"

lemma key_kinds [simp]:
  "list_key (alerts_key ip)" "zset_key (seen_key (alerts_key ip))"
  "num_key (count_key (alerts_key ip))"
  "\<not> zset_key (alerts_key ip)" "\<not> num_key (alerts_key ip)"
  "\<not> list_key (seen_key (alerts_key ip))" "\<not> num_key (seen_key (alerts_key ip))"
  "\<not> list_key (count_key (alerts_key ip))" "\<not> zset_key (count_key (alerts_key ip))"
  by (simp_all add: list_key_def zset_key_def num_key_def alerts_key_def seen_key_def count_key_def)

lemma dedup_kind:
  assumes "CHR '':'' \<notin> set t"
  shows "num_key (dedup_key ip t)"
proof -
  have "dropWhile (\<lambda>c. c \<noteq> CHR '':'') (rev t @ rev ''}:dedup:'' @ rev ip @ ''{'') =
      dropWhile (\<lambda>c. c \<noteq> CHR '':'') (rev ''}:dedup:'' @ rev ip @ ''{'')"
    using assms by (intro dropWhile_append2) auto
  then show ?thesis by (simp add: num_key_def dedup_key_def)
qed

lemma alnum_unknown: "c \<in> set ''unknown'' \<Longrightarrow> is_ascii_alnum c"
  by (auto simp: is_ascii_alnum_def is_lower_az_def)

lemma safe_threat_chars: "set (safe_threat t) \<subseteq> {c. is_ascii_alnum c \<or> c = CHR ''_''}"
  and safe_threat_length: "length (safe_threat t) \<le> 64" "safe_threat t \<noteq> []"
proof -
  have rep: "set (replace_all '' '' ''_'' (filter safe_char t)) \<subseteq> {c. is_ascii_alnum c \<or> c = CHR ''_''}"
    by (auto simp: replace_all_char safe_char_def)
  show "set (safe_threat t) \<subseteq> {c. is_ascii_alnum c \<or> c = CHR ''_''}"
    using rep in_set_takeD [of _ 64 "replace_all '' '' ''_'' (filter safe_char t)"]
    by (auto simp: safe_threat_def Let_def alnum_unknown)
  show "length (safe_threat t) \<le> 64" "safe_threat t \<noteq> []"
    by (simp_all add: safe_threat_def Let_def)
qed

lemma num_key_only:
  assumes "num_key k"
  shows "\<not> list_key k" "\<not> zset_key k"
proof -
  have "k = rev (drop 8 (rev k)) @ ''}:alerts''" if "list_key k"
    using that append_take_drop_id [of 8 "rev k"] by (metis list_key_def rev_append rev_rev_ident)
  moreover have "\<not> num_key (s @ ''}:alerts'')" for s by (simp add: num_key_def)
  ultimately show "\<not> list_key k" using assms by metis
  have "k = rev (drop 13 (rev k)) @ ''}:alerts:seen''" if "zset_key k"
    using that append_take_drop_id [of 13 "rev k"] by (metis zset_key_def rev_append rev_rev_ident)
  moreover have "\<not> num_key (s @ ''}:alerts:seen'')" for s by (simp add: num_key_def)
  ultimately show "\<not> zset_key k" using assms by metis
qed

definition live :: "rdb \<Rightarrow> string \<Rightarrow> bool" where
  "live d k \<longleftrightarrow> (rttl d k = None \<longleftrightarrow> \<not> rexists d k) \<and> (case rttl d k of None \<Rightarrow> True | Some t \<Rightarrow> 0 \<le> t)"

definition store_ok :: "rdb \<Rightarrow> bool" where
  "store_ok d \<longleftrightarrow>
     (\<forall>k. length (rlists d k) \<le> 100 \<and> length (rzsets d k) \<le> MAX_SEEN) \<and>
     (\<forall>k. live d k) \<and>
     (\<forall>k. rlists d k \<noteq> [] \<longrightarrow> list_key k) \<and> (\<forall>k. rzsets d k \<noteq> [] \<longrightarrow> zset_key k) \<and>
     (\<forall>k n. rnums d k = Some n \<longrightarrow> num_key k \<and> 1 \<le> n)"

text \<open>Lists, sorted sets and numbers after any run of a script.\<close>

lemma length_next_seen: "length z \<le> MAX_SEEN \<Longrightarrow> length (next_seen i z) \<le> MAX_SEEN"
  using length_zrem_list [of i z] by (simp add: next_seen_def Let_def)

lemma correlate_collections:
  "rlists (snd (correlate_lua mem_redis key dedup a w v i rep d)) =
     (if seen_before key i rep d then rlists d else (rlists d)(key := take 100 (a # rlists d key)))"
  "rzsets (snd (correlate_lua mem_redis key dedup a w v i rep d)) =
     (if i = [] \<or> seen_before key i rep d then rzsets d
      else (rzsets d)(seen_key key := next_seen i (rzsets d (seen_key key))))"
  by (auto simp: correlate_lua_def Let_def case_prod_beta step_mem)

lemma rollback_collections:
  assumes "rlists d (count_key key) = []" "rzsets d (count_key key) = []"
  shows "rlists (rollback_lua mem_redis key dedup a i d) =
     (rlists d)(key := remove1 a (rlists d key), dedup := [])"
  and "rzsets (rollback_lua mem_redis key dedup a i d) =
     (rzsets d)(seen_key key := (if i = [] then rzsets d (seen_key key) else zrem_list i (rzsets d (seen_key key))),
                dedup := [])"
  using assms by (auto simp: rollback_lua_def Let_def mem_redis_def remove1_idem fun_eq_iff)

lemma rollback_rnums:
  "rnums (rollback_lua mem_redis key dedup a i d) =
     (if a \<in> set (rlists d key)
      then (rnums d)(count_key key := (if count_of d key > 1 then Some (count_of d key - 1)
                                       else if count_of d key = 1 then None else rnums d (count_key key)))
      else rnums d) (dedup := None)"
  by (auto simp: rollback_lua_def Let_def mem_redis_def count_of_def split: option.splits)

text \<open>Expiries: a key that holds a value has one, and no other key does.\<close>

definition all_live :: "rdb \<Rightarrow> bool" where
  "all_live d \<longleftrightarrow> (\<forall>k. live d k)"

lemma live_cong:
  "rttl d k = rttl e k \<Longrightarrow> rexists d k = rexists e k \<Longrightarrow> live d k = live e k"
  by (simp add: live_def)

lemma all_live_expire:
  assumes "\<And>j. j \<noteq> k \<Longrightarrow> live d j" and "rexists d k" and "0 \<le> w"
    and "\<And>t. rttl d k = Some t \<Longrightarrow> 0 \<le> t"
  shows "all_live (expire_if_unset mem_redis k w d)"
proof -
  have "live (expire_if_unset mem_redis k w d) j" for j
    using assms(1) [of j] assms(2-4)
    by (cases "j = k"; cases "rttl d k") (auto simp: live_def expire_if_unset_def mem_redis_def)
  then show ?thesis by (simp add: all_live_def)
qed

lemma all_liveD: "all_live d \<Longrightarrow> live d k"
  by (simp add: all_live_def)

lemma live_ttl: "live d k \<Longrightarrow> rttl d k = Some t \<Longrightarrow> 0 \<le> t"
  by (simp add: live_def)

lemma live_other:
  "live d j \<Longrightarrow> rttl e j = rttl d j \<Longrightarrow> rexists e j = rexists d j \<Longrightarrow> live e j"
  by (simp add: live_def)

lemma live_update [simp]:
  "j \<noteq> k \<Longrightarrow> live (d\<lparr>rlists := (rlists d)(k := x)\<rparr>) j = live d j"
  "j \<noteq> k \<Longrightarrow> live (d\<lparr>rzsets := (rzsets d)(k := z)\<rparr>) j = live d j"
  "j \<noteq> k \<Longrightarrow> live (d\<lparr>rnums := (rnums d)(k := n)\<rparr>) j = live d j"
  "j \<noteq> k \<Longrightarrow> live (reap k d) j = live d j"
  by (simp_all add: live_def rexists_def reap_def)

lemma reap_exists: "rexists d k \<Longrightarrow> reap k d = d"
  by (simp add: reap_def)

lemma seen_step_live:
  assumes "all_live d" "0 \<le> w"
  shows "all_live (snd (seen_step mem_redis key w i rep d))"
proof -
  define k where "k = seen_key key"
  define z where "z = zins (int (length (rzsets d k)), i) (zrem_list i (rzsets d k))"
  define d1 where "d1 = d\<lparr>rzsets := (rzsets d)(k := z)\<rparr>"
  define d2 where "d2 = d\<lparr>rzsets := (rzsets d)(k := drop 1 z)\<rparr>"
  have live1: "\<And>j. j \<noteq> k \<Longrightarrow> live d1 j" "\<And>j. j \<noteq> k \<Longrightarrow> live d2 j"
    using assms(1) by (simp_all add: d1_def d2_def all_liveD)
  have sets: "rzsets d1 k = z" "d1\<lparr>rzsets := (rzsets d1)(k := drop 1 z)\<rparr> = d2"
    by (simp_all add: d1_def d2_def)
  have ex: "rexists d1 k" "length z > MAX_SEEN \<Longrightarrow> rexists d2 k"
    using length_zins [of "(int (length (rzsets d k)), i)" "zrem_list i (rzsets d k)"]
    by (auto simp: rexists_def d1_def d2_def z_def MAX_SEEN_def drop_eq_Nil)
  have ttl: "\<And>t. rttl d1 k = Some t \<Longrightarrow> 0 \<le> t" "\<And>t. rttl d2 k = Some t \<Longrightarrow> 0 \<le> t"
    using live_ttl [OF all_liveD [OF assms(1)]] by (simp_all add: d1_def d2_def)
  have out: "snd (seen_step mem_redis key w i rep d) \<in>
      {d, expire_if_unset mem_redis k w (if length z > MAX_SEEN then d2 else d1)}"
    using ex(2) by (auto simp: seen_step_def Let_def mem.laws k_def [symmetric] z_def [symmetric]
        d1_def [symmetric] sets [simplified] reap_exists simp del: length_zins)
  show ?thesis
    using out assms all_live_expire [of k d1 w, OF live1(1) ex(1) assms(2) ttl(1)]
      all_live_expire [of k d2 w, OF live1(2) ex(2) assms(2) ttl(2)] by (auto split: if_splits)
qed

lemma push_step_live:
  assumes "all_live d" "0 \<le> w"
  shows "all_live (push_step mem_redis key w a d)"
proof -
  define d1 where "d1 = d\<lparr>rlists := (rlists d)(key := take 100 (a # rlists d key))\<rparr>"
  have "rexists d1 key" by (simp add: rexists_def d1_def)
  moreover have "push_step mem_redis key w a d = expire_if_unset mem_redis key w (reap key d1)"
    by (simp add: push_step_def mem_redis_def d1_def)
  moreover have "\<And>j. j \<noteq> key \<Longrightarrow> live d1 j"
    using assms(1) by (simp add: d1_def all_liveD)
  moreover have "\<And>t. rttl d1 key = Some t \<Longrightarrow> 0 \<le> t"
    using live_ttl [OF all_liveD [OF assms(1)]] by (simp add: d1_def)
  ultimately show ?thesis
    using assms(2) by (simp add: reap_exists all_live_expire)
qed

lemma count_step_live:
  assumes "all_live d" "0 \<le> w"
  shows "all_live (snd (count_step mem_redis key w d))"
proof -
  define k where "k = count_key key"
  define d1 where "d1 = d\<lparr>rnums := (rnums d)(k \<mapsto> (case rnums d k of None \<Rightarrow> 1 | Some n \<Rightarrow> n + 1))\<rparr>"
  have "rexists d1 k" by (simp add: rexists_def d1_def)
  moreover have "snd (count_step mem_redis key w d) = expire_if_unset mem_redis k w d1"
    by (simp add: count_step_def mem_redis_def Let_def d1_def k_def)
  moreover have "\<And>j. j \<noteq> k \<Longrightarrow> live d1 j"
    using assms(1) by (simp add: d1_def all_liveD)
  moreover have "\<And>t. rttl d1 k = Some t \<Longrightarrow> 0 \<le> t"
    using live_ttl [OF all_liveD [OF assms(1)]] by (simp add: d1_def)
  ultimately show ?thesis
    using assms(2) by (simp add: all_live_expire)
qed

lemma dedup_step_live:
  assumes "all_live d" "0 \<le> w"
  shows "all_live (dedup_step mem_redis dd w v m d)"
proof -
  have set_live: "all_live (d\<lparr>rnums := (rnums d)(dd \<mapsto> v), rttl := (rttl d)(dd \<mapsto> t)\<rparr>)" if "0 \<le> t" for t
    using assms(1) that by (auto simp: all_live_def live_def rexists_def)
  show ?thesis
    using assms set_live [of w] set_live [of "r_ttl mem_redis dd d"]
    by (simp add: dedup_step_def Let_def mem_redis_def)
qed

lemma correlate_live:
  "all_live d \<Longrightarrow> 0 \<le> w \<Longrightarrow> all_live (snd (correlate_lua mem_redis key dedup a w v i rep d))"
  by (simp add: correlate_lua_def Let_def case_prod_beta dedup_step_live count_step_live
      push_step_live seen_step_live)

text \<open>Taking elements out of the value of a key, and dropping the key when none is left.\<close>

lemma reap_live:
  assumes "all_live d" "\<And>j. j \<noteq> k \<Longrightarrow> rexists e j = rexists d j" "rexists e k \<Longrightarrow> rexists d k"
    and "rttl e = rttl d"
  shows "all_live (reap k e)"
proof -
  have "live (reap k e) j" for j
    using all_liveD [OF assms(1), of j] assms(2) [of j] assms(3,4)
    by (cases "j = k") (auto simp: live_def rttl_reap)
  then show ?thesis by (simp add: all_live_def)
qed

lemma del_live: "all_live d \<Longrightarrow> all_live (r_del mem_redis k d)"
  by (auto simp: all_live_def live_def mem_redis_def rexists_def)

lemma zrem_live: "all_live d \<Longrightarrow> all_live (r_zrem mem_redis k i d)"
  unfolding mem_redis_def
  by (simp, rule reap_live) (auto simp: rexists_def zrem_list_def)

lemma lrem_live: "all_live d \<Longrightarrow> all_live (snd (r_lrem1 mem_redis k a d))"
  unfolding mem_redis_def
  by (simp, rule reap_live) (auto simp: rexists_def)

lemma decr_live: "all_live d \<Longrightarrow> rnums d k \<noteq> None \<Longrightarrow> all_live (r_decr mem_redis k d)"
  by (auto simp: all_live_def live_def mem_redis_def rexists_def)

lemma rollback_live:
  assumes "all_live d"
  shows "all_live (rollback_lua mem_redis key dedup a i d)"
proof -
  define s1 where "s1 = (if i \<noteq> [] then r_zrem mem_redis (seen_key key) i d else d)"
  define t where "t = snd (r_lrem1 mem_redis key a s1)"
  have t: "all_live t" using assms by (simp add: t_def s1_def lrem_live zrem_live)
  show ?thesis
    using t by (auto simp: rollback_lua_def Let_def case_prod_beta t_def [symmetric] s1_def [symmetric]
        mem.get split: option.splits intro!: del_live decr_live)
qed

section \<open>Every call keeps the store in order\<close>

lemma store_okD:
  assumes "store_ok d"
  shows "length (rlists d k) \<le> 100" "length (rzsets d k) \<le> MAX_SEEN" "all_live d"
    "\<not> list_key k \<Longrightarrow> rlists d k = []" "\<not> zset_key k \<Longrightarrow> rzsets d k = []"
    "\<not> num_key k \<Longrightarrow> rnums d k = None" "rnums d k = Some n \<Longrightarrow> 1 \<le> n"
  using assms unfolding store_ok_def all_live_def by (blast | metis not_None_eq)+

lemma store_ok_counts: "store_ok d \<Longrightarrow> 0 \<le> count_of d key" "store_ok d \<Longrightarrow> 0 \<le> max_of d dd"
  by (auto simp: count_of_def max_of_def dest: store_okD(7) split: option.splits)

lemma dedup_key_safe [simp]: "num_key (dedup_key ip (safe_threat t))"
  using safe_threat_chars [of t] by (intro dedup_kind) (auto simp: is_ascii_alnum_def is_decimal_def
      is_lower_az_def is_upper_az_def)

lemma store_okI:
  assumes "\<And>k. length (rlists d k) \<le> 100" "\<And>k. length (rzsets d k) \<le> MAX_SEEN" "all_live d"
    "\<And>k. rlists d k \<noteq> [] \<Longrightarrow> list_key k" "\<And>k. rzsets d k \<noteq> [] \<Longrightarrow> zset_key k"
    "\<And>k n. rnums d k = Some n \<Longrightarrow> num_key k \<and> 1 \<le> n"
  shows "store_ok d"
  using assms unfolding store_ok_def all_live_def by blast

lemma store_ok_correlate:
  assumes ok: "store_ok d" and "0 \<le> w" and "1 \<le> v"
  shows "store_ok (snd (correlate_lua mem_redis (alerts_key ip) (dedup_key ip (safe_threat t)) a w v i rep d))"
    (is "store_ok (snd ?r)")
proof (cases "seen_before (alerts_key ip) i rep d")
  case True
  then show ?thesis using ok by (simp add: correlate_seen)
next
  case False
  note r = correlate_mem [OF own_keys_ip False]
  show ?thesis
  proof (rule store_okI)
    show "length (rlists (snd ?r) k) \<le> 100" for k
      using store_okD(1) [OF ok] by (simp add: r)
    show "length (rzsets (snd ?r) k) \<le> MAX_SEEN" for k
      using store_okD(2) [OF ok] by (simp add: r length_next_seen)
    show "all_live (snd ?r)"
      using store_okD(3) [OF ok] assms(2) by (rule correlate_live)
    show "list_key k" if "rlists (snd ?r) k \<noteq> []" for k
      using that store_okD(4) [OF ok, of k] by (auto simp: r split: if_splits)
    show "zset_key k" if "rzsets (snd ?r) k \<noteq> []" for k
      using that store_okD(5) [OF ok, of k] by (auto simp: r split: if_splits)
    show "num_key k \<and> 1 \<le> n" if "rnums (snd ?r) k = Some n" for k n
      using that store_okD(6,7) [OF ok, of k] store_ok_counts(1) [OF ok, of "alerts_key ip"] assms(3)
      by (auto simp: r split: if_splits)
  qed
qed

lemma rollback_collections_ok:
  assumes "store_ok d"
  shows "rlists (rollback_lua mem_redis (alerts_key ip) dd a i d) =
     (rlists d)(alerts_key ip := remove1 a (rlists d (alerts_key ip)), dd := [])"
  and "rzsets (rollback_lua mem_redis (alerts_key ip) dd a i d) =
     (rzsets d)(seen_key (alerts_key ip) :=
        (if i = [] then rzsets d (seen_key (alerts_key ip))
         else zrem_list i (rzsets d (seen_key (alerts_key ip)))), dd := [])"
  using store_okD(4,5) [OF assms, of "count_key (alerts_key ip)"]
  by (simp_all add: rollback_collections)

lemma store_ok_rollback:
  assumes ok: "store_ok d"
  shows "store_ok (rollback_lua mem_redis (alerts_key ip) dd a i d)" (is "store_ok ?r")
proof (rule store_okI)
  note r = rollback_collections_ok [OF ok] rollback_rnums
  show "length (rlists ?r k) \<le> 100" for k
    using store_okD(1) [OF ok, of k] length_remove1 [of a "rlists d k"] by (auto simp: r split: if_splits)
  show "length (rzsets ?r k) \<le> MAX_SEEN" for k
    using store_okD(2) [OF ok, of k] length_zrem_list [of i "rzsets d k"] by (auto simp: r)
  show "all_live ?r"
    using store_okD(3) [OF ok] by (rule rollback_live)
  show "list_key k" if "rlists ?r k \<noteq> []" for k
    using that store_okD(4) [OF ok, of k] by (auto simp: r split: if_splits)
  show "zset_key k" if "rzsets ?r k \<noteq> []" for k
    using that store_okD(5) [OF ok, of k] by (auto simp: r zrem_list_def split: if_splits)
  show "num_key k \<and> 1 \<le> n" if "rnums ?r k = Some n" for k n
    using that store_okD(6,7) [OF ok, of k] by (auto simp: r split: if_splits)
qed

lemma sev_score_range: "sev_score rp alert \<in> {25, 50, 75, 100}"
  by (auto simp: sev_score_def sev_weights_def dget_or_def split: if_splits)

text \<open>The calls another component makes, as the steps of a machine.\<close>

datatype corr_call = AddAlert corr_env obj | RollBack corr_env obj

definition corr_step :: "'s redis_ops \<Rightarrow> 's correlator \<Rightarrow> corr_call \<Rightarrow> 's correlator" where
  "corr_step R c call =
     (case call of AddAlert e alert \<Rightarrow> snd (add_alert R e alert c)
      | RollBack e alert \<Rightarrow> rollback_alert_seen R e alert c)"

lemma check_redis_master_store [simp]: "c_store (snd (check_redis_master e c)) = c_store c"
  by (auto simp: check_redis_master_def split: sum.split exc.split)

lemma add_alert_store:
  "c_store (snd (add_alert R e alert c)) = c_store c \<or>
   (\<exists>src. source_key (e_repr e) alert = Some src \<and>
      c_store (snd (add_alert R e alert c)) = snd (run_correlate R e src alert (c_store c)))"
proof (cases "check_redis_master e c")
  case (Pair ok c1)
  then have "c_store c1 = c_store c" using check_redis_master_store [of e c] by simp
  with Pair show ?thesis
    by (cases ok) (auto simp: add_alert_def case_prod_beta split: option.splits lua_outcome.splits bool.split)
qed

lemma rollback_store:
  "c_store (rollback_alert_seen R e alert c) = c_store c \<or>
   (\<exists>src dd i. c_store (rollback_alert_seen R e alert c) =
      rollback_lua R (alerts_key src) dd alert i (c_store c))"
  by (auto simp: rollback_alert_seen_def split: option.split)

context redis begin

lemma correlator_step_ok: "store_ok (view (c_store c)) \<Longrightarrow> store_ok (view (c_store (corr_step R c call)))"
proof (cases call)
  case (AddAlert e alert)
  assume ok: "store_ok (view (c_store c))"
  have "1 \<le> sev_score (e_repr e) alert" "0 \<le> time_window_sec"
    using sev_score_range [of "e_repr e" alert] by (auto simp: time_window_sec_def)
  with ok AddAlert add_alert_store [of R e alert c] show ?thesis
    by (auto simp: corr_step_def run_correlate_def correlate_view store_ok_correlate)
next
  case (RollBack e alert)
  assume "store_ok (view (c_store c))"
  with RollBack rollback_store [of R e alert c] show ?thesis
    by (auto simp: corr_step_def rollback_view store_ok_rollback)
qed

end

sublocale redis \<subseteq> calls: machine "corr_step R" "\<lambda>c. store_ok (view (c_store c))"
  by unfold_locales (rule correlator_step_ok)

context redis begin

lemma calls_ok:
  "store_ok (view (c_store c)) \<Longrightarrow> store_ok (view (c_store (foldl (corr_step R) c calls)))"
  by (rule calls.run_inv)

end

section \<open>Windows, isolation, compensation\<close>

lemma expire_ttl:
  "rttl d k = Some t \<Longrightarrow> 0 \<le> t \<Longrightarrow> rttl (expire_if_unset mem_redis j w d) k = Some t"
  by (auto simp: expire_if_unset_def mem_redis_def)

lemma seen_step_ttl:
  assumes "rttl d k = Some t" "0 \<le> t"
  shows "rttl (snd (seen_step mem_redis key w i rep d)) k = Some t"
proof -
  have "\<not> length (zrem_list i z) < MAX_SEEN \<Longrightarrow> drop 1 (zins p (zrem_list i z)) \<noteq> []" for z p
    using length_zins [of p "zrem_list i z"] by (auto simp: MAX_SEEN_def drop_eq_Nil simp del: length_zins)
  with assms show ?thesis
    by (auto simp: seen_step_def Let_def mem.zscore mem.zcard mem.zadd mem.zrem_lowest rttl_reap
        rexists_def less_Suc_eq_le not_less intro!: expire_ttl)
qed

lemma push_step_ttl:
  "rttl d k = Some t \<Longrightarrow> 0 \<le> t \<Longrightarrow> rttl (push_step mem_redis key w a d) k = Some t"
  by (auto simp: push_step_def mem.lpush mem.ltrim rttl_reap rexists_def intro!: expire_ttl)

lemma count_step_ttl:
  "rttl d k = Some t \<Longrightarrow> 0 \<le> t \<Longrightarrow> rttl (snd (count_step mem_redis key w d)) k = Some t"
  by (auto simp: count_step_def case_prod_beta mem.incr_view intro!: expire_ttl)

lemma dedup_step_ttl:
  assumes "rttl d k = Some t" "0 < t" "rexists d k" "m = max_of d dd" "k = dd \<Longrightarrow> m \<noteq> 0"
  shows "rttl (dedup_step mem_redis dd w v m d) k = Some t"
  using assms by (auto simp: dedup_step_def Let_def mem.set_ex mem.ttl)

lemma correlate_ttl:
  assumes ok: "store_ok d" and ttl: "rttl d k = Some t" "0 < t" and keys: "own_keys key dedup"
    and num: "num_key dedup"  "\<not> list_key dedup" "\<not> zset_key dedup"
  shows "rttl (snd (correlate_lua mem_redis key dedup a w v i rep d)) k = Some t"
proof -
  define d1 where "d1 = snd (seen_step mem_redis key w i rep d)"
  define d2 where "d2 = push_step mem_redis key w a d1"
  define d3 where "d3 = snd (count_step mem_redis key w d2)"
  have ttl3: "rttl d3 k = Some t"
    using ttl by (simp add: d1_def d2_def d3_def seen_step_ttl push_step_ttl count_step_ttl)
  have ex: "rexists d k"
    using ttl(1) all_liveD [OF store_okD(3) [OF ok], of k] by (metis live_def option.distinct(1))
  have ex3: "rexists d3 k"
    using ex by (auto simp: rexists_def d1_def d2_def d3_def step_mem next_seen_def Let_def MAX_SEEN_def
        drop_eq_Nil)
  have nums: "rnums d3 dedup = rnums d dedup"
    using keys by (auto simp: d1_def d2_def d3_def step_mem own_keys_def)
  have "max_of d3 dedup \<noteq> 0" if "k = dedup"
  proof -
    have "rnums d dedup \<noteq> None"
      using ex that num store_okD(4,5) [OF ok, of dedup] by (auto simp: rexists_def)
    then show ?thesis using store_okD(7) [OF ok, of dedup] by (auto simp: max_of_def nums)
  qed
  then have "rttl (dedup_step mem_redis dedup w v (max_of d3 dedup) d3) k = Some t"
    using ttl3 ttl(2) ex3 by (intro dedup_step_ttl) auto
  then show ?thesis
    using ttl by (simp add: correlate_lua_def Let_def case_prod_beta d1_def [symmetric] d2_def [symmetric]
        d3_def [symmetric] mem.get max_of_def seen_step_ttl) (simp add: d1_def seen_step_ttl)
qed

text \<open>A step touches its own keys only.\<close>

definition same_at :: "string \<Rightarrow> rdb \<Rightarrow> rdb \<Rightarrow> bool" where
  "same_at k d e \<longleftrightarrow> rlists e k = rlists d k \<and> rzsets e k = rzsets d k \<and> rnums e k = rnums d k \<and>
     rttl e k = rttl d k"

lemma same_at_trans: "same_at k d e \<Longrightarrow> same_at k e f \<Longrightarrow> same_at k d f"
  by (simp add: same_at_def)

lemma same_at_refl [simp]: "same_at k d d"
  by (simp add: same_at_def)

lemma expire_same: "k \<noteq> j \<Longrightarrow> same_at k d (expire_if_unset mem_redis j w d)"
  by (simp add: same_at_def expire_if_unset_def mem_redis_def)

lemma seen_step_same: "k \<noteq> seen_key key \<Longrightarrow> same_at k d (snd (seen_step mem_redis key w i rep d))"
  by (auto simp: seen_step_def Let_def mem_redis_def expire_if_unset_def same_at_def rttl_reap)

lemma push_step_same: "k \<noteq> key \<Longrightarrow> same_at k d (push_step mem_redis key w a d)"
  by (auto simp: push_step_def mem_redis_def expire_if_unset_def same_at_def rttl_reap)

lemma count_step_same: "k \<noteq> count_key key \<Longrightarrow> same_at k d (snd (count_step mem_redis key w d))"
  by (auto simp: count_step_def Let_def mem_redis_def expire_if_unset_def same_at_def)

lemma dedup_step_same: "k \<noteq> dd \<Longrightarrow> same_at k d (dedup_step mem_redis dd w v m d)"
  by (auto simp: dedup_step_def Let_def mem_redis_def same_at_def)

lemma correlate_same:
  assumes "k \<notin> {key, seen_key key, count_key key, dedup}"
  shows "same_at k d (snd (correlate_lua mem_redis key dedup a w v i rep d))"
proof -
  define d1 where "d1 = snd (seen_step mem_redis key w i rep d)"
  define d2 where "d2 = push_step mem_redis key w a d1"
  define d3 where "d3 = snd (count_step mem_redis key w d2)"
  have 1: "same_at k d d1" using assms by (simp add: d1_def seen_step_same)
  have 2: "same_at k d1 d2" using assms by (simp add: d2_def push_step_same)
  have 3: "same_at k d2 d3" using assms by (simp add: d3_def count_step_same)
  have 4: "same_at k d3 (dedup_step mem_redis dedup w v (max_of d3 dedup) d3)"
    using assms by (simp add: dedup_step_same)
  from 1 2 3 4 have "same_at k d (dedup_step mem_redis dedup w v (max_of d3 dedup) d3)"
    using same_at_trans by blast
  with 1 show ?thesis
    by (simp add: correlate_lua_def Let_def case_prod_beta d1_def [symmetric] d2_def [symmetric]
        d3_def [symmetric] mem.get max_of_def)
qed

lemma rollback_same:
  assumes "k \<notin> {key, seen_key key, count_key key, dedup}"
  shows "same_at k d (rollback_lua mem_redis key dedup a i d)"
  using assms by (auto simp: rollback_lua_def Let_def mem_redis_def same_at_def rttl_reap split: option.splits)

lemma braced_split:
  assumes "''{'' @ b @ ''}'' @ r = ''{'' @ c @ ''}'' @ q" "CHR ''}'' \<notin> set b" "CHR ''}'' \<notin> set c"
  shows "b = c"
proof -
  have "takeWhile (\<lambda>x. x \<noteq> CHR ''}'') (b @ ''}'' @ r) = b" "takeWhile (\<lambda>x. x \<noteq> CHR ''}'') (c @ ''}'' @ q) = c"
    using assms(2,3) by (auto simp: takeWhile_append2 takeWhile_tail takeWhile_eq_all_conv)
  with assms(1) show ?thesis by simp
qed

definition tagged :: "string \<Rightarrow> string \<Rightarrow> string" where
  "tagged ip rest = ''{'' @ ip @ ''}'' @ rest"

lemma tagged_keys:
  "alerts_key ip = tagged ip '':alerts''" "seen_key (alerts_key ip) = tagged ip '':alerts:seen''"
  "count_key (alerts_key ip) = tagged ip '':alerts:cnt''" "dedup_key ip t = tagged ip ('':dedup:'' @ t)"
  by (simp_all add: tagged_def alerts_key_def seen_key_def count_key_def dedup_key_def)

lemma tagged_other:
  assumes "b \<noteq> ip" "CHR ''}'' \<notin> set b" "CHR ''}'' \<notin> set ip"
  shows "tagged b rest \<notin> {alerts_key ip, seen_key (alerts_key ip), count_key (alerts_key ip), dedup_key ip t}"
  using assms braced_split [of b _ ip]
  by (auto simp: tagged_def seen_key_def count_key_def alerts_key_def dedup_key_def)

text \<open>Taking a fresh alert back. What remains is the deleted severity tracker.\<close>

lemma correlate_ttl_other:
  assumes ttl: "rttl d k = Some t" "0 \<le> t" and "k \<noteq> dedup"
  shows "rttl (snd (correlate_lua mem_redis key dedup a w v i rep d)) k = Some t"
proof -
  define d1 where "d1 = snd (seen_step mem_redis key w i rep d)"
  define d3 where "d3 = snd (count_step mem_redis key w (push_step mem_redis key w a d1))"
  have 1: "rttl d1 k = Some t" using ttl by (simp add: d1_def seen_step_ttl)
  then have "rttl d3 k = Some t" using ttl(2) by (simp add: d3_def push_step_ttl count_step_ttl)
  then have "rttl (dedup_step mem_redis dedup w v m d3) k = Some t" for m
    using dedup_step_same [OF assms(3), of d3 w v m] by (simp add: same_at_def)
  with 1 show ?thesis
    by (simp add: correlate_lua_def Let_def case_prod_beta d1_def [symmetric] d3_def [symmetric])
qed

definition shrinks :: "rdb \<Rightarrow> rdb \<Rightarrow> bool" where
  "shrinks d e \<longleftrightarrow> (\<forall>k. rexists e k \<longrightarrow> rexists d k \<and> rttl e k = rttl d k)"

lemma shrinks_refl: "shrinks d d"
  and shrinks_trans: "shrinks d e \<Longrightarrow> shrinks e f \<Longrightarrow> shrinks d f"
  by (auto simp: shrinks_def)

lemma zrem_shrinks: "shrinks d (r_zrem mem_redis k i d)"
  by (auto simp: shrinks_def mem_redis_def rttl_reap rexists_def zrem_list_def split: if_splits)

lemma lrem_shrinks: "shrinks d (snd (r_lrem1 mem_redis k a d))"
  by (auto simp: shrinks_def mem_redis_def rttl_reap rexists_def split: if_splits)

lemma del_shrinks: "shrinks d (r_del mem_redis k d)"
  by (auto simp: shrinks_def mem_redis_def rexists_def split: if_splits)

lemma decr_shrinks: "rnums d k \<noteq> None \<Longrightarrow> shrinks d (r_decr mem_redis k d)"
  by (auto simp: shrinks_def mem_redis_def rexists_def split: if_splits)

lemma rollback_shrinks: "shrinks d (rollback_lua mem_redis key dedup a i d)"
proof -
  define s1 where "s1 = (if i \<noteq> [] then r_zrem mem_redis (seen_key key) i d else d)"
  define t where "t = snd (r_lrem1 mem_redis key a s1)"
  have t: "shrinks d t"
    using shrinks_trans [OF zrem_shrinks lrem_shrinks] lrem_shrinks by (simp add: t_def s1_def)
  show ?thesis
    using t by (auto simp: rollback_lua_def Let_def case_prod_beta t_def [symmetric] s1_def [symmetric]
        mem.get split: option.splits intro!: shrinks_trans [OF t] shrinks_trans [OF _ del_shrinks]
        shrinks_refl decr_shrinks del_shrinks)
qed

lemma rollback_ttl:
  assumes "rttl d k = Some t" "rexists (rollback_lua mem_redis key dedup a i d) k"
  shows "rttl (rollback_lua mem_redis key dedup a i d) k = Some t"
  using assms rollback_shrinks [of d key dedup a i] by (simp add: shrinks_def)

definition without_dedup :: "string \<Rightarrow> rdb \<Rightarrow> rdb" where
  "without_dedup dd d = d\<lparr>rnums := (rnums d)(dd := None), rttl := (rttl d)(dd := None)\<rparr>"

lemma rdb_eqI:
  fixes d e :: rdb
  assumes "rlists d = rlists e" "rzsets d = rzsets e" "rnums d = rnums e"
    and live: "all_live d" "all_live e"
    and ttl: "\<And>k t. rttl e k = Some t \<Longrightarrow> rexists d k \<Longrightarrow> rttl d k = Some t"
  shows "d = e"
proof -
  have ex: "rexists d k = rexists e k" for k using assms(1-3) by (simp add: rexists_def)
  have "rttl d k = rttl e k" for k
  proof (cases "rttl e k")
    case None
    then show ?thesis using all_liveD [OF live(1), of k] all_liveD [OF live(2), of k] ex [of k]
      by (simp add: live_def)
  next
    case (Some t)
    then have "rexists d k" using all_liveD [OF live(2), of k] ex [of k] by (simp add: live_def)
    with Some ttl show ?thesis by simp
  qed
  then have "rttl d = rttl e" by (rule ext)
  with assms(1-3) show ?thesis by simp
qed

lemma next_seen_fresh:
  assumes "i \<notin> snd ` set z" "length z < MAX_SEEN"
  shows "next_seen i z = zins (int (length z), i) z"
  using assms by (simp add: next_seen_def Let_def zrem_list_absent)

lemma rollback_undoes_mem:
  fixes ip t
  defines "key \<equiv> alerts_key ip" and "dd \<equiv> dedup_key ip (safe_threat t)"
  assumes ok: "store_ok d" and fresh: "zscore_list i (rzsets d (seen_key key)) = None"
    and room: "length (rlists d key) < 100" "length (rzsets d (seen_key key)) < MAX_SEEN"
    and w: "0 \<le> w" "1 \<le> v"
  shows "rollback_lua mem_redis key dd a i (snd (correlate_lua mem_redis key dd a w v i rep d)) =
    without_dedup dd d"
proof -
  define d1 where "d1 = snd (correlate_lua mem_redis key dd a w v i rep d)"
  have new: "\<not> seen_before key i rep d" using fresh by (simp add: seen_before_def)
  have ok1: "store_ok d1" using ok w unfolding d1_def key_def dd_def by (intro store_ok_correlate)
  note r = correlate_mem(2-4) [OF own_keys_ip [of ip "safe_threat t", folded key_def dd_def] new,
      where a = a and w = w and v = v, folded d1_def]
  note b = rollback_collections_ok [where ip = ip, OF ok1, folded key_def] rollback_rnums
  have list: "rlists d1 key = a # rlists d key" using room(1) by (simp add: r(1) take_all)
  have z: "rzsets d1 = (if i = [] then rzsets d
      else (rzsets d)(seen_key key := zins (int (length (rzsets d (seen_key key))), i) (rzsets d (seen_key key))))"
    using fresh room(2) unfolding r by (simp add: next_seen_fresh zscore_None_iff)
  have dd: "dd \<noteq> key" "dd \<noteq> seen_key key" "dd \<noteq> count_key key"
    using own_keys_ip [of ip "safe_threat t"] by (simp_all add: own_keys_def key_def dd_def)
  have num: "num_key dd" by (simp add: dd_def)
  have none: "rlists d dd = []" "rzsets d dd = []"
    using store_okD(4,5) [OF ok, of dd] num_key_only [OF num] by simp_all
  have 1: "rlists (rollback_lua mem_redis key dd a i d1) = rlists (without_dedup dd d)"
    using dd none room(1) by (auto simp: b(1) r(1) fun_eq_iff without_dedup_def)
  have 2: "rzsets (rollback_lua mem_redis key dd a i d1) = rzsets (without_dedup dd d)"
    using dd none fresh by (auto simp: b(2) z fun_eq_iff without_dedup_def zrem_zins zscore_None_iff)
  have cnt: "count_of d1 key = count_of d key + 1"
    using dd by (auto simp: r(3) count_of_def)
  have 3: "rnums (rollback_lua mem_redis key dd a i d1) = rnums (without_dedup dd d)"
    using dd store_okD(7) [OF ok, of "count_key key"]
    by (auto simp: b(3) list cnt r(3) fun_eq_iff without_dedup_def count_of_def split: option.splits)
  show ?thesis
    unfolding d1_def [symmetric]
  proof (rule rdb_eqI [OF 1 2 3])
    show "all_live (rollback_lua mem_redis key dd a i d1)"
      using store_okD(3) [OF ok1] by (rule rollback_live)
    show "all_live (without_dedup dd d)"
      using store_okD(3) [OF ok] none by (auto simp: without_dedup_def all_live_def live_def rexists_def)
    fix k t
    assume "rttl (without_dedup dd d) k = Some t" "rexists (rollback_lua mem_redis key dd a i d1) k"
    then have k: "k \<noteq> dd" "rttl d k = Some t" "rexists (rollback_lua mem_redis key dd a i d1) k"
      by (auto simp: without_dedup_def split: if_splits)
    then have "rttl d1 k = Some t"
      unfolding d1_def using live_ttl [OF all_liveD [OF store_okD(3) [OF ok]]]
      by (intro correlate_ttl_other) auto
    then show "rttl (rollback_lua mem_redis key dd a i d1) k = Some t"
      using k by (intro rollback_ttl) auto
  qed
qed

text \<open>Rolling back what is not there changes nothing.\<close>

lemma store_ok_without:
  assumes "store_ok d" "num_key dd"
  shows "store_ok (without_dedup dd d)"
proof -
  have "rlists d dd = []" "rzsets d dd = []" using store_okD(4,5) [OF assms(1)] num_key_only [OF assms(2)] by simp_all
  then have "all_live (without_dedup dd d)"
    using store_okD(3) [OF assms(1)] by (auto simp: without_dedup_def all_live_def live_def rexists_def)
  then show ?thesis using assms(1) by (auto simp: store_ok_def all_live_def without_dedup_def)
qed

lemma rollback_idle_mem:
  fixes ip t
  defines "key \<equiv> alerts_key ip" and "dd \<equiv> dedup_key ip (safe_threat t)"
  assumes ok: "store_ok d" and fresh: "zscore_list i (rzsets d (seen_key key)) = None" "a \<notin> set (rlists d key)"
  shows "rollback_lua mem_redis key dd a i (without_dedup dd d) = without_dedup dd d"
proof -
  let ?d = "without_dedup dd d"
  have num: "num_key dd" by (simp add: dd_def)
  have ok1: "store_ok ?d" by (rule store_ok_without [OF ok num])
  note b = rollback_collections_ok [where ip = ip, OF ok1, folded key_def] rollback_rnums
  have none: "rlists d dd = []" "rzsets d dd = []"
    using store_okD(4,5) [OF ok, of dd] num_key_only [OF num] by simp_all
  show ?thesis
  proof (rule rdb_eqI)
    show "rlists (rollback_lua mem_redis key dd a i ?d) = rlists ?d"
      using none fresh(2) unfolding b(1) by (simp add: without_dedup_def remove1_idem fun_eq_iff)
    show "rzsets (rollback_lua mem_redis key dd a i ?d) = rzsets ?d"
      using none fresh(1) unfolding b(2) by (simp add: without_dedup_def zscore_None_iff zrem_list_absent fun_eq_iff)
    show "rnums (rollback_lua mem_redis key dd a i ?d) = rnums ?d"
      using fresh(2) unfolding b(3) by (simp add: without_dedup_def)
    show "all_live (rollback_lua mem_redis key dd a i ?d)" using store_okD(3) [OF ok1] by (rule rollback_live)
    show "all_live ?d" by (rule store_okD(3) [OF ok1])
    show "rttl (rollback_lua mem_redis key dd a i ?d) k = Some t"
      if "rttl ?d k = Some t" "rexists (rollback_lua mem_redis key dd a i ?d) k" for k t
      using that by (rule rollback_ttl)
  qed
qed

section \<open>A stream of alerts from one source\<close>

text \<open>A stream of alerts of the source \<open>ip\<close>: each with its own threat class, and so its own severity
  key. Keys do not expire between the calls: the stream lies within one window.\<close>

definition feed_alerts :: "'s redis_ops \<Rightarrow> string \<Rightarrow> (string \<times> obj \<times> int \<times> string) list \<Rightarrow> 's \<Rightarrow> 's" where
  "feed_alerts R ip ms s =
     foldl (\<lambda>s m. case m of (t, a, v, i) \<Rightarrow>
       snd (correlate_lua R (alerts_key ip) (dedup_key ip t) a time_window_sec v i False s)) s ms"





context redis begin

lemma feed_view:
  "view (feed_alerts R ip ms s) = feed_alerts mem_redis ip ms (view s)"
  by (induction ms arbitrary: s) (auto simp: feed_alerts_def correlate_view)

end

section \<open>The incident\<close>

definition sev_rank_of :: "py_repr \<Rightarrow> pyval \<Rightarrow> int" where
  "sev_rank_of rp v = dget_or sev_weights (py_lower (py_str rp v)) 25"

lemma py_addD: "py_add x xs = Inr ys \<Longrightarrow> y \<in> set xs \<Longrightarrow> y \<in> set ys"
  by (auto simp: py_add_def split: if_splits)

text \<open>Absorbing an alert appends it, forgets no entity and does not lower the severity.\<close>

definition grows :: "py_repr \<Rightarrow> evidence \<Rightarrow> evidence \<Rightarrow> bool" where
  "grows rp v v' \<longleftrightarrow> set (ev_entities v) \<subseteq> set (ev_entities v') \<and>
     sev_rank_of rp (ev_max_sev v) \<le> sev_rank_of rp (ev_max_sev v')"

lemma grows_refl [simp]: "grows rp v v"
  and grows_trans: "grows rp v v' \<Longrightarrow> grows rp v' v'' \<Longrightarrow> grows rp v v''"
  by (auto simp: grows_def)

lemma add_related_grows: "grows rp v (add_related a v)" "ev_alerts (add_related a v) = ev_alerts v"
  by (simp_all add: grows_def add_related_def Let_def)

lemma raise_max_sev_grows: "grows rp v (raise_max_sev rp a v)" "ev_alerts (raise_max_sev rp a v) = ev_alerts v"
  by (simp_all add: grows_def raise_max_sev_def Let_def sev_rank_of_def)

lemma add_grows:
  "add_threat a v = Inr v1 \<Longrightarrow> grows rp v v1 \<and> ev_alerts v1 = ev_alerts v"
  "add_entity a v = Inr v1 \<Longrightarrow> grows rp v v1 \<and> ev_alerts v1 = ev_alerts v"
  "add_tactic a v = Inr v1 \<Longrightarrow> grows rp v v1 \<and> ev_alerts v1 = ev_alerts v"
  by (auto simp: add_threat_def add_entity_def add_tactic_def grows_def Let_def result_simps
      intro: py_addD split: if_splits)

lemma absorb_grows: "grows rp v (absorb_alert rp v a)" "ev_alerts (absorb_alert rp v a) = ev_alerts v @ [a]"
proof -
  define v1 where "v1 = v\<lparr>ev_alerts := ev_alerts v @ [a]\<rparr>"
  have v1: "grows rp v v1" "ev_alerts v1 = ev_alerts v @ [a]" by (simp_all add: v1_def grows_def)
  have "grows rp v1 (absorb_alert rp v a) \<and> ev_alerts (absorb_alert rp v a) = ev_alerts v1"
    by (auto simp: absorb_alert_def v1_def [symmetric] Let_def add_related_grows raise_max_sev_grows
        split: sum.split dest!: add_grows [where rp = rp]
        intro: grows_trans [OF _ add_related_grows(1)] grows_trans [OF _ raise_max_sev_grows(1)] grows_trans)
  with v1 grows_trans show "grows rp v (absorb_alert rp v a)" "ev_alerts (absorb_alert rp v a) = ev_alerts v @ [a]"
    by auto
qed

lemma foldl_absorb:
  "grows rp v (foldl (absorb_alert rp) v as) \<and> ev_alerts (foldl (absorb_alert rp) v as) = ev_alerts v @ as"
proof (induction as arbitrary: v)
  case (Cons a as)
  from Cons.IH [of "absorb_alert rp v a"] absorb_grows [of rp v a] show ?case
    using grows_trans by auto
qed simp

lemma gather_evidence_facts:
  fixes rp src alert raws
  defines "v \<equiv> gather_evidence rp src alert raws"
  shows "PStr src \<in> set (ev_entities v)"
    and "ev_alerts v = (if raws = [] then [alert] else raws)"
    and "sev_rank_of rp (dget_or alert ''severity'' (PStr ''high'')) \<le> sev_rank_of rp (ev_max_sev v)"
    and "oget alert ''alert_id'' = PStr x \<Longrightarrow> x \<noteq> [] \<Longrightarrow> PStr x \<in> set (ev_related v)"
proof -
  define v0 where "v0 = \<lparr>ev_threats = [], ev_entities = [PStr src], ev_related = [], ev_tactics = [],
    ev_alerts = [], ev_max_sev = dget_or alert ''severity'' (PStr ''high'')\<rparr>"
  define w where "w = foldl (absorb_alert rp) v0 raws"
  have w: "grows rp v0 w" "ev_alerts w = raws"
    using foldl_absorb [of rp v0 raws] by (simp_all add: w_def v0_def)
  have v: "ev_entities v = ev_entities w" "ev_max_sev v = ev_max_sev w"
    "ev_alerts v = (if raws = [] then [alert] else raws)"
    using w(2) unfolding v_def gather_evidence_def v0_def [symmetric] w_def [symmetric]
    by (auto simp: Let_def add_related_def)
  show "PStr src \<in> set (ev_entities v)"
    "sev_rank_of rp (dget_or alert ''severity'' (PStr ''high'')) \<le> sev_rank_of rp (ev_max_sev v)"
    using w(1) by (auto simp: v grows_def v0_def)
  show "ev_alerts v = (if raws = [] then [alert] else raws)" by (rule v(3))
  show "PStr x \<in> set (ev_related v)" if "oget alert ''alert_id'' = PStr x" "x \<noteq> []"
    using that by (auto simp: v_def gather_evidence_def Let_def add_related_def)
qed

lemma build_incident_fields:
  assumes "build_incident e src alert v = Inr inc"
  obtains r names where "calculate_risk_score (ev_alerts v) = Inr r"
    "dget inc ''source_ip'' = Some (PStr src)"
    "dget inc ''affected_entities'' = Some (PList (e_so e (ev_entities v)))"
    "dget inc ''highest_risk'' = Some (PFloat (Fin r))"
    "dget inc ''risk_score'' = Some (PFloat (Fin r))"
    "dget inc ''severity'' = Some (ev_max_sev v)"
    "dget inc ''related_alert_ids'' = Some (PList (ev_related v))"
    "join_strs '', '' (e_so e (ev_threats v)) = Inr names"
  using assms by (auto simp: build_incident_def Let_def result_simps)

lemma add_alert_incident:
  assumes "fst (add_alert R e alert c) = Inr (Some inc)"
  obtains src cnt snap s where "source_key (e_repr e) alert = Some src" "e_lua e = LuaRan"
    "run_correlate R e src alert (c_store c) = ((cnt, 1, snap), s)"
    "build_incident e src alert (gather_evidence (e_repr e) src alert snap) = Inr inc"
proof -
  obtain ok c1 where chk: "check_redis_master e c = (ok, c1)" by (cases "check_redis_master e c")
  then have st: "c_store c1 = c_store c" using check_redis_master_store [of e c] by simp
  from assms chk have ok: "ok = Inr True"
    by (auto simp: add_alert_def split: sum.splits bool.splits)
  obtain src where src: "source_key (e_repr e) alert = Some src"
    using assms chk ok by (auto simp: add_alert_def split: option.splits)
  obtain cnt flag snap s where run: "run_correlate R e src alert (c_store c) = ((cnt, flag, snap), s)"
    by (metis prod.collapse)
  have lua: "e_lua e = LuaRan"
    using assms chk ok src run st by (cases "e_lua e") (auto simp: add_alert_def)
  then have "flag = 1 \<and> build_incident e src alert (gather_evidence (e_repr e) src alert snap) = Inr inc"
    using assms chk ok src run st
    by (cases "build_incident e src alert (gather_evidence (e_repr e) src alert snap)")
       (auto simp: add_alert_def split: if_splits)
  with src run lua show ?thesis using that by auto
qed

lemma seen_after_correlate:
  assumes "i \<noteq> []" "own_keys key dedup" "length (rzsets d (seen_key key)) < MAX_SEEN"
  shows "seen_before key i False (snd (correlate_lua mem_redis key dedup a w v i False d))"
proof (cases "seen_before key i False d")
  case True
  then show ?thesis by (simp add: correlate_seen)
next
  case False
  then have "i \<notin> snd ` set (rzsets d (seen_key key))"
    using assms(1) by (simp add: seen_before_def zscore_None_iff)
  then show ?thesis
    using assms correlate_mem(3) [OF assms(2) False, of a w v]
    by (simp add: seen_before_def zscore_None_iff next_seen_fresh)
qed

lemma store_ok_empty: "store_ok empty_rdb"
  by (simp add: store_ok_def empty_rdb_def live_def rexists_def)


text \<open>A concrete alert and surroundings, for the instances below.\<close>

definition sample_alert :: obj where
  "sample_alert = [(''alert_id'', PStr ''ALT-1''), (''source_ip'', PStr '' 10.0.0.7''),
     (''threat_class'', PStr ''DDoS / Volumetric''), (''severity'', PStr ''high'')]"

definition sample_env :: corr_env where
  "sample_env = \<lparr>e_now = 100, e_info = Inr [(''role'', PStr ''master'')], e_lua = LuaRan, e_after = 101,
     e_uuid = ''0A1B2C3D'', e_so = (\<lambda>xs. xs), e_repr = (\<lambda>_. ''?'')\<rparr>"

lemma sample_source: "source_key rp sample_alert = Some ''10.0.0.7''"
proof -
  have ip: "join ''.'' (map str_of_nat [10, 0, 0, 7]) = ''10.0.0.7''"
    by code_simp
  have strip: "py_strip (py_str rp (dget_or sample_alert ''source_ip'' (PStr ''127.0.0.1''))) = ''10.0.0.7''"
    by code_simp
  show ?thesis
    using ip_address_dotted [of 10 0 0 7] str_v4_dotted [of 10 0 0 7]
    by (simp add: source_key_def strip ip del: list.map)
qed

section \<open>Properties\<close>

text \<open>C17. Whatever Redis service runs the script, an alert that is not dropped as seen is answered
  with the count of its source raised by one; an incident is due from the second alert on when
  no severity is on record, when the severity rises, at the second alert, and at every fifth one,
  and only then are the newest hundred alerts of the source returned as evidence.\<close>

theorem correlate_answer:
  assumes "redis R view" and "\<not> seen_before (alerts_key ip) i rep (view s)"
  shows "fst (correlate_lua R (alerts_key ip) (dedup_key ip t) a w v i rep s) =
    (let n = count_of (view s) (alerts_key ip) + 1; m = max_of (view s) (dedup_key ip t);
         due = (2 \<le> n \<and> (m = 0 \<or> v > m \<or> n = 2 \<or> n mod 5 = 0))
     in (n, if due then 1 else 0, if due then take 100 (a # rlists (view s) (alerts_key ip)) else []))"
  using assms(2) redis.correlate_view(1) [OF assms(1)] correlate_mem(1) [OF own_keys_ip assms(2)]
  by (auto simp: incident_due_def Let_def)

theorem correlate_answer_witness:
  "fst (correlate_lua mem_redis (alerts_key ''10.0.0.7'') (dedup_key ''10.0.0.7'' ''DDoS'') sample_alert 300 75
     ''ALT-1'' False empty_rdb) = (1, 0, [])"
  using correlate_answer [OF mem.redis_axioms, of "''10.0.0.7''" "''ALT-1''" False empty_rdb "''DDoS''" sample_alert 300 75]
  by (simp add: seen_before_def empty_rdb_def zscore_list_def count_of_def max_of_def Let_def)

text \<open>Replay defence: sending an alert a second time within its window is answered with no
  count and no incident and leaves the store as it is, as long as the record of seen ids has
  room.\<close>

theorem replayed_alert_dropped:
  assumes "redis R view" and "i \<noteq> []" and "own_keys key dedup"
    and "length (rzsets (view s) (seen_key key)) < MAX_SEEN"
    and "s1 = snd (correlate_lua R key dedup a w v i False s)"
    and "correlate_lua R key dedup a' w' v' i False s1 = (answer, s2)"
  shows "answer = (0, 0, []) \<and> view s2 = view s1"
proof -
  have seen: "seen_before key i False (view s1)"
    using assms(2-4) unfolding assms(5) redis.correlate_view(2) [OF assms(1)]
    by (intro seen_after_correlate)
  show ?thesis
    using redis.correlate_view [OF assms(1), of key dedup a' w' v' i False s1] assms(6)
      correlate_seen [OF seen, of dedup a' w' v'] by simp
qed

theorem replayed_alert_dropped_witness:
  "fst (correlate_lua mem_redis ''k'' ''d'' [] 300 75 ''ALT-1'' False
     (snd (correlate_lua mem_redis ''k'' ''d'' sample_alert 300 75 ''ALT-1'' False empty_rdb))) = (0, 0, [])"
  using replayed_alert_dropped [OF mem.redis_axioms, of "''ALT-1''" "''k''" "''d''" empty_rdb _ sample_alert 300 75 "[]" 300 75,
    OF _ _ _ refl prod.collapse [symmetric]]
  by (simp add: own_keys_def seen_key_def count_key_def empty_rdb_def MAX_SEEN_def)



text \<open>C32. Whatever sequence of \<open>add_alert\<close> and \<open>rollback_alert_seen\<close> calls is made, in any order and
  with any outcome of the Redis calls: no evidence list exceeds 100 alerts, no record of seen ids
  exceeds 5000, and every key the correlator leaves in Redis has an expiry.\<close>

theorem correlator_store_bounded:
  assumes "redis R view" and "view (c_store c) = empty_rdb"
  shows "let d = view (c_store (foldl (corr_step R) c calls)) in
    length (rlists d k) \<le> 100 \<and> length (rzsets d k) \<le> 5000 \<and>
    (rexists d k \<longleftrightarrow> rttl d k \<noteq> None) \<and> (\<forall>n. rnums d k = Some n \<longrightarrow> 1 \<le> n)"
proof -
  have "store_ok (view (c_store (foldl (corr_step R) c calls)))"
    by (rule redis.calls_ok [OF assms(1)]) (simp add: assms(2) store_ok_empty)
  from store_okD(1,2,7) [OF this, of k] all_liveD [OF store_okD(3) [OF this], of k]
  show ?thesis by (auto simp: Let_def MAX_SEEN_def live_def)
qed

theorem correlator_store_bounded_witness:
  "length (rlists (c_store (foldl (corr_step mem_redis) \<lparr>c_store = empty_rdb, c_last_check = 0\<rparr>
     [AddAlert sample_env sample_alert, RollBack sample_env sample_alert])) ''k'') \<le> 100"
  using correlator_store_bounded [OF mem.redis_axioms, of "\<lparr>c_store = empty_rdb, c_last_check = 0\<rparr>"
      "[AddAlert sample_env sample_alert, RollBack sample_env sample_alert]" "''k''"]
  by (simp add: Let_def)

text \<open>The correlation window does not extend: once a list, a record, a counter or a severity
  tracker of a source carries an expiry, no later alert of any source moves it.\<close>

theorem window_not_extended:
  assumes "redis R view" and "store_ok (view (c_store c))"
    and "rttl (view (c_store c)) k = Some t" and "0 < t"
  shows "rttl (view (c_store (snd (add_alert R e alert c)))) k = Some t"
proof -
  have "rttl (snd (correlate_lua mem_redis (alerts_key src) (dedup_key src (safe_threat th)) a w v i rep
      (view (c_store c)))) k = Some t" for src th a w v i rep
    using assms(2-4) by (intro correlate_ttl own_keys_ip) (simp_all add: num_key_only)
  then show ?thesis
    using add_alert_store [of R e alert c] assms(3)
    by (auto simp: run_correlate_def redis.correlate_view [OF assms(1)])
qed

theorem window_not_extended_witness:
  "rttl (c_store (snd (add_alert mem_redis sample_env sample_alert
     \<lparr>c_store = empty_rdb\<lparr>rlists := (\<lambda>_. [])(''{10.0.0.7}:alerts'' := [[]]), rttl := (\<lambda>_. None)(''{10.0.0.7}:alerts'' \<mapsto> 17)\<rparr>,
      c_last_check = 0\<rparr>))) ''{10.0.0.7}:alerts'' = Some 17"
  by (rule window_not_extended [OF mem.redis_axioms])
     (auto simp: store_ok_def live_def rexists_def empty_rdb_def list_key_def)

text \<open>Sources do not interfere: correlating or rolling back an alert changes no key of another
  source, as long as no address carries a closing brace (no IPv4 address does).\<close>

theorem sources_isolated:
  assumes "redis R view" and "source_key (e_repr e) alert = Some src"
    and "b \<noteq> src" "CHR ''}'' \<notin> set b" "CHR ''}'' \<notin> set src"
  shows "same_at (tagged b rest) (view (c_store c)) (view (c_store (snd (add_alert R e alert c)))) \<and>
    same_at (tagged b rest) (view (c_store c)) (view (c_store (rollback_alert_seen R e alert c)))"
proof
  note other = tagged_other [OF assms(3-5)]
  show "same_at (tagged b rest) (view (c_store c)) (view (c_store (snd (add_alert R e alert c))))"
    using add_alert_store [of R e alert c] assms(2) correlate_same [OF other]
    by (auto simp: run_correlate_def redis.correlate_view [OF assms(1)])
  have "str_ip a = src" if "ip_address (py_strip (py_str (e_repr e)
      (dget_or alert ''source_ip'' (PStr ''127.0.0.1'')))) = Some a" for a
    using that assms(2) by (simp add: source_key_def split: if_splits)
  then show "same_at (tagged b rest) (view (c_store c)) (view (c_store (rollback_alert_seen R e alert c)))"
    using rollback_same [OF other]
    by (auto simp: rollback_alert_seen_def redis.rollback_view [OF assms(1)] split: option.split)
qed

theorem sources_isolated_witness:
  "same_at (tagged ''10.0.0.8'' '':alerts'') empty_rdb
     (c_store (snd (add_alert mem_redis sample_env sample_alert \<lparr>c_store = empty_rdb, c_last_check = 0\<rparr>)))"
  using sources_isolated [OF mem.redis_axioms, of sample_env sample_alert "''10.0.0.7''" "''10.0.0.8''" "'':alerts''"
      "\<lparr>c_store = empty_rdb, c_last_check = 0\<rparr>"]
  by (simp add: sample_source)

text \<open>Rolling back a fresh alert.\<close>

lemma rollback_restores:
  assumes "redis R view" and "store_ok (view (c_store c))"
    and "source_key (e_repr e) alert = Some src" and "e_lua e = LuaRan" and "e_lua e' \<noteq> LuaFailed"
    and "e_repr e' = e_repr e" and "fst (check_redis_master e c) = Inr True"
    and "py_str (e_repr e) (dget_or alert ''alert_id'' (PStr [])) = i" and "py_strip i = i"
    and "zscore_list i (rzsets (view (c_store c)) (seen_key (alerts_key src))) = None"
    and "length (rlists (view (c_store c)) (alerts_key src)) < 100"
    and "length (rzsets (view (c_store c)) (seen_key (alerts_key src))) < 5000"
  shows "view (c_store (rollback_alert_seen R e' alert (snd (add_alert R e alert c)))) =
    without_dedup (dedup_key src (safe_threat (alert_threat (e_repr e) alert))) (view (c_store c))"
proof -
  obtain a where a: "ip_address (py_strip (py_str (e_repr e) (dget_or alert ''source_ip'' (PStr ''127.0.0.1'')))) = Some a"
    "str_ip a = src"
    using assms(3) by (auto simp: source_key_def split: option.splits if_splits)
  obtain c1 where c1: "check_redis_master e c = (Inr True, c1)" "c_store c1 = c_store c"
    using assms(7) check_redis_master_store [of e c] by (cases "check_redis_master e c") auto
  have add: "c_store (snd (add_alert R e alert c)) = snd (run_correlate R e src alert (c_store c))"
    using assms(3,4) c1 by (simp add: add_alert_def case_prod_beta)
  have sev: "1 \<le> sev_score (e_repr e) alert" "0 \<le> time_window_sec"
    using sev_score_range [of "e_repr e" alert] by (auto simp: time_window_sec_def)
  have undo: "c_store (rollback_alert_seen R e' alert c2) = rollback_lua R (alerts_key src)
      (dedup_key src (safe_threat (alert_threat (e_repr e) alert))) alert i (c_store c2)" for c2 :: "'a correlator"
    using a assms(5,6,8,9) by (simp add: rollback_alert_seen_def)
  show ?thesis
    unfolding undo add redis.rollback_view [OF assms(1)]
    using rollback_undoes_mem [OF assms(2), of i src, OF assms(10,11) _ sev(2,1)] assms(12)
    by (simp add: run_correlate_def redis.correlate_view(2) [OF assms(1)] assms(8) MAX_SEEN_def)
qed

text \<open>A second rollback of the same alert, whether it runs or fails, leaves the store as the first did.\<close>

lemma second_rollback:
  assumes "redis R view" and "store_ok (view (c_store c))" and "source_key (e_repr e) alert = Some src"
    and "py_str (e_repr e) (dget_or alert ''alert_id'' (PStr [])) = i" and "py_strip i = i"
    and "zscore_list i (rzsets (view (c_store c)) (seen_key (alerts_key src))) = None"
    and "alert \<notin> set (rlists (view (c_store c)) (alerts_key src))"
    and "view (c_store c1) = without_dedup (dedup_key src (safe_threat (alert_threat (e_repr e) alert))) (view (c_store c))"
  shows "view (c_store (rollback_alert_seen R e alert c1)) = view (c_store c1)"
proof -
  obtain a where a: "ip_address (py_strip (py_str (e_repr e) (dget_or alert ''source_ip'' (PStr ''127.0.0.1'')))) = Some a"
    "str_ip a = src"
    using assms(3) by (auto simp: source_key_def split: option.splits if_splits)
  have "c_store (rollback_alert_seen R e alert c1) = (if e_lua e = LuaFailed then c_store c1 else rollback_lua R (alerts_key src)
      (dedup_key src (safe_threat (alert_threat (e_repr e) alert))) alert i (c_store c1))"
    using a assms(4,5) by (simp add: rollback_alert_seen_def)
  then show ?thesis
    using rollback_idle_mem [OF assms(2,6,7)] by (simp add: redis.rollback_view [OF assms(1)] assms(8))
qed

text \<open>C8. The compensating transaction: when the incident of a fresh alert cannot be published,
  rolling the alert back puts the store back exactly as it was before, except that the severity
  tracker of the source and threat is cleared. The id must be one that \<open>strip\<close> leaves alone, and
  the list and the record must have had room.\<close>

theorem rollback_undoes_alert:
  assumes "redis R view" and "store_ok (view (c_store c))"
    and "source_key (e_repr e) alert = Some src" and "e_lua e = LuaRan" and "e_lua e' \<noteq> LuaFailed"
    and "e_repr e' = e_repr e" and "fst (check_redis_master e c) = Inr True"
    and "py_str (e_repr e) (dget_or alert ''alert_id'' (PStr [])) = i" and "py_strip i = i"
    and "zscore_list i (rzsets (view (c_store c)) (seen_key (alerts_key src))) = None"
    and "length (rlists (view (c_store c)) (alerts_key src)) < 100"
    and "length (rzsets (view (c_store c)) (seen_key (alerts_key src))) < 5000"
  shows "view (c_store (rollback_alert_seen R e' alert (snd (add_alert R e alert c)))) =
    without_dedup (dedup_key src (safe_threat (alert_threat (e_repr e) alert))) (view (c_store c))"
  using assms by (rule rollback_restores)

theorem rollback_undoes_alert_witness:
  "c_store (rollback_alert_seen mem_redis sample_env sample_alert
     (snd (add_alert mem_redis sample_env sample_alert \<lparr>c_store = empty_rdb, c_last_check = 0\<rparr>))) =
   without_dedup (dedup_key ''10.0.0.7'' (safe_threat (alert_threat (e_repr sample_env) sample_alert))) empty_rdb"
proof -
  have id: "py_strip ''ALT-1'' = ''ALT-1''" by code_simp
  show ?thesis
    using rollback_undoes_alert [OF mem.redis_axioms, of "\<lparr>c_store = empty_rdb, c_last_check = 0\<rparr>"
        sample_env sample_alert "''10.0.0.7''" sample_env "''ALT-1''"]
    by (simp add: sample_source store_ok_empty id)
       (simp add: sample_env_def sample_alert_def check_redis_master_def empty_rdb_def zscore_list_def)
qed

text \<open>What an incident says: it names the canonical source and lists it among the affected
  entities, its risk is the aggregated risk of the evidence alerts and lies between 10 and 100,
  its severity is not below that of the alert, and the alert's id is among the related ids.\<close>

theorem incident_contents:
  assumes "fst (add_alert R e alert c) = Inr (Some inc)"
    and "\<And>xs. set (e_so e xs) = set xs"
  shows "\<exists>src entities related r sv. source_key (e_repr e) alert = Some src \<and>
    dget inc ''source_ip'' = Some (PStr src) \<and>
    dget inc ''affected_entities'' = Some (PList entities) \<and> PStr src \<in> set entities \<and>
    dget inc ''highest_risk'' = Some (PFloat (Fin r)) \<and> 10 \<le> r \<and> r \<le> 100 \<and>
    dget inc ''severity'' = Some sv \<and>
    sev_rank_of (e_repr e) (dget_or alert ''severity'' (PStr ''high'')) \<le> sev_rank_of (e_repr e) sv \<and>
    dget inc ''related_alert_ids'' = Some (PList related) \<and>
    (\<forall>x. oget alert ''alert_id'' = PStr x \<and> x \<noteq> [] \<longrightarrow> PStr x \<in> set related)"
proof -
  obtain src cnt snap s where src: "source_key (e_repr e) alert = Some src"
    "build_incident e src alert (gather_evidence (e_repr e) src alert snap) = Inr inc"
    using assms(1) by (rule add_alert_incident)
  define v where "v = gather_evidence (e_repr e) src alert snap"
  note facts = gather_evidence_facts [where rp = "e_repr e" and src = src and alert = alert and raws = snap, folded v_def]
  obtain r where inc: "calculate_risk_score (ev_alerts v) = Inr r"
    "dget inc ''source_ip'' = Some (PStr src)"
    "dget inc ''affected_entities'' = Some (PList (e_so e (ev_entities v)))"
    "dget inc ''highest_risk'' = Some (PFloat (Fin r))" "dget inc ''severity'' = Some (ev_max_sev v)"
    "dget inc ''related_alert_ids'' = Some (PList (ev_related v))"
    using src(2) unfolding v_def [symmetric] by (rule build_incident_fields)
  have "ev_alerts v \<noteq> []" using facts(2) by simp
  then have "10 \<le> r \<and> r \<le> 100" using risk_score_range [OF inc(1)] by blast
  with src(1) inc facts assms(2) show ?thesis by auto
qed

text \<open>A threat class becomes a fragment of a Redis key only as one to 64 ASCII letters, digits
  and underscores, and an accepted IPv4 source only as its dotted form of at most 15 digits and
  dots: neither can close the hash tag or reach another key.\<close>

theorem key_fragments_safe:
  "set (safe_threat t) \<subseteq> {c. is_ascii_alnum c \<or> c = CHR ''_''} \<and> 1 \<le> length (safe_threat t) \<and>
   length (safe_threat t) \<le> 64 \<and>
   (ip_address raw = Some (V4 w) \<longrightarrow>
      length (str_ip (V4 w)) \<le> 15 \<and> set (str_ip (V4 w)) \<subseteq> {c. is_decimal c \<or> c = CHR ''.''} \<and>
      raw = str_ip (V4 w))"
  using safe_threat_chars [of t] safe_threat_length [of t] length_str_v4 [of w] str_v4_chars [of _ w]
    ip_address_V4 [of raw w] by (auto simp: Suc_le_eq)

theorem incident_contents_witness:
  "\<exists>inc sv. fst (add_alert mem_redis sample_env sample_alert
       \<lparr>c_store = empty_rdb\<lparr>rnums := [''{10.0.0.7}:alerts:cnt'' \<mapsto> 1]\<rparr>, c_last_check = 0\<rparr>) = Inr (Some inc) \<and>
     dget inc ''severity'' = Some sv \<and>
     sev_rank_of (e_repr sample_env) (PStr ''high'') \<le> sev_rank_of (e_repr sample_env) sv"
proof -
  let ?c = "\<lparr>c_store = empty_rdb\<lparr>rnums := [''{10.0.0.7}:alerts:cnt'' \<mapsto> 1]\<rparr>, c_last_check = 0\<rparr>"
  have sev: "dget_or sample_alert ''severity'' x = PStr ''high''" for x by (simp add: sample_alert_def)
  have run: "fst (run_correlate mem_redis sample_env ''10.0.0.7'' sample_alert (c_store ?c)) = (2, 1, [sample_alert])"
    unfolding run_correlate_def
    by (subst correlate_mem(1) [OF own_keys_ip])
       (simp_all add: seen_before_def empty_rdb_def zscore_list_def count_of_def max_of_def incident_due_def
          alerts_key_def count_key_def dedup_key_def)
  have low: "py_lower ''high'' = ''high''" by code_simp
  have risk: "calculate_risk_score [sample_alert] = Inr 75"
    by (simp add: calculate_risk_score_def alert_weight_def sev low severity_weights_def)
  have ev: "ev_alerts (gather_evidence rp ''10.0.0.7'' sample_alert [sample_alert]) = [sample_alert]" for rp
    using gather_evidence_facts(2) by simp
  have th: "ev_threats (gather_evidence rp ''10.0.0.7'' sample_alert [sample_alert]) = [PStr ''DDoS / Volumetric'']" for rp
    by (simp add: gather_evidence_def absorb_alert_def add_threat_def add_entity_def add_related_def
        add_tactic_def raise_max_sev_def Let_def sample_alert_def py_or_def)
  have env: "e_now sample_env = 100" "e_info sample_env = Inr [(''role'', PStr ''master'')]"
    "e_lua sample_env = LuaRan" "e_so sample_env = (\<lambda>xs. xs)" by (simp_all add: sample_env_def)
  have "\<exists>inc. fst (add_alert mem_redis sample_env sample_alert ?c) = Inr (Some inc)"
    using run risk sample_source [of "e_repr sample_env"] ev
    by (auto simp: add_alert_def check_redis_master_def case_prod_beta build_incident_def env Let_def th join_strs_def)
  then obtain inc where inc: "fst (add_alert mem_redis sample_env sample_alert ?c) = Inr (Some inc)" ..
  show ?thesis
    using incident_contents [OF inc] inc by (auto simp: sample_env_def sev)
qed

text \<open>The correlator never talks to Redis unauthenticated, and in the clear only when told to: a
  construction that succeeds has a non-empty password, and unless \<open>REDIS_SSL\<close> is set to something
  other than true, 1 or yes, it uses the TLS connection class with certificates required.\<close>

theorem correlator_pool_secure:
  assumes "pool_kwargs env ts = Inr kwargs"
  shows "\<exists>p. p \<noteq> [] \<and> dget kwargs ''password'' = Some (PStr p) \<and> env ''REDIS_PASSWORD'' = Some p \<and>
    (env ''REDIS_SSL'' = None \<or> py_lower (the (env ''REDIS_SSL'')) \<in> {''true'', ''1'', ''yes''} \<longrightarrow>
       dget kwargs ''connection_class'' = Some (PStr ''SSLConnection'') \<and>
       dget kwargs ''ssl_cert_reqs'' = Some (PStr ''required''))"
proof -
  have low: "py_lower ''true'' = ''true''" by code_simp
  obtain q where q: "env ''REDIS_PASSWORD'' = Some q" "q \<noteq> []"
    using assms by (auto simp: pool_kwargs_def result_simps split: option.splits if_splits)
  then obtain port where kw: "kwargs = pool_base env port q @
      (if env_flag env ''REDIS_SSL'' ''true'' then tls_kwargs env ts else [])"
    using assms by (auto simp: pool_kwargs_def result_simps)
  have base: "dget (pool_base env port q) ''password'' = Some (PStr q)"
    "dget (pool_base env port q) ''connection_class'' = None" "dget (pool_base env port q) ''ssl_cert_reqs'' = None"
    by (simp_all add: pool_base_def)
  have tls: "dget (tls_kwargs env ts) ''connection_class'' = Some (PStr ''SSLConnection'')"
    "dget (tls_kwargs env ts) ''ssl_cert_reqs'' = Some (PStr ''required'')"
    by (simp_all add: tls_kwargs_def)
  have on: "env_flag env ''REDIS_SSL'' ''true''"
    if "env ''REDIS_SSL'' = None \<or> py_lower (the (env ''REDIS_SSL'')) \<in> {''true'', ''1'', ''yes''}"
    using that by (cases "env ''REDIS_SSL''") (auto simp: env_flag_def getenv_or_def low)
  have get: "dget kwargs k = (case dget (pool_base env port q) k of Some v \<Rightarrow> Some v
      | None \<Rightarrow> dget (if env_flag env ''REDIS_SSL'' ''true'' then tls_kwargs env ts else []) k)" for k
    by (simp add: kw map_add_def map_of_append split: option.split)
  have pw: "dget kwargs ''password'' = Some (PStr q)" by (simp only: get base option.case)
  have ssl: "dget kwargs ''connection_class'' = Some (PStr ''SSLConnection'')"
    "dget kwargs ''ssl_cert_reqs'' = Some (PStr ''required'')" if "env_flag env ''REDIS_SSL'' ''true''"
    using that by (simp_all only: get base tls option.case if_True)
  show ?thesis using q pw ssl on by blast
qed

theorem correlator_pool_secure_witness:
  "\<exists>kwargs. pool_kwargs [''REDIS_PASSWORD'' \<mapsto> ''s3cret''] \<lparr>ts_exists = (\<lambda>_. False), ts_certifi = None,
       ts_cafile = None, ts_capath = None\<rparr> = Inr kwargs \<and> dget kwargs ''ssl_cert_reqs'' = Some (PStr ''required'')"
proof -
  have port: "parse_int ''6379'' = Some 6379" by code_simp
  obtain kwargs where "pool_kwargs [''REDIS_PASSWORD'' \<mapsto> ''s3cret''] \<lparr>ts_exists = (\<lambda>_. False), ts_certifi = None,
       ts_cafile = None, ts_capath = None\<rparr> = Inr kwargs"
    by (simp add: pool_kwargs_def getenv_or_def port of_option_def)
  with correlator_pool_secure [OF this] show ?thesis by simp
qed

theorem key_fragments_safe_witness:
  "length (str_ip (V4 (dotted 8 8 8 8))) \<le> 15 \<and> length (safe_threat ''DDoS'') \<le> 64"
  using key_fragments_safe [of "''DDoS''" "str_v4 (dotted 8 8 8 8)" "dotted 8 8 8 8"] by simp

end
