(* ===== verification/AlertStore.thy ===== *)
theory AlertStore
  imports Correlation
begin

text \<open>
  The alert table and the schema in front of it: \<open>api/schemas.py\<close> (\<open>AlertPayload\<close>), \<open>api/models.py\<close>
  (the columns), the upsert of \<open>api/kafka_sink.py\<close>, the routes of \<open>api/routes/alerts.py\<close> and the
  statistics of \<open>api/main.py\<close>, and the boot checks of \<open>api/database.py\<close>. SQL is modelled by the
  table the queries range over; pydantic's coercion of a number field is a parameter.
\<close>

section \<open>Payload validation\<close>

definition required_strings :: "string list" where
  "required_strings = [''alert_id'', ''event_type'', ''timestamp'', ''threat_class'', ''severity'', ''source_ip'']"

definition optional_strings :: "string list" where
  "optional_strings = [''destination_ip'', ''evidence'', ''trace_id'', ''flow_id'', ''span_id'', ''mitre_tactic'',
     ''mitre_technique'', ''model_name'', ''model_version'', ''schema_version'']"

text \<open>The model's fields in declaration order, which is the order of \<open>model_dump\<close>.\<close>

definition payload_fields :: "string list" where
  "payload_fields = [''alert_id'', ''event_type'', ''timestamp'', ''threat_class'', ''severity'',
     ''confidence_score'', ''source_ip''] @ optional_strings"

definition field_value :: "(pyval \<Rightarrow> pyfloat option) \<Rightarrow> obj \<Rightarrow> string \<Rightarrow> pyval option" where
  "field_value as_float raw k =
     (if k = ''confidence_score'' then
        (case dget raw k of None \<Rightarrow> None | Some v \<Rightarrow> map_option PFloat (as_float v))
      else if k \<in> set required_strings then
        (case dget raw k of Some (PStr s) \<Rightarrow> Some (PStr s) | _ \<Rightarrow> None)
      else
        (case dget raw k of None \<Rightarrow> Some PNone | Some PNone \<Rightarrow> Some PNone | Some (PStr s) \<Rightarrow> Some (PStr s)
         | _ \<Rightarrow> None))"

definition alert_payload :: "(pyval \<Rightarrow> pyfloat option) \<Rightarrow> obj \<Rightarrow> obj option" where
  "alert_payload as_float raw =
     (if \<forall>k\<in>set payload_fields. field_value as_float raw k \<noteq> None
      then Some (map (\<lambda>k. (k, the (field_value as_float raw k))) payload_fields)
      else None)"

section \<open>The table\<close>

text \<open>A row is its primary key and its other columns; \<open>db_next\<close> is the key sequence.\<close>

record alert_db =
  db_rows :: "(int \<times> obj) list"
  db_next :: int

definition ALERT_COLUMNS :: "string list" where
  "ALERT_COLUMNS = [''alert_id'', ''timestamp'', ''event_type'', ''threat_class'', ''confidence_score'',
     ''severity'', ''source_ip'', ''destination_ip'', ''evidence'', ''trace_id'', ''flow_id'', ''span_id'',
     ''mitre_tactic'', ''mitre_technique'', ''model_name'', ''model_version'', ''schema_version'']"

definition row_alert_id :: "int \<times> obj \<Rightarrow> pyval" where
  "row_alert_id r = oget (snd r) ''alert_id''"

fun update_first :: "('a \<Rightarrow> bool) \<Rightarrow> ('a \<Rightarrow> 'a) \<Rightarrow> 'a list \<Rightarrow> 'a list option" where
  "update_first P f [] = None"
| "update_first P f (x # xs) =
     (if P x then Some (f x # xs) else map_option (\<lambda>ys. x # ys) (update_first P f xs))"

text \<open>\<open>setattr\<close> of every field on the existing row, else a new row with the next key.\<close>

definition upsert_alert :: "obj \<Rightarrow> alert_db \<Rightarrow> alert_db" where
  "upsert_alert d db =
     (case update_first (\<lambda>r. row_alert_id r = oget d ''alert_id'') (\<lambda>(i, old). (i, dmerge old d)) (db_rows db) of
        Some rows \<Rightarrow> db\<lparr>db_rows := rows\<rparr>
      | None \<Rightarrow> \<lparr>db_rows = db_rows db @ [(db_next db, d)], db_next = db_next db + 1\<rparr>)"

definition table_ok :: "alert_db \<Rightarrow> bool" where
  "table_ok db \<longleftrightarrow>
     distinct (map fst (db_rows db)) \<and> (\<forall>r\<in>set (db_rows db). 1 \<le> fst r \<and> fst r < db_next db) \<and> 1 \<le> db_next db \<and>
     distinct (map row_alert_id (db_rows db))"

section \<open>Routes\<close>

text \<open>\<open>cursor\<close> and \<open>limit\<close> pass the bounds of their \<open>Query\<close> declarations, or the request is answered
  422.\<close>

definition get_alerts :: "int \<Rightarrow> int \<Rightarrow> alert_db \<Rightarrow> (int \<times> obj) list result" where
  "get_alerts cursor limit db =
     (if cursor < 0 \<or> limit < 1 \<or> limit > 100 then Inl (HTTPException 422)
      else
        (let hits = (if cursor > 0 then filter (\<lambda>r. fst r < cursor) (db_rows db) else db_rows db)
         in Inr (take (nat limit) (rev (sort_key fst hits)))))"

definition get_alert_by_id :: "string \<Rightarrow> alert_db \<Rightarrow> (int \<times> obj) result" where
  "get_alert_by_id aid db =
     (case find (\<lambda>r. row_alert_id r = PStr aid) (db_rows db) of
        None \<Rightarrow> Inl (HTTPException 404)
      | Some r \<Rightarrow> Inr r)"

text \<open>The grouped count, in the order \<open>ord\<close> in which the database lists the groups.\<close>

definition severity_groups :: "(pyval list \<Rightarrow> pyval list) \<Rightarrow> alert_db \<Rightarrow> (pyval \<times> int) list" where
  "severity_groups ord db =
     (let sevs = map (\<lambda>r. oget (snd r) ''severity'') (db_rows db)
      in map (\<lambda>s. (s, int (count_list sevs s))) (ord (remdups sevs)))"

definition stats_key :: "py_repr \<Rightarrow> pyval \<Rightarrow> string" where
  "stats_key rp sev = (if truthy sev then py_lower (py_str rp sev) else ''unknown'')"

definition get_stats :: "py_repr \<Rightarrow> (pyval list \<Rightarrow> pyval list) \<Rightarrow> alert_db \<Rightarrow> (string, int) pydict" where
  "get_stats rp ord db =
     (let severity_map = dmerge [] (map (\<lambda>(sev, cnt). (stats_key rp sev, cnt)) (severity_groups ord db));
          total_alerts = sum_list (map snd severity_map)
      in [(''total_alerts'', total_alerts),
          (''critical'', dget_or severity_map ''critical'' 0), (''high'', dget_or severity_map ''high'' 0),
          (''medium'', dget_or severity_map ''medium'' 0), (''low'', dget_or severity_map ''low'' 0)])"

section \<open>The response model\<close>

text \<open>\<open>AlertResponse\<close>: what the routes serialise of a row. A row that validated payloads wrote has
  strings or nulls in its text columns.\<close>

definition response_fields :: "string list" where
  "response_fields = [''alert_id'', ''timestamp'', ''event_type'', ''threat_class'', ''severity'',
     ''confidence_score'', ''source_ip''] @ optional_strings"

definition alert_response :: "int \<times> obj \<Rightarrow> obj" where
  "alert_response r = (''id'', PInt (fst r)) # map (\<lambda>k. (k, oget (snd r) k)) response_fields"

definition text_or_null :: "pyval \<Rightarrow> bool" where
  "text_or_null v \<longleftrightarrow> v = PNone \<or> is_str v"

definition rows_typed :: "alert_db \<Rightarrow> bool" where
  "rows_typed db \<longleftrightarrow>
     (\<forall>r\<in>set (db_rows db). \<forall>k\<in>set response_fields - {''confidence_score''}. text_or_null (oget (snd r) k))"

section \<open>Boot checks of the database module\<close>

definition database_config :: "environ \<Rightarrow> (obj \<times> obj) result" where
  "database_config env =
     (let url = getenv_or env ''DATABASE_URL'' [];
          base = [(''pool_pre_ping'', PBool True), (''pool_recycle'', PInt 1800)] in
      if url = [] then Inl RuntimeError
      else if sublist ''postgresql'' url then
        (let sslmode = getenv_or env ''DB_SSLMODE'' ''verify-full'' in
         if sslmode \<notin> {''require'', ''verify-ca'', ''verify-full''} then Inl RuntimeError
         else Inr ([(''connect_timeout'', PInt 5), (''sslmode'', PStr sslmode)],
                   base @ [(''pool_size'', PInt 20), (''max_overflow'', PInt 20), (''pool_timeout'', PInt 5)]))
      else if sublist ''sqlite'' url then
        Inr ([(''timeout'', PInt 5), (''check_same_thread'', PBool False)], base)
      else Inr ([], base))"

section \<open>The table stays well formed\<close>

lemma update_first_Some:
  "update_first P f xs = Some ys \<Longrightarrow> \<exists>us x vs. xs = us @ x # vs \<and> ys = us @ f x # vs \<and> P x \<and> (\<forall>u\<in>set us. \<not> P u)"
proof (induction xs arbitrary: ys)
  case (Cons x xs)
  show ?case
  proof (cases "P x")
    case True
    with Cons.prems show ?thesis by (intro exI [of _ "[]"]) auto
  next
    case False
    with Cons.prems obtain zs where "update_first P f xs = Some zs" "ys = x # zs" by auto
    with Cons.IH [OF this(1)] False show ?thesis
      by (metis Cons_eq_appendI set_ConsD)
  qed
qed simp

lemma update_first_None: "update_first P f xs = None \<longleftrightarrow> (\<forall>x\<in>set xs. \<not> P x)"
  by (induction xs) auto

lemma oget_dmerge_keep:
  "distinct (dkeys e) \<Longrightarrow> k \<in> set (dkeys e) \<Longrightarrow> oget (dmerge d e) k = oget e k"
proof (induction d e rule: dmerge.induct)
  case (2 d k' v e)
  show ?case
  proof (cases "k = k'")
    case True
    with 2 have "dget (dmerge (dset k' v d) e) k = dget (dset k' v d) k" by (intro dget_dmerge_notin) auto
    with True show ?thesis by (simp add: oget_def dget_or_def)
  next
    case False
    with 2 show ?thesis by (auto simp: oget_def dget_or_def)
  qed
qed simp

lemma upsert_cases:
  obtains us i old vs where "db_rows db = us @ (i, old) # vs" "oget old ''alert_id'' = oget d ''alert_id''"
      "upsert_alert d db = db\<lparr>db_rows := us @ (i, dmerge old d) # vs\<rparr>"
    | "\<forall>r\<in>set (db_rows db). row_alert_id r \<noteq> oget d ''alert_id''"
      "upsert_alert d db = \<lparr>db_rows = db_rows db @ [(db_next db, d)], db_next = db_next db + 1\<rparr>"
proof (cases "update_first (\<lambda>r. row_alert_id r = oget d ''alert_id'') (\<lambda>(i, old). (i, dmerge old d)) (db_rows db)")
  case None
  then have "\<forall>r\<in>set (db_rows db). row_alert_id r \<noteq> oget d ''alert_id''" by (simp only: update_first_None)
  moreover have "upsert_alert d db = \<lparr>db_rows = db_rows db @ [(db_next db, d)], db_next = db_next db + 1\<rparr>"
    by (simp only: upsert_alert_def None option.case)
  ultimately show ?thesis by (rule that(2))
next
  case (Some rows)
  from update_first_Some [OF Some] obtain us x vs where "db_rows db = us @ x # vs"
    "rows = us @ (case x of (i, old) \<Rightarrow> (i, dmerge old d)) # vs" "row_alert_id x = oget d ''alert_id''" by blast
  with Some show ?thesis using that(1) by (cases x) (auto simp: upsert_alert_def row_alert_id_def)
qed

lemma upsert_ok:
  assumes ok: "table_ok db" and d: "distinct (dkeys d)" "''alert_id'' \<in> set (dkeys d)"
  shows "table_ok (upsert_alert d db)"
proof (cases rule: upsert_cases [of db d])
  case (1 us i old vs)
  have "oget (dmerge old d) ''alert_id'' = oget old ''alert_id''"
    using 1(2) oget_dmerge_keep [OF d] by simp
  with ok 1(1) show ?thesis unfolding 1(3) by (auto simp: table_ok_def row_alert_id_def)
next
  case 2
  with ok show ?thesis by (auto simp: table_ok_def row_alert_id_def image_iff)
qed

lemma upsert_present:
  assumes "distinct (dkeys d)" "''alert_id'' \<in> set (dkeys d)"
  shows "\<exists>r\<in>set (db_rows (upsert_alert d db)). \<forall>k\<in>set (dkeys d). oget (snd r) k = oget d k"
proof (cases rule: upsert_cases [of db d])
  case (1 us i old vs)
  then show ?thesis using oget_dmerge_keep [OF assms(1)] by (intro bexI [of _ "(i, dmerge old d)"]) auto
qed auto

lemma upsert_ids_kept:
  assumes "distinct (dkeys d)" "''alert_id'' \<in> set (dkeys d)"
  shows "row_alert_id ` set (db_rows db) \<subseteq> row_alert_id ` set (db_rows (upsert_alert d db))"
proof (cases rule: upsert_cases [of db d])
  case (1 us i old vs)
  have "oget (dmerge old d) ''alert_id'' = oget old ''alert_id''"
    using 1(2) oget_dmerge_keep [OF assms] by simp
  with 1 show ?thesis by (auto simp: row_alert_id_def)
qed auto

lemma field_value_text:
  "field_value as_float raw k = Some v \<Longrightarrow> k \<noteq> ''confidence_score'' \<Longrightarrow> text_or_null v"
  by (auto simp: field_value_def text_or_null_def split: if_splits option.splits pyval.splits)

lemma alert_payload_fields:
  assumes "alert_payload as_float raw = Some d"
  shows "dkeys d = payload_fields" "k \<in> set payload_fields \<Longrightarrow> Some (oget d k) = field_value as_float raw k"
proof -
  have all: "\<forall>k\<in>set payload_fields. field_value as_float raw k \<noteq> None"
    and d: "d = map (\<lambda>k. (k, the (field_value as_float raw k))) payload_fields"
    using assms by (simp_all add: alert_payload_def split: if_splits)
  show "dkeys d = payload_fields" by (simp add: d comp_def)
  show "Some (oget d k) = field_value as_float raw k" if "k \<in> set payload_fields"
    using that all by (auto simp: d oget_def dget_or_def map_of_map_restrict restrict_map_def)
qed

lemma upsert_rows_typed:
  assumes typed: "rows_typed db" and d: "alert_payload as_float raw = Some d"
  shows "rows_typed (upsert_alert d db)"
proof -
  have keys: "dkeys d = payload_fields" using alert_payload_fields(1) [OF d] .
  have fields: "set response_fields = set payload_fields" by (auto simp: response_fields_def payload_fields_def)
  have dist: "distinct (dkeys d)" by (simp add: keys payload_fields_def optional_strings_def)
  have new: "text_or_null (oget d k)" if "k \<in> set payload_fields" "k \<noteq> ''confidence_score''" for k
    using alert_payload_fields(2) [OF d that(1)] that(2) by (metis field_value_text)
  have merged: "oget (dmerge old d) k = oget d k" if "k \<in> set payload_fields" for old k
    using oget_dmerge_keep [OF dist] that by (simp add: keys)
  show ?thesis
  proof (cases rule: upsert_cases [of db d])
    case (1 us i old vs)
    with typed new merged show ?thesis by (auto simp: rows_typed_def fields)
  next
    case 2
    with typed new show ?thesis by (auto simp: rows_typed_def fields)
  qed
qed

section \<open>Walking the pages\<close>

text \<open>A client that asks for page after page, each time with the last key it saw.\<close>

fun walk_pages :: "nat \<Rightarrow> int \<Rightarrow> int \<Rightarrow> alert_db \<Rightarrow> (int \<times> obj) list" where
  "walk_pages 0 cursor limit db = []"
| "walk_pages (Suc n) cursor limit db =
     (case get_alerts cursor limit db of
        Inl e \<Rightarrow> []
      | Inr [] \<Rightarrow> []
      | Inr (r # rs) \<Rightarrow> (r # rs) @ walk_pages n (fst (last (r # rs))) limit db)"

definition newest_first :: "alert_db \<Rightarrow> (int \<times> obj) list" where
  "newest_first db = rev (sort_key fst (db_rows db))"

abbreviation descending :: "(int \<times> obj) list \<Rightarrow> bool" where
  "descending \<equiv> sorted_wrt (\<lambda>a b. fst b < fst a)"

lemma newest_first_descending:
  assumes "distinct (map fst (db_rows db))" shows "descending (newest_first db)"
proof -
  have "sorted (map fst (sort_key fst (db_rows db)))" by simp
  moreover have "distinct (map fst (sort_key fst (db_rows db)))"
    using assms by (simp add: distinct_map)
  ultimately have "sorted_wrt (<) (map fst (sort_key fst (db_rows db)))" by (simp add: strict_sorted_iff)
  then show ?thesis by (simp add: newest_first_def sorted_wrt_rev sorted_wrt_map)
qed

lemma get_alerts_newest:
  assumes "0 \<le> cursor" "1 \<le> limit" "limit \<le> 100"
  shows "get_alerts cursor limit db =
    Inr (take (nat limit) (if cursor > 0 then filter (\<lambda>r. fst r < cursor) (newest_first db) else newest_first db))"
proof -
  have "sort_key fst (filter P xs) = filter P (sort_key fst xs)" for P and xs :: "(int \<times> obj) list"
    by (simp add: filter_sort)
  with assms show ?thesis by (simp add: get_alerts_def newest_first_def rev_filter)
qed

lemma last_least: "descending ys \<Longrightarrow> r \<in> set ys \<Longrightarrow> fst (last ys) \<le> fst r"
  by (induction ys rule: rev_induct) (auto simp: sorted_wrt_append)

lemma below_last:
  assumes "descending xs" "xs \<noteq> []" "0 < n"
  shows "filter (\<lambda>r. fst r < fst (last (take n xs))) xs = drop n xs"
proof -
  have ne: "take n xs \<noteq> []" using assms(2,3) by simp
  have "descending (take n xs @ drop n xs)" using assms(1) by (simp only: append_take_drop_id)
  then have desc: "descending (take n xs)" "\<forall>a\<in>set (take n xs). \<forall>b\<in>set (drop n xs). fst b < fst a"
    unfolding sorted_wrt_append by blast+
  let ?P = "\<lambda>r. fst r < fst (last (take n xs))"
  have "filter ?P (take n xs) = []"
    using last_least [OF desc(1)] by (force simp: filter_empty_conv)
  moreover have "filter ?P (drop n xs) = drop n xs"
    using desc(2) last_in_set [OF ne] by (simp add: filter_id_conv)
  moreover have "filter ?P xs = filter ?P (take n xs) @ filter ?P (drop n xs)"
    by (simp only: filter_append [symmetric] append_take_drop_id)
  ultimately show ?thesis by simp
qed

lemma walk_from:
  assumes ok: "table_ok db" and lim: "1 \<le> limit" "limit \<le> 100"
  shows "0 \<le> cursor \<Longrightarrow>
    xs = (if cursor > 0 then filter (\<lambda>r. fst r < cursor) (newest_first db) else newest_first db) \<Longrightarrow>
    length xs \<le> n \<Longrightarrow> walk_pages n cursor limit db = xs"
proof (induction n arbitrary: cursor xs)
  case (Suc n)
  have desc: "descending (newest_first db)" using ok by (intro newest_first_descending) (simp add: table_ok_def)
  have page: "get_alerts cursor limit db = Inr (take (nat limit) xs)"
    using get_alerts_newest [OF Suc.prems(1) lim] Suc.prems(2) by simp
  show ?case
  proof (cases xs)
    case Nil
    then show ?thesis using page by simp
  next
    case (Cons r rs)
    have xsd: "descending xs" using desc Suc.prems(2) by (simp add: sorted_wrt_filter)
    obtain m where m: "nat limit = Suc m" using lim(1) by (metis Suc_pred' nat_0_iff not_gr_zero not_one_le_zero order_trans le_numeral_extra(3) zero_less_one gr0I linorder_not_le)
    define c where "c = fst (last (take (nat limit) xs))"
    have "last (take (nat limit) xs) \<in> set xs" using Cons m by (metis in_set_takeD last_in_set list.distinct(1) take_Suc_Cons)
    then have mem: "last (take (nat limit) xs) \<in> set (newest_first db)" using Suc.prems(2) by (auto split: if_splits)
    then have c: "0 < c" "cursor > 0 \<longrightarrow> c < cursor"
      using ok \<open>last _ \<in> set xs\<close> Suc.prems(2) by (auto simp: c_def table_ok_def newest_first_def split: if_splits)
    have rest: "drop (nat limit) xs = filter (\<lambda>r. fst r < c) (newest_first db)"
    proof -
      have "drop (nat limit) xs = filter (\<lambda>r. fst r < c) xs"
        using below_last [OF xsd, of "nat limit"] Cons m by (simp add: c_def)
      also have "\<dots> = filter (\<lambda>r. fst r < c) (newest_first db)"
        using Suc.prems(2) c(2) by (auto intro!: filter_cong)
      finally show ?thesis .
    qed
    have "length (drop (nat limit) xs) \<le> n" using Suc.prems(3) m by simp
    then have "walk_pages n c limit db = drop (nat limit) xs"
      using Suc.IH [of c "drop (nat limit) xs"] c(1) rest by simp
    then show ?thesis using page Cons m by (simp add: c_def)
  qed
qed simp

section \<open>Statistics\<close>

lemma dmerge_map_distinct: "distinct (map fst xs) \<Longrightarrow> dmerge [] xs = xs"
  using dmerge_Nil_distinct [of "[]" xs] by simp

lemma count_list_remdups_sum: "(\<Sum>s\<leftarrow>remdups xs. count_list xs s) = length xs"
proof -
  have "(\<Sum>s\<leftarrow>remdups xs. count_list xs s) = (\<Sum>s\<in>set xs. count_list xs s)"
    by (simp add: sum_list_distinct_conv_sum_set)
  also have "\<dots> = length xs" by (rule sum_count_set) auto
  finally show ?thesis .
qed

lemma int_sum_list: "int (sum_list xs) = sum_list (map int xs)"
  by (induction xs) auto

definition sev_column :: "alert_db \<Rightarrow> pyval list" where
  "sev_column db = map (\<lambda>r. oget (snd r) ''severity'') (db_rows db)"

lemma stats_map:
  assumes "inj_on (stats_key rp) (set (sev_column db))" "mset (ord (remdups (sev_column db))) = mset (remdups (sev_column db))"
  shows "dmerge [] (map (\<lambda>(sev, cnt). (stats_key rp sev, cnt)) (severity_groups ord db)) =
    map (\<lambda>s. (stats_key rp s, int (count_list (sev_column db) s))) (ord (remdups (sev_column db)))"
proof -
  let ?o = "ord (remdups (sev_column db))"
  have "distinct ?o" "set ?o = set (sev_column db)"
    using assms(2) by (metis distinct_remdups mset_eq_imp_distinct_iff) (metis assms(2) mset_eq_setD set_remdups)
  then have d: "distinct (map (stats_key rp) ?o)" using assms(1) by (simp add: distinct_map)
  have "map fst (map (\<lambda>s. (stats_key rp s, int (count_list (sev_column db) s))) ?o) = map (stats_key rp) ?o"
    by simp
  with d show ?thesis
    by (simp add: severity_groups_def Let_def sev_column_def [symmetric] comp_def dmerge_map_distinct)
qed

lemma map_of_keyed:
  "inj_on f (set xs) \<Longrightarrow> s \<in> set xs \<Longrightarrow> map_of (map (\<lambda>x. (f x, g x)) xs) (f s) = Some (g s)"
  by (induction xs) (auto simp: inj_on_def)

section \<open>Properties\<close>

text \<open>C40. Cursor pagination loses and repeats nothing: walking the pages of any size from 1 to 100
  from cursor 0, each time with the last key seen, returns every row of the table exactly once,
  newest first, and stops.\<close>

theorem pagination_complete:
  assumes "table_ok db" and "1 \<le> limit" "limit \<le> 100" and "length (db_rows db) \<le> n"
  shows "walk_pages n 0 limit db = newest_first db \<and> descending (newest_first db) \<and>
    mset (newest_first db) = mset (db_rows db)"
  using walk_from [OF assms(1-3), of 0 "newest_first db" n] newest_first_descending [of db] assms(1,4)
  by (simp add: newest_first_def table_ok_def)

theorem pagination_complete_witness:
  "walk_pages 3 0 1 \<lparr>db_rows = [(1, [(''alert_id'', PStr ''a'')]), (2, [(''alert_id'', PStr ''b'')])], db_next = 3\<rparr> =
     [(2, [(''alert_id'', PStr ''b'')]), (1, [(''alert_id'', PStr ''a'')])]"
  using pagination_complete [of "\<lparr>db_rows = [(1, [(''alert_id'', PStr ''a'')]), (2, [(''alert_id'', PStr ''b'')])], db_next = 3\<rparr>" 1 3]
  by (simp add: table_ok_def row_alert_id_def newest_first_def)

text \<open>A message cannot reach the primary key or a column that is not declared: whatever keys a
  raw alert has, the validated payload carries exactly the declared fields, storing it keeps the
  keys of all rows and adds at most the next one of the sequence, and the table stays one row
  per alert id with the new content in place.\<close>

theorem payload_cannot_set_key:
  assumes "table_ok db" and "alert_payload as_float raw = Some d"
  shows "dkeys d = payload_fields \<and> set (dkeys d) \<subseteq> set ALERT_COLUMNS \<and> ''id'' \<notin> set (dkeys d) \<and>
    map fst (db_rows (upsert_alert d db)) \<in> {map fst (db_rows db), map fst (db_rows db) @ [db_next db]} \<and>
    table_ok (upsert_alert d db) \<and>
    (\<exists>r\<in>set (db_rows (upsert_alert d db)). \<forall>k\<in>set (dkeys d). oget (snd r) k = oget d k)"
proof -
  have keys: "dkeys d = payload_fields"
    using assms(2) by (auto simp: alert_payload_def comp_def split: if_splits)
  have d: "distinct (dkeys d)" "''alert_id'' \<in> set (dkeys d)"
    unfolding keys by (simp_all add: payload_fields_def optional_strings_def)
  have ids: "map fst (db_rows (upsert_alert d db)) \<in> {map fst (db_rows db), map fst (db_rows db) @ [db_next db]}"
    by (cases rule: upsert_cases [of db d]) auto
  show ?thesis
    using ids upsert_ok [OF assms(1) d] upsert_present [OF d, of db] unfolding keys
    by (simp add: payload_fields_def optional_strings_def ALERT_COLUMNS_def)
qed

definition sample_payload :: obj where
  "sample_payload = [(''alert_id'', PStr ''A''), (''event_type'', PStr ''conn''), (''timestamp'', PStr ''t''),
     (''threat_class'', PStr ''DDoS''), (''severity'', PStr ''high''), (''confidence_score'', PFloat (Fin 1)),
     (''source_ip'', PStr ''10.0.0.7''), (''id'', PInt 99)]"

theorem payload_cannot_set_key_witness:
  "\<exists>d. alert_payload (\<lambda>_. Some (Fin 1)) sample_payload = Some d \<and> ''id'' \<notin> set (dkeys d) \<and>
     table_ok (upsert_alert d \<lparr>db_rows = [], db_next = 1\<rparr>)"
proof -
  obtain d where d: "alert_payload (\<lambda>_. Some (Fin 1)) sample_payload = Some d"
    by (simp add: alert_payload_def payload_fields_def optional_strings_def field_value_def required_strings_def
        sample_payload_def)
  have "table_ok \<lparr>db_rows = [], db_next = 1\<rparr>" by (simp add: table_ok_def)
  from payload_cannot_set_key [OF this d] d show ?thesis by auto
qed

text \<open>When no two stored severities fall together under \<open>lower\<close>, the statistics are exact: the
  total is the number of alerts and each count the number of alerts of that severity, in
  whatever order the database lists the groups.\<close>

theorem stats_exact:
  assumes "inj_on (stats_key rp) (set (sev_column db))"
    and "mset (ord (remdups (sev_column db))) = mset (remdups (sev_column db))"
    and "k \<in> {''critical'', ''high'', ''medium'', ''low''}" and "PStr k \<in> set (sev_column db)"
    and "py_lower k = k"
  shows "dget (get_stats rp ord db) ''total_alerts'' = Some (int (length (db_rows db))) \<and>
    dget (get_stats rp ord db) k = Some (int (count_list (sev_column db) (PStr k)))"
proof -
  let ?o = "ord (remdups (sev_column db))"
  let ?m = "map (\<lambda>s. (stats_key rp s, int (count_list (sev_column db) s))) ?o"
  have set: "set ?o = set (sev_column db)" by (metis assms(2) mset_eq_setD set_remdups)
  let ?f = "\<lambda>s. int (count_list (sev_column db) s)"
  have "mset (map ?f ?o) = mset (map ?f (remdups (sev_column db)))" using assms(2) by simp
  then have "sum_list (map ?f ?o) = sum_list (map ?f (remdups (sev_column db)))"
    by (metis sum_mset_sum_list)
  moreover have "sum_list (map ?f (remdups (sev_column db))) = int (length (sev_column db))"
    by (simp only: count_list_remdups_sum [symmetric] int_sum_list map_map comp_def)
  moreover have "map snd ?m = map ?f ?o" by simp
  moreover have "length (sev_column db) = length (db_rows db)" by (simp add: sev_column_def)
  ultimately have total: "sum_list (map snd ?m) = int (length (db_rows db))" by (simp only:)
  have "k \<noteq> []" using assms(3) by auto
  then have key: "stats_key rp (PStr k) = k" using assms(5) by (simp add: stats_key_def)
  have "dget ?m (stats_key rp (PStr k)) = Some (int (count_list (sev_column db) (PStr k)))"
    using assms(1,4) set by (intro map_of_keyed) auto
  then have k: "dget ?m k = Some (int (count_list (sev_column db) (PStr k)))" by (simp only: key)
  show ?thesis
    unfolding get_stats_def stats_map [where ord = ord and rp = rp and db = db, OF assms(1,2)] Let_def total using k assms(3)
    by (elim insertE) (simp_all add: dget_or_def del: map_map)
qed

theorem stats_exact_witness:
  "dget (get_stats (\<lambda>_. []) (\<lambda>xs. xs) \<lparr>db_rows = [(1, [(''severity'', PStr ''high'')]), (2, [(''severity'', PStr ''high'')])],
     db_next = 3\<rparr>) ''high'' = Some 2"
proof -
  let ?db = "\<lparr>db_rows = [(1, [(''severity'', PStr ''high'')]), (2, [(''severity'', PStr ''high'')])], db_next = 3\<rparr>"
  have "py_lower ''high'' = ''high''" by code_simp
  with stats_exact [of "\<lambda>_. []" ?db "\<lambda>xs. xs" "''high''"] show ?thesis by (simp add: sev_column_def)
qed

text \<open>Without that condition counts are lost: two spellings of one severity overwrite each other.\<close>

lemma stats_overwritten:
  "get_stats (\<lambda>_. []) (\<lambda>xs. xs) \<lparr>db_rows = [(1, [(''severity'', PStr ''HIGH'')]), (2, [(''severity'', PStr ''HIGH'')]),
     (3, [(''severity'', PStr ''high'')])], db_next = 4\<rparr> =
   [(''total_alerts'', 1), (''critical'', 0), (''high'', 1), (''medium'', 0), (''low'', 0)]"
  by code_simp

text \<open>The database module starts only with a database, and reaches PostgreSQL only over an
  encrypted connection, verified in full unless the operator names one of the two other accepted
  modes.\<close>

theorem database_fails_closed:
  assumes "database_config env = Inr (connect_args, engine_kwargs)"
    and "sublist ''postgresql'' (getenv_or env ''DATABASE_URL'' [])"
  shows "getenv_or env ''DB_SSLMODE'' ''verify-full'' \<in> {''require'', ''verify-ca'', ''verify-full''} \<and>
    dget connect_args ''sslmode'' = Some (PStr (getenv_or env ''DB_SSLMODE'' ''verify-full''))"
  using assms by (auto simp: database_config_def Let_def split: if_splits simp del: sublist_code)

theorem database_fails_closed_witness:
  "\<exists>connect_args kwargs. database_config [''DATABASE_URL'' \<mapsto> ''postgresql://db/soc''] = Inr (connect_args, kwargs) \<and>
     dget connect_args ''sslmode'' = Some (PStr ''verify-full'')"
proof -
  let ?env = "[''DATABASE_URL'' \<mapsto> ''postgresql://db/soc'']"
  obtain c k where 1: "database_config ?env = Inr (c, k)"
    by (simp add: database_config_def getenv_or_def)
  have "sublist ''postgresql'' (getenv_or ?env ''DATABASE_URL'' [])" by (simp add: getenv_or_def)
  from database_fails_closed [OF 1 this] 1 show ?thesis by (auto simp: getenv_or_def)
qed

end
