(* ===== verification/Sink.thy ===== *)
theory Sink
  imports AlertStore
begin

text \<open>
  \<open>api/kafka_sink.py\<close>: the loop that moves alerts from the broker into the alert table. The
  broker, the database and the disk answer through the record of one iteration; the state holds
  the local variables of \<open>run_sink\<close> together with what the loop writes outside: the table, the
  dead-letter file, the dead-letter topic and the offsets committed at the broker. Of a
  dead-letter record the payload and the error are kept, not the time stamp.
\<close>

type_synonym tp = string
type_synonym item = "obj \<times> tp \<times> int"
type_synonym offsets = "(tp, int) pydict"

record sink =
  s_batch :: "item list"
  s_last_commit :: real
  s_failures :: nat
  s_observed :: offsets
  s_committed :: offsets
  s_db :: alert_db
  s_dlq :: "(obj \<times> string) list"
  s_topic :: "(obj \<times> string) list"
  s_broker :: offsets

text \<open>A message value: its size and what its bytes decode to.\<close>

record kafka_msg =
  m_offset :: int
  m_size :: nat
  m_json :: "pyval result"

record sink_env =
  i_records :: "(tp \<times> kafka_msg list) list option"
  i_now :: real
  i_later :: real
  i_as_float :: "pyval \<Rightarrow> pyfloat option"
  i_dumps :: "pyval \<Rightarrow> string"
  i_item_ok :: "obj \<Rightarrow> bool"
  i_err :: "obj \<Rightarrow> string"
  i_db_commit :: bool
  i_attempt :: "nat \<Rightarrow> bool"
  i_evac_commit :: bool
  i_stale_commit :: bool
  i_panic_commit :: bool
  i_disk_ok :: "obj \<Rightarrow> bool"
  i_topic_ok :: "obj \<Rightarrow> bool"

definition MAX_MSG_SIZE :: nat where
  "MAX_MSG_SIZE = 5 * 1024 * 1024"

definition MAX_BATCH_SIZE :: nat where
  "MAX_BATCH_SIZE = 100"

definition PANIC_BATCH_SIZE :: nat where
  "PANIC_BATCH_SIZE = 500"

definition MAX_COMMIT_RETRIES :: nat where
  "MAX_COMMIT_RETRIES = 3"

definition MAX_CONSECUTIVE_FAILURES :: nat where
  "MAX_CONSECUTIVE_FAILURES = 5"

section \<open>The dead-letter file\<close>

definition under_dlq_dir :: "string \<Rightarrow> bool" where
  "under_dlq_dir resolved \<longleftrightarrow> prefix ''/tmp/dlq'' resolved"

definition dlq_path :: "(string \<Rightarrow> string) \<Rightarrow> environ \<Rightarrow> string" where
  "dlq_path abspath env =
     (let resolved = abspath (getenv_or env ''DLQ_FILE_PATH'' ''/tmp/dlq/alerts.jsonl'') in
      if under_dlq_dir resolved then resolved else ''/tmp/dlq/alerts.jsonl'')"

text \<open>The file and its numbered predecessors: \<open>f 0\<close> is the file itself, \<open>f i\<close> its \<open>i\<close>-th rotation.\<close>

definition move_file :: "nat \<Rightarrow> (nat \<Rightarrow> 'c option) \<Rightarrow> (nat \<Rightarrow> 'c option)" where
  "move_file i f = (if f i \<noteq> None then f(Suc i := f i, i := None) else f)"

definition rotate_dlq :: "nat \<Rightarrow> 'c \<Rightarrow> (nat \<Rightarrow> 'c option) \<Rightarrow> (nat \<Rightarrow> 'c option)" where
  "rotate_dlq keep blank f =
     (let g = foldl (\<lambda>f i. move_file i f) f (rev [1..<keep]) in (move_file 0 g)(0 \<mapsto> blank))"

definition write_to_file_dlq :: "sink_env \<Rightarrow> obj \<Rightarrow> string \<Rightarrow> sink \<Rightarrow> sink" where
  "write_to_file_dlq e item msg s =
     (if i_disk_ok e item then s\<lparr>s_dlq := s_dlq s @ [(item, msg)]\<rparr> else s)"

definition send_to_dlq :: "sink_env \<Rightarrow> obj \<Rightarrow> string \<Rightarrow> sink \<Rightarrow> sink" where
  "send_to_dlq e item msg s =
     (if i_topic_ok e item then s\<lparr>s_topic := s_topic s @ [(item, msg)]\<rparr> else s)"

definition safe_dlq_send :: "sink_env \<Rightarrow> obj \<Rightarrow> string \<Rightarrow> sink \<Rightarrow> sink" where
  "safe_dlq_send e raw_item msg s = write_to_file_dlq e raw_item msg (send_to_dlq e raw_item msg s)"

section \<open>One batch\<close>

definition bump :: "tp \<Rightarrow> int \<Rightarrow> offsets \<Rightarrow> offsets" where
  "bump tp off m = dset tp (max (dget_or m tp (- 1)) (off + 1)) m"

definition dump_evidence :: "sink_env \<Rightarrow> obj \<Rightarrow> obj" where
  "dump_evidence e raw =
     (if is_dict (oget raw ''evidence'') \<or> is_list (oget raw ''evidence'')
      then dset ''evidence'' (PStr (i_dumps e (oget raw ''evidence''))) raw else raw)"

definition process_item :: "sink_env \<Rightarrow> offsets \<times> sink \<Rightarrow> item \<Rightarrow> offsets \<times> sink" where
  "process_item e acc it =
     (case acc of (offs, s) \<Rightarrow> case it of (raw0, tp, off) \<Rightarrow>
        (let raw = dump_evidence e raw0 in
         case alert_payload (i_as_float e) raw of
           Some d \<Rightarrow>
             if i_item_ok e d then (bump tp off offs, s\<lparr>s_db := upsert_alert d (s_db s)\<rparr>)
             else (bump tp off offs, safe_dlq_send e raw (i_err e raw) s)
         | None \<Rightarrow> (bump tp off offs, safe_dlq_send e raw (i_err e raw) s)))"

definition process_batch :: "sink_env \<Rightarrow> item list \<Rightarrow> sink \<Rightarrow> offsets \<times> sink" where
  "process_batch e batch s =
     (case foldl (process_item e) ([], s) batch of (offs, s1) \<Rightarrow>
        if i_db_commit e then (offs, s1) else ([], s1\<lparr>s_db := s_db s\<rparr>))"

section \<open>One iteration of the loop\<close>

text \<open>Polling: every message moves the watermark; a usable one joins the batch.\<close>

definition absorb_msg :: "sink_env \<Rightarrow> tp \<Rightarrow> sink \<Rightarrow> kafka_msg \<Rightarrow> sink" where
  "absorb_msg e tp s m =
     (let s1 = s\<lparr>s_observed := bump tp (m_offset m) (s_observed s)\<rparr> in
      if m_size m > MAX_MSG_SIZE then s1
      else (case m_json m of
              Inr (PDict d) \<Rightarrow>
                if truthy (oget d ''alert_id'')
                then s1\<lparr>s_batch := s_batch s1 @ [(dump_evidence e d, tp, m_offset m)]\<rparr> else s1
            | _ \<Rightarrow> s1))"

definition poll_phase :: "sink_env \<Rightarrow> sink \<Rightarrow> sink" where
  "poll_phase e s =
     (if length (s_batch s) < MAX_BATCH_SIZE then
        (case i_records e of
           None \<Rightarrow> s
         | Some recs \<Rightarrow> foldl (\<lambda>s (tp, msgs). foldl (absorb_msg e tp) s msgs) s recs)
      else s)"

definition bump_item :: "offsets \<Rightarrow> item \<Rightarrow> offsets" where
  "bump_item m it = (case it of (raw, tp, off) \<Rightarrow> bump tp off m)"

definition max_offsets :: "item list \<Rightarrow> offsets" where
  "max_offsets batch = foldl bump_item [] batch"

definition write_all :: "sink_env \<Rightarrow> string \<Rightarrow> item list \<Rightarrow> sink \<Rightarrow> sink" where
  "write_all e msg batch s = foldl (\<lambda>s (raw, tp, off). write_to_file_dlq e raw msg s) s batch"

definition clear_batch :: "sink_env \<Rightarrow> sink \<Rightarrow> sink" where
  "clear_batch e s = s\<lparr>s_batch := [], s_last_commit := i_later e, s_failures := 0\<rparr>"

definition commit_offsets :: "offsets \<Rightarrow> sink \<Rightarrow> sink" where
  "commit_offsets offs s = s\<lparr>s_broker := dmerge (s_broker s) offs, s_committed := dmerge (s_committed s) offs\<rparr>"

definition evacuate :: "sink_env \<Rightarrow> string \<Rightarrow> sink \<Rightarrow> sink" where
  "evacuate e msg s =
     (let s1 = write_all e msg (s_batch s) s; offs = max_offsets (s_batch s);
          s2 = (if offs \<noteq> [] \<and> i_evac_commit e then commit_offsets offs s1 else s1)
      in clear_batch e s2)"

definition after_failure :: "sink_env \<Rightarrow> string \<Rightarrow> sink \<Rightarrow> sink" where
  "after_failure e msg s =
     (let s1 = s\<lparr>s_failures := Suc (s_failures s)\<rparr> in
      if s_failures s1 \<ge> MAX_CONSECUTIVE_FAILURES then evacuate e msg s1 else s1)"

definition flush_phase :: "sink_env \<Rightarrow> sink \<Rightarrow> sink" where
  "flush_phase e s =
     (if MAX_BATCH_SIZE \<le> length (s_batch s) \<or> (s_batch s \<noteq> [] \<and> i_now e - s_last_commit s \<ge> 5) then
        (case process_batch e (s_batch s) s of (offs, s1) \<Rightarrow>
           if offs \<noteq> [] then
             (if list_ex (i_attempt e) [0..<MAX_COMMIT_RETRIES] then clear_batch e (commit_offsets offs s1)
              else after_failure e ''KafkaCommitFailureThresholdExceeded'' s1)
           else after_failure e ''DatabaseCommitFailureThresholdExceeded'' s1)
      else s)"

definition stale_offsets :: "sink \<Rightarrow> offsets" where
  "stale_offsets s = filter (\<lambda>(tp, off). off > dget_or (s_committed s) tp (- 1)) (s_observed s)"

definition stale_phase :: "sink_env \<Rightarrow> sink \<Rightarrow> sink" where
  "stale_phase e s =
     (if s_batch s = [] \<and> stale_offsets s \<noteq> [] \<and> i_stale_commit e
      then commit_offsets (stale_offsets s) s else s)"

text \<open>The panic branch does not record the offsets it commits as committed.\<close>

definition panic_phase :: "sink_env \<Rightarrow> sink \<Rightarrow> sink" where
  "panic_phase e s =
     (if PANIC_BATCH_SIZE \<le> length (s_batch s) then
        (let s1 = write_all e ''BatchPanicThresholdExceeded'' (s_batch s) s; offs = max_offsets (s_batch s);
             s2 = (if i_panic_commit e then s1\<lparr>s_broker := dmerge (s_broker s1) offs\<rparr> else s1)
         in clear_batch e s2)
      else s)"

definition sink_step :: "sink_env \<Rightarrow> sink \<Rightarrow> sink" where
  "sink_step e s = panic_phase e (stale_phase e (flush_phase e (poll_phase e s)))"

text \<open>After the loop: one last batch and one attempt to commit it.\<close>

definition sink_shutdown :: "sink_env \<Rightarrow> sink \<Rightarrow> sink" where
  "sink_shutdown e s =
     (if s_batch s \<noteq> [] then
        (case process_batch e (s_batch s) s of (offs, s1) \<Rightarrow>
           if offs \<noteq> [] \<and> i_evac_commit e then s1\<lparr>s_broker := dmerge (s_broker s1) offs\<rparr> else s1)
      else s)"

section \<open>Offsets\<close>

abbreviation off_of :: "offsets \<Rightarrow> tp \<Rightarrow> int" where
  "off_of m tp \<equiv> dget_or m tp (- 1)"

lemma off_of_bump [simp]: "off_of (bump tp off m) t = (if t = tp then max (off_of m tp) (off + 1) else off_of m t)"
  by (simp add: bump_def dget_or_def)

lemma bump_keys [simp]: "set (dkeys (bump tp off m)) = insert tp (set (dkeys m))"
  "distinct (dkeys m) \<Longrightarrow> distinct (dkeys (bump tp off m))"
  unfolding bump_def by (simp only: set_dkeys_dset) (rule distinct_dkeys_dset)

lemma off_of_dmerge:
  "distinct (dkeys b) \<Longrightarrow> off_of (dmerge a b) t = (if t \<in> set (dkeys b) then off_of b t else off_of a t)"
proof (induction a b rule: dmerge.induct)
  case (2 d k v e)
  show ?case
  proof (cases "t = k")
    case True
    with 2 have "dget (dmerge (dset k v d) e) t = dget (dset k v d) t" by (intro dget_dmerge_notin) auto
    with True show ?thesis by (simp add: dget_or_def)
  next
    case False
    with 2 show ?thesis by (auto simp: dget_or_def)
  qed
qed simp

definition tps :: "item list \<Rightarrow> tp set" where
  "tps batch = (\<lambda>(raw, tp, off). tp) ` set batch"

lemma fst_set_bump [simp]: "fst ` set (bump tp off m) = insert tp (fst ` set m)"
  by (simp add: bump_def)

lemma tps_Cons: "tps ((raw, tp, off) # batch) = insert tp (tps batch)"
  by (simp add: tps_def)

lemma bump_item_simp: "bump_item m (raw, tp, off) = bump tp off m"
  by (simp add: bump_item_def)

lemma fold_bump_keys:
  "set (dkeys (foldl bump_item m batch)) = set (dkeys m) \<union> tps batch"
  by (induction batch arbitrary: m) (auto simp: bump_item_def tps_def split: prod.splits)

lemma fold_bump_distinct: "distinct (dkeys m) \<Longrightarrow> distinct (dkeys (foldl bump_item m batch))"
  by (induction batch arbitrary: m) (auto simp: bump_item_def split: prod.splits)

lemma fold_bump_mono: "off_of m t \<le> off_of (foldl bump_item m batch) t"
proof (induction batch arbitrary: m)
  case (Cons it batch)
  have "off_of m t \<le> off_of (bump_item m it) t" by (cases it) (auto simp: bump_item_simp)
  then show ?case using Cons.IH [of "bump_item m it"] by simp
qed simp

lemma fold_bump_past: "(raw, tp, off) \<in> set batch \<Longrightarrow> off + 1 \<le> off_of (foldl bump_item m batch) tp"
proof (induction batch arbitrary: m)
  case (Cons it batch)
  have "off + 1 \<le> off_of (bump_item m it) tp" if "it = (raw, tp, off)" using that by (simp add: bump_item_simp)
  then show ?case using Cons.prems Cons.IH [of "bump_item m it"] order_trans [OF _ fold_bump_mono]
    by (auto simp del: off_of_bump)
qed simp

lemma fold_bump_least:
  "off_of m t \<le> n \<Longrightarrow> \<forall>(raw, tp, off)\<in>set batch. tp = t \<longrightarrow> off < n \<Longrightarrow> off_of (foldl bump_item m batch) t \<le> n"
proof (induction batch arbitrary: m)
  case (Cons it batch)
  have "off_of (bump_item m it) t \<le> n" using Cons.prems by (cases it) (auto simp: bump_item_simp)
  then show ?case using Cons.IH [of "bump_item m it"] Cons.prems by simp
qed simp

section \<open>What a batch leaves behind\<close>

text \<open>An alert is handled when its id is in the table or in the dead-letter file.\<close>

definition handled :: "sink \<Rightarrow> pyval \<Rightarrow> bool" where
  "handled s aid \<longleftrightarrow> aid \<in> row_alert_id ` set (db_rows (s_db s)) \<or> (\<exists>(x, m)\<in>set (s_dlq s). oget x ''alert_id'' = aid)"

lemma dump_evidence_id [simp]: "oget (dump_evidence e raw) ''alert_id'' = oget raw ''alert_id''"
  by (simp add: dump_evidence_def)

lemma payload_keys:
  assumes "alert_payload as_float raw = Some d"
  shows "dkeys d = payload_fields" "distinct (dkeys d)" "''alert_id'' \<in> set (dkeys d)"
    "oget d ''alert_id'' = oget raw ''alert_id''"
proof -
  show keys: "dkeys d = payload_fields"
    using assms by (auto simp: alert_payload_def comp_def split: if_splits)
  show "distinct (dkeys d)" "''alert_id'' \<in> set (dkeys d)"
    unfolding keys by (simp_all add: payload_fields_def optional_strings_def)
  have d: "d = map (\<lambda>k. (k, the (field_value as_float raw k))) payload_fields"
    and all: "\<forall>k\<in>set payload_fields. field_value as_float raw k \<noteq> None"
    using assms by (auto simp: alert_payload_def split: if_splits)
  have first: "payload_fields = ''alert_id'' # tl payload_fields" by (simp add: payload_fields_def)
  then have "field_value as_float raw ''alert_id'' \<noteq> None" using all by (metis list.set_intros(1))
  then obtain x where "dget raw ''alert_id'' = Some (PStr x)"
    by (auto simp: field_value_def required_strings_def split: option.splits pyval.splits)
  moreover have "oget d ''alert_id'' = the (field_value as_float raw ''alert_id'')"
    unfolding d by (subst first) simp
  ultimately show "oget d ''alert_id'' = oget raw ''alert_id''"
    by (simp add: field_value_def required_strings_def oget_def dget_or_def)
qed

text \<open>The dead-letter writers and the commits touch neither the table nor the batch.\<close>

lemma dlq_fields [simp]:
  "s_db (write_to_file_dlq e x m s) = s_db s" "s_batch (write_to_file_dlq e x m s) = s_batch s"
  "s_broker (write_to_file_dlq e x m s) = s_broker s" "s_observed (write_to_file_dlq e x m s) = s_observed s"
  "s_committed (write_to_file_dlq e x m s) = s_committed s"
  "s_db (safe_dlq_send e x m s) = s_db s" "s_batch (safe_dlq_send e x m s) = s_batch s"
  "s_broker (safe_dlq_send e x m s) = s_broker s" "s_observed (safe_dlq_send e x m s) = s_observed s"
  "s_committed (safe_dlq_send e x m s) = s_committed s"
  by (simp_all add: write_to_file_dlq_def safe_dlq_send_def send_to_dlq_def)

lemma dlq_grows [simp]:
  "set (s_dlq s) \<subseteq> set (s_dlq (write_to_file_dlq e x m s))" "set (s_dlq s) \<subseteq> set (s_dlq (safe_dlq_send e x m s))"
  by (auto simp: write_to_file_dlq_def safe_dlq_send_def send_to_dlq_def)

definition keeps :: "sink \<Rightarrow> sink \<Rightarrow> bool" where
  "keeps s s' \<longleftrightarrow> row_alert_id ` set (db_rows (s_db s)) \<subseteq> row_alert_id ` set (db_rows (s_db s')) \<and>
     set (s_dlq s) \<subseteq> set (s_dlq s')"

lemma keeps_refl [simp]: "keeps s s"
  and keeps_trans: "keeps s t \<Longrightarrow> keeps t u \<Longrightarrow> keeps s u"
  unfolding keeps_def by blast+

lemma handled_keeps: "handled s aid \<Longrightarrow> keeps s s' \<Longrightarrow> handled s' aid"
  unfolding handled_def keeps_def by blast

lemma process_item_facts:
  assumes "process_item e (offs, s) (raw, tp, off) = (offs', s')"
  shows "offs' = bump tp off offs" "keeps s s'" "s_batch s' = s_batch s" "s_broker s' = s_broker s"
    "s_observed s' = s_observed s" "s_committed s' = s_committed s" "table_ok (s_db s) \<Longrightarrow> table_ok (s_db s')"
    "(\<And>x. i_disk_ok e x) \<Longrightarrow> handled s' (oget raw ''alert_id'')"
proof -
  let ?raw = "dump_evidence e raw"
  consider (up) d where "alert_payload (i_as_float e) ?raw = Some d" "s' = s\<lparr>s_db := upsert_alert d (s_db s)\<rparr>" "offs' = bump tp off offs"
    | (dl) "s' = safe_dlq_send e ?raw (i_err e ?raw) s" "offs' = bump tp off offs"
    using assms by (auto simp: process_item_def Let_def split: option.splits if_splits)
  note cases = this
  show "offs' = bump tp off offs" by (rule cases)
  show "s_batch s' = s_batch s" "s_broker s' = s_broker s" "s_observed s' = s_observed s" "s_committed s' = s_committed s"
    by (rule cases; simp)+
  show "keeps s s'"
  proof (rule cases)
    fix d assume d: "alert_payload (i_as_float e) ?raw = Some d" "s' = s\<lparr>s_db := upsert_alert d (s_db s)\<rparr>"
    show ?thesis using upsert_ids_kept [OF payload_keys(2,3) [OF d(1)]] by (simp add: d(2) keeps_def)
  qed (simp add: keeps_def)
  show "table_ok (s_db s')" if ok: "table_ok (s_db s)"
  proof (rule cases)
    fix d assume d: "alert_payload (i_as_float e) ?raw = Some d" "s' = s\<lparr>s_db := upsert_alert d (s_db s)\<rparr>"
    show ?thesis using upsert_ok [OF ok payload_keys(2,3) [OF d(1)]] by (simp add: d(2))
  qed (simp add: ok)
  show "handled s' (oget raw ''alert_id'')" if disk: "\<And>x. i_disk_ok e x"
  proof (rule cases)
    fix d assume d: "alert_payload (i_as_float e) ?raw = Some d" "s' = s\<lparr>s_db := upsert_alert d (s_db s)\<rparr>"
    obtain r where "r \<in> set (db_rows (upsert_alert d (s_db s)))" "oget (snd r) ''alert_id'' = oget d ''alert_id''"
      using upsert_present [OF payload_keys(2,3) [OF d(1)], of "s_db s"] payload_keys(3) [OF d(1)] by blast
    then have "oget d ''alert_id'' \<in> row_alert_id ` set (db_rows (upsert_alert d (s_db s)))"
      by (metis imageI row_alert_id_def)
    then show ?thesis using payload_keys(4) [OF d(1)] by (simp add: handled_def d(2))
  next
    assume "s' = safe_dlq_send e ?raw (i_err e ?raw) s"
    then have "(?raw, i_err e ?raw) \<in> set (s_dlq s')"
      by (simp add: safe_dlq_send_def write_to_file_dlq_def disk)
    then show ?thesis by (force simp: handled_def)
  qed
qed

section \<open>Phases\<close>

text \<open>Folding the items of a batch.\<close>

lemma process_fold:
  assumes "foldl (process_item e) (offs, s) batch = (offs', s')"
  shows "offs' = foldl bump_item offs batch \<and> keeps s s' \<and> s_batch s' = s_batch s \<and> s_broker s' = s_broker s \<and>
    s_observed s' = s_observed s \<and> s_committed s' = s_committed s \<and> (table_ok (s_db s) \<longrightarrow> table_ok (s_db s')) \<and>
    ((\<forall>x. i_disk_ok e x) \<longrightarrow> (\<forall>(raw, tp, off)\<in>set batch. handled s' (oget raw ''alert_id'')))"
  using assms
proof (induction batch arbitrary: offs s)
  case (Cons it batch)
  obtain raw tp off where it: "it = (raw, tp, off)" by (cases it)
  obtain o1 s1 where 1: "process_item e (offs, s) (raw, tp, off) = (o1, s1)"
    by (cases "process_item e (offs, s) (raw, tp, off)")
  have rest: "foldl (process_item e) (o1, s1) batch = (offs', s')" using Cons.prems by (simp add: it 1)
  note f = process_item_facts [OF 1] and r = Cons.IH [OF rest]
  have "handled s' (oget raw ''alert_id'')" if "\<forall>x. i_disk_ok e x"
    using handled_keeps [OF f(8)] r that by blast
  moreover have "keeps s s'" using keeps_trans [OF f(2)] r by blast
  ultimately show ?case using f r by (simp add: it bump_item_simp)
qed simp

definition moved_only :: "sink \<Rightarrow> sink \<Rightarrow> bool" where
  "moved_only s s' \<longleftrightarrow> keeps s s' \<and> s_batch s' = s_batch s \<and> s_broker s' = s_broker s \<and>
    s_observed s' = s_observed s \<and> s_committed s' = s_committed s \<and> (table_ok (s_db s) \<longrightarrow> table_ok (s_db s'))"

lemma process_batch_facts:
  assumes "process_batch e (s_batch s) s = (offs, s')"
  shows "moved_only s s'" and "offs = (if i_db_commit e then max_offsets (s_batch s) else [])"
    and "offs \<noteq> [] \<Longrightarrow> (\<And>x. i_disk_ok e x) \<Longrightarrow> (raw, tp, off) \<in> set (s_batch s) \<Longrightarrow> handled s' (oget raw ''alert_id'')"
proof -
  obtain o1 s1 where f: "foldl (process_item e) ([], s) (s_batch s) = (o1, s1)"
    by (cases "foldl (process_item e) ([], s) (s_batch s)")
  note r = process_fold [OF f]
  have out: "(offs, s') = (if i_db_commit e then (o1, s1) else ([], s1\<lparr>s_db := s_db s\<rparr>))"
    using assms by (simp add: process_batch_def f split: if_splits)
  have k: "keeps s (s1\<lparr>s_db := s_db s\<rparr>)" using r by (simp add: keeps_def)
  show "moved_only s s'" using out r k by (auto simp: moved_only_def split: if_splits)
  show "offs = (if i_db_commit e then max_offsets (s_batch s) else [])"
    using out r by (auto simp: max_offsets_def split: if_splits)
  show "handled s' (oget raw ''alert_id'')"
    if "offs \<noteq> []" "\<And>x. i_disk_ok e x" "(raw, tp, off) \<in> set (s_batch s)"
    using out r that by (auto split: if_splits)
qed

lemma write_all_facts:
  "moved_only s (write_all e msg batch s)"
  "(\<And>x. i_disk_ok e x) \<Longrightarrow> (raw, tp, off) \<in> set batch \<Longrightarrow> handled (write_all e msg batch s) (oget raw ''alert_id'')"
proof -
  have "moved_only s (write_all e msg batch s) \<and>
    ((\<forall>x. i_disk_ok e x) \<longrightarrow> (\<forall>(raw, tp, off)\<in>set batch. handled (write_all e msg batch s) (oget raw ''alert_id'')))"
  proof (induction batch arbitrary: s)
    case (Cons it batch)
    obtain r t p where it: "it = (r, t, p)" by (cases it)
    let ?s = "write_to_file_dlq e r msg s"
    have step: "moved_only s ?s" by (simp add: moved_only_def keeps_def)
    have h: "handled ?s (oget r ''alert_id'')" if "\<forall>x. i_disk_ok e x"
      using that by (force simp: handled_def write_to_file_dlq_def)
    from Cons.IH [of ?s] step h handled_keeps keeps_trans show ?case
      by (auto simp: write_all_def it moved_only_def)
  qed (simp add: write_all_def moved_only_def)
  then show "moved_only s (write_all e msg batch s)"
    "(\<And>x. i_disk_ok e x) \<Longrightarrow> (raw, tp, off) \<in> set batch \<Longrightarrow> handled (write_all e msg batch s) (oget raw ''alert_id'')"
    by auto
qed

section \<open>Runs of the loop\<close>

text \<open>
  A consumer is never handed a message before the offset its group has committed. The items
  absorbed so far are a ghost of the run; \<open>works\<close> says whether the disk takes every record.
\<close>

definition polls_ok :: "sink_env \<Rightarrow> sink \<Rightarrow> bool" where
  "polls_ok e s \<longleftrightarrow> (case i_records e of None \<Rightarrow> True
     | Some recs \<Rightarrow> list_all (\<lambda>(tp, msgs). list_all (\<lambda>m. off_of (s_broker s) tp \<le> m_offset m) msgs) recs)"

definition absorbed :: "sink_env \<Rightarrow> sink \<Rightarrow> item set" where
  "absorbed e s = set (drop (length (s_batch s)) (s_batch (poll_phase e s)))"

inductive sink_run :: "bool \<Rightarrow> item set \<Rightarrow> sink \<Rightarrow> bool" for works :: bool where
  start: "s_batch s = [] \<Longrightarrow> s_failures s = 0 \<Longrightarrow> s_observed s = [] \<Longrightarrow> s_committed s = [] \<Longrightarrow>
    table_ok (s_db s) \<Longrightarrow> sink_run works {} s"
| iteration: "sink_run works A s \<Longrightarrow> polls_ok e s \<Longrightarrow> (works \<Longrightarrow> \<forall>x. i_disk_ok e x) \<Longrightarrow>
    sink_run works (A \<union> absorbed e s) (sink_step e s)"

definition sink_ok :: "bool \<Rightarrow> item set \<Rightarrow> sink \<Rightarrow> bool" where
  "sink_ok works A s \<longleftrightarrow> table_ok (s_db s) \<and> distinct (dkeys (s_observed s)) \<and> s_failures s < MAX_CONSECUTIVE_FAILURES \<and>
     (\<forall>tp. - 1 \<le> off_of (s_observed s) tp) \<and>
     (\<forall>tp\<in>set (dkeys (s_observed s)). off_of (s_broker s) tp \<le> off_of (s_observed s) tp) \<and>
     (\<forall>(raw, tp, off)\<in>set (s_batch s). off_of (s_broker s) tp \<le> off \<and> off < off_of (s_observed s) tp) \<and>
     (works \<longrightarrow> (\<forall>(raw, tp, off)\<in>A. handled s (oget raw ''alert_id'') \<or> (raw, tp, off) \<in> set (s_batch s)))"

definition advances :: "sink \<Rightarrow> sink \<Rightarrow> bool" where
  "advances s s' \<longleftrightarrow> (\<forall>tp. off_of (s_broker s) tp \<le> off_of (s_broker s') tp)"

lemma advances_refl [simp]: "advances s s"
  and advances_trans: "advances s t \<Longrightarrow> advances t u \<Longrightarrow> advances s u"
  unfolding advances_def by (auto intro: order_trans)

subsection \<open>Polling\<close>

definition polled :: "sink \<Rightarrow> sink \<Rightarrow> bool" where
  "polled s s' \<longleftrightarrow> (\<exists>new. s_batch s' = s_batch s @ new \<and>
       (\<forall>(raw, tp, off)\<in>set new. off_of (s_broker s) tp \<le> off \<and> off < off_of (s_observed s') tp)) \<and>
     s_db s' = s_db s \<and> s_dlq s' = s_dlq s \<and> s_broker s' = s_broker s \<and> s_committed s' = s_committed s \<and>
     s_failures s' = s_failures s \<and> s_last_commit s' = s_last_commit s \<and>
     (\<forall>tp. off_of (s_observed s) tp \<le> off_of (s_observed s') tp) \<and>
     (\<forall>tp\<in>set (dkeys (s_observed s')) - set (dkeys (s_observed s)). off_of (s_broker s) tp \<le> off_of (s_observed s') tp) \<and>
     (distinct (dkeys (s_observed s)) \<longrightarrow> distinct (dkeys (s_observed s')))"

lemma polled_refl [simp]: "polled s s"
  by (simp add: polled_def)

lemma polled_trans:
  assumes "polled s t" "polled t u" shows "polled s u"
proof -
  obtain new1 new2 where 1: "s_batch t = s_batch s @ new1" "s_batch u = s_batch t @ new2"
    and n1: "\<forall>(raw, tp, off)\<in>set new1. off_of (s_broker s) tp \<le> off \<and> off < off_of (s_observed t) tp"
    and n2: "\<forall>(raw, tp, off)\<in>set new2. off_of (s_broker s) tp \<le> off \<and> off < off_of (s_observed u) tp"
    using assms unfolding polled_def by auto
  have le: "off_of (s_observed t) tp \<le> off_of (s_observed u) tp" for tp using assms by (simp add: polled_def)
  have "\<forall>(raw, tp, off)\<in>set (new1 @ new2). off_of (s_broker s) tp \<le> off \<and> off < off_of (s_observed u) tp"
    using n1 n2 le by (fastforce intro: less_le_trans)
  then have batch: "\<exists>new. s_batch u = s_batch s @ new \<and>
      (\<forall>(raw, tp, off)\<in>set new. off_of (s_broker s) tp \<le> off \<and> off < off_of (s_observed u) tp)"
    using 1 by (intro exI [of _ "new1 @ new2"]) simp
  have "off_of (s_broker s) tp \<le> off_of (s_observed u) tp"
    if "tp \<in> set (dkeys (s_observed u))" "tp \<notin> set (dkeys (s_observed s))" for tp
  proof (cases "tp \<in> set (dkeys (s_observed t))")
    case True
    with that assms(1) have "off_of (s_broker s) tp \<le> off_of (s_observed t) tp" by (simp add: polled_def)
    then show ?thesis using le order_trans by blast
  next
    case False
    with that assms show ?thesis by (simp add: polled_def)
  qed
  moreover have "off_of (s_observed s) tp \<le> off_of (s_observed u) tp" for tp
    using assms(1) le [of tp] order_trans unfolding polled_def by blast
  ultimately show ?thesis using assms batch by (simp add: polled_def)
qed

lemma absorb_polled: "off_of (s_broker s) tp \<le> m_offset m \<Longrightarrow> polled s (absorb_msg e tp s m)"
  by (auto simp: polled_def absorb_msg_def Let_def bump_keys split: pyval.splits sum.splits)

lemma polled_broker: "polled s t \<Longrightarrow> s_broker t = s_broker s"
  by (simp add: polled_def)

lemma absorb_all_polled:
  "list_all (\<lambda>m. off_of (s_broker s) tp \<le> m_offset m) msgs \<Longrightarrow> polled s (foldl (absorb_msg e tp) s msgs)"
proof (induction msgs arbitrary: s)
  case (Cons m msgs)
  have 1: "polled s (absorb_msg e tp s m)" using Cons.prems by (intro absorb_polled) simp
  then show ?case using Cons polled_trans [OF 1] by (simp add: polled_broker [OF 1])
qed simp

lemma poll_polled: "polls_ok e s \<Longrightarrow> polled s (poll_phase e s)"
proof -
  have "list_all (\<lambda>(tp, msgs). list_all (\<lambda>m. off_of (s_broker s) tp \<le> m_offset m) msgs) recs \<Longrightarrow>
    polled s (foldl (\<lambda>s (tp, msgs). foldl (absorb_msg e tp) s msgs) s recs)" for recs
  proof (induction recs arbitrary: s)
    case (Cons r recs)
    obtain tp msgs where r: "r = (tp, msgs)" by (cases r)
    have 1: "polled s (foldl (absorb_msg e tp) s msgs)" using Cons.prems by (intro absorb_all_polled) (simp add: r)
    then show ?case using Cons polled_trans [OF 1] by (simp add: r polled_broker [OF 1])
  qed simp
  then show "polls_ok e s \<Longrightarrow> polled s (poll_phase e s)"
    by (simp add: polls_ok_def poll_phase_def split: option.splits)
qed

lemma poll_ok:
  assumes "sink_ok w A s" "polls_ok e s"
  shows "sink_ok w (A \<union> absorbed e s) (poll_phase e s)" "advances s (poll_phase e s)"
proof -
  let ?t = "poll_phase e s"
  note p = poll_polled [OF assms(2), unfolded polled_def]
  obtain new where new: "s_batch ?t = s_batch s @ new"
    "\<forall>(raw, tp, off)\<in>set new. off_of (s_broker s) tp \<le> off \<and> off < off_of (s_observed ?t) tp"
    using p by blast
  have le: "off_of (s_observed s) tp \<le> off_of (s_observed ?t) tp" for tp using p by blast
  have a: "absorbed e s = set new" by (simp add: absorbed_def new(1))
  have keys: "off_of (s_broker s) tp \<le> off_of (s_observed ?t) tp" if "tp \<in> set (dkeys (s_observed ?t))" for tp
    using that p assms(1) le [of tp] order_trans unfolding sink_ok_def by blast
  have batch: "\<forall>(raw, tp, off)\<in>set (s_batch ?t). off_of (s_broker s) tp \<le> off \<and> off < off_of (s_observed ?t) tp"
    using assms(1) new le unfolding sink_ok_def by (fastforce intro: less_le_trans)
  have hd: "handled ?t aid = handled s aid" for aid using p by (simp add: handled_def)
  have "- 1 \<le> off_of (s_observed ?t) tp" for tp using assms(1) le [of tp] order_trans unfolding sink_ok_def by blast
  then show "sink_ok w (A \<union> absorbed e s) ?t"
    using assms(1) p keys batch by (auto simp: sink_ok_def hd a new(1))
  show "advances s ?t" using p by (simp add: advances_def)
qed

subsection \<open>Emptying the batch\<close>

lemma max_offsets_of:
  assumes "sink_ok w A s"
  shows "distinct (dkeys (max_offsets (s_batch s)))" "set (dkeys (max_offsets (s_batch s))) = tps (s_batch s)"
    "tp \<in> tps (s_batch s) \<Longrightarrow> off_of (s_broker s) tp \<le> off_of (max_offsets (s_batch s)) tp"
    "off_of (max_offsets (s_batch s)) tp \<le> off_of (s_observed s) tp"
proof -
  show "distinct (dkeys (max_offsets (s_batch s)))" by (simp add: max_offsets_def fold_bump_distinct)
  show "set (dkeys (max_offsets (s_batch s))) = tps (s_batch s)" unfolding max_offsets_def fold_bump_keys by simp
  show "off_of (s_broker s) tp \<le> off_of (max_offsets (s_batch s)) tp" if tp: "tp \<in> tps (s_batch s)"
  proof -
    obtain raw off where it: "(raw, tp, off) \<in> set (s_batch s)" using tp by (auto simp: tps_def)
    then have "off_of (s_broker s) tp \<le> off" using assms by (auto simp: sink_ok_def)
    with fold_bump_past [OF it, of "[]"] show ?thesis by (simp add: max_offsets_def)
  qed
  show "off_of (max_offsets (s_batch s)) tp \<le> off_of (s_observed s) tp"
    unfolding max_offsets_def by (rule fold_bump_least) (use assms in \<open>auto simp: sink_ok_def\<close>)
qed

definition emptied :: "sink \<Rightarrow> sink \<Rightarrow> bool" where
  "emptied s s' \<longleftrightarrow> keeps s s' \<and> s_batch s' = [] \<and> s_observed s' = s_observed s \<and> s_failures s' = 0 \<and>
     (table_ok (s_db s) \<longrightarrow> table_ok (s_db s')) \<and>
     (s_broker s' = s_broker s \<or> s_broker s' = dmerge (s_broker s) (max_offsets (s_batch s)))"

lemma ok_emptied:
  assumes "sink_ok w A s" "emptied s s'"
    and saved: "w \<Longrightarrow> \<forall>(raw, tp, off)\<in>set (s_batch s). handled s' (oget raw ''alert_id'')"
  shows "sink_ok w A s'" "advances s s'"
proof -
  note mo = max_offsets_of [OF assms(1)] and em = assms(2) [unfolded emptied_def]
  have all: "handled s' (oget raw ''alert_id'')" if "w" "(raw, tp, off) \<in> A" for raw tp off
  proof -
    have "handled s (oget raw ''alert_id'') \<or> (raw, tp, off) \<in> set (s_batch s)"
      using that assms(1) by (auto simp: sink_ok_def)
    then show ?thesis using handled_keeps [of s _ s'] em saved that by blast
  qed
  have br: "off_of (s_broker s') tp = off_of (s_broker s) tp \<or>
      tp \<in> tps (s_batch s) \<and> off_of (s_broker s') tp = off_of (max_offsets (s_batch s)) tp" for tp
    using em off_of_dmerge [OF mo(1), of "s_broker s" tp] unfolding mo(2) by (cases "tp \<in> tps (s_batch s)") auto
  show "sink_ok w A s'"
    unfolding sink_ok_def
  proof (intro conjI ballI impI)
    fix tp assume "tp \<in> set (dkeys (s_observed s'))"
    then show "off_of (s_broker s') tp \<le> off_of (s_observed s') tp"
      using br [of tp] mo(4) [of tp] em assms(1) by (auto simp: sink_ok_def)
  qed (use em all assms(1) in \<open>auto simp: sink_ok_def MAX_CONSECUTIVE_FAILURES_def\<close>)
  show "advances s s'"
    unfolding advances_def using br mo(3) by (metis order_refl)
qed

lemma ok_moved:
  assumes "sink_ok w A s" "moved_only s s'" "s_failures s' < MAX_CONSECUTIVE_FAILURES"
  shows "sink_ok w A s'" "advances s s'"
proof -
  have h: "handled s' aid" if "handled s aid" for aid
    using that assms(2) handled_keeps by (auto simp: moved_only_def)
  have m: "s_batch s' = s_batch s" "s_broker s' = s_broker s" "s_observed s' = s_observed s"
    "table_ok (s_db s) \<Longrightarrow> table_ok (s_db s')"
    using assms(2) by (simp_all add: moved_only_def)
  have "\<forall>(raw, tp, off)\<in>A. handled s' (oget raw ''alert_id'') \<or> (raw, tp, off) \<in> set (s_batch s)" if w
    using assms(1) that h unfolding sink_ok_def by blast
  then show "sink_ok w A s'"
    using assms(1,3) m(4) unfolding sink_ok_def m(1,2,3) by simp
  show "advances s s'" using assms(2) by (simp add: moved_only_def advances_def)
qed

lemma moved_only_trans: "moved_only s t \<Longrightarrow> moved_only t u \<Longrightarrow> moved_only s u"
  by (auto simp: moved_only_def intro: keeps_trans [of s t u])

lemma process_failures: "process_batch e batch s = (offs, s') \<Longrightarrow> s_failures s' = s_failures s"
proof -
  have item: "s_failures (snd (process_item e (o1, t) it)) = s_failures t" for o1 t it
    by (auto simp: process_item_def Let_def safe_dlq_send_def send_to_dlq_def write_to_file_dlq_def split: prod.splits option.splits)
  have "s_failures (snd (foldl (process_item e) acc batch)) = s_failures (snd acc)" for acc
    by (induction batch arbitrary: acc) (use item in \<open>auto simp: split_pairs\<close>)
  then have "s_failures (snd (foldl (process_item e) ([], s) batch)) = s_failures s" by simp
  then show "process_batch e batch s = (offs, s') \<Longrightarrow> s_failures s' = s_failures s"
    by (auto simp: process_batch_def split: prod.splits if_splits)
qed

lemma commit_fields [simp]:
  "s_batch (commit_offsets offs s) = s_batch s" "s_db (commit_offsets offs s) = s_db s"
  "s_dlq (commit_offsets offs s) = s_dlq s" "s_observed (commit_offsets offs s) = s_observed s"
  "s_failures (commit_offsets offs s) = s_failures s"
  "s_broker (commit_offsets offs s) = dmerge (s_broker s) offs"
  by (simp_all add: commit_offsets_def)

lemma clear_fields [simp]:
  "s_batch (clear_batch e s) = []" "s_db (clear_batch e s) = s_db s" "s_dlq (clear_batch e s) = s_dlq s"
  "s_observed (clear_batch e s) = s_observed s" "s_failures (clear_batch e s) = 0" "s_broker (clear_batch e s) = s_broker s"
  by (simp_all add: clear_batch_def)

lemma evacuate_emptied:
  assumes "moved_only s t" shows "emptied s (evacuate e msg t)"
  using moved_only_trans [OF assms write_all_facts(1) [of t e msg "s_batch t"]] assms
  by (auto simp: emptied_def evacuate_def Let_def moved_only_def keeps_def)

lemma evacuate_handled:
  assumes "\<forall>x. i_disk_ok e x" "(raw, tp, off) \<in> set (s_batch t)"
  shows "handled (evacuate e msg t) (oget raw ''alert_id'')"
  using write_all_facts(2) [of e raw tp off "s_batch t" msg t] assms
  by (auto simp: evacuate_def Let_def handled_def)

lemma failure_ok:
  assumes "sink_ok w A s" "moved_only s t" "s_failures t = s_failures s" "w \<Longrightarrow> \<forall>x. i_disk_ok e x"
  shows "sink_ok w A (after_failure e msg t)" "advances s (after_failure e msg t)"
proof -
  let ?t = "t\<lparr>s_failures := Suc (s_failures t)\<rparr>"
  have m: "moved_only s ?t" and b: "s_batch ?t = s_batch s" using assms(2) by (auto simp: moved_only_def keeps_def)
  have e: "after_failure e msg t = (if s_failures ?t \<ge> MAX_CONSECUTIVE_FAILURES then evacuate e msg ?t else ?t)"
    by (simp add: after_failure_def)
  have h: "\<forall>(raw, tp, off)\<in>set (s_batch s). handled (evacuate e msg ?t) (oget raw ''alert_id'')" if w
    using evacuate_handled [OF assms(4)] that b by fastforce
  note good = ok_moved [OF assms(1) m] ok_emptied [OF assms(1) evacuate_emptied [OF m] h]
  show "sink_ok w A (after_failure e msg t)" "advances s (after_failure e msg t)"
    unfolding e using good by (simp_all add: not_le)
qed

lemma flush_ok:
  assumes "sink_ok w A s" "w \<Longrightarrow> \<forall>x. i_disk_ok e x"
  shows "sink_ok w A (flush_phase e s)" "advances s (flush_phase e s)"
proof -
  obtain offs t where pb: "process_batch e (s_batch s) s = (offs, t)" by (cases "process_batch e (s_batch s) s")
  note f = process_batch_facts [OF pb] and n = process_failures [OF pb]
  have "emptied s (clear_batch e (commit_offsets offs t))" if "offs \<noteq> []"
    using f(1,2) that by (auto simp: emptied_def moved_only_def keeps_def split: if_splits)
  moreover have "handled (clear_batch e (commit_offsets offs t)) (oget raw ''alert_id'')"
    if "offs \<noteq> []" w "(raw, tp, off) \<in> set (s_batch s)" for raw tp off
    using f(3) [OF that(1) _ that(3)] assms(2) that(2) by (auto simp: handled_def)
  ultimately have done1: "sink_ok w A (clear_batch e (commit_offsets offs t))" "advances s (clear_batch e (commit_offsets offs t))"
    if "offs \<noteq> []"
    using ok_emptied [OF assms(1)] that by blast+
  show "sink_ok w A (flush_phase e s)" "advances s (flush_phase e s)"
    using done1 failure_ok [OF assms(1) f(1) n assms(2)] assms(1) by (simp_all add: flush_phase_def pb)
qed

subsection \<open>A whole iteration\<close>

lemma stale_ok:
  assumes "sink_ok w A s"
  shows "sink_ok w A (stale_phase e s)" "advances s (stale_phase e s)"
proof -
  let ?st = "stale_offsets s"
  have dist: "distinct (dkeys ?st)" using assms by (simp add: sink_ok_def stale_offsets_def distinct_map_filter)
  have sub: "dget ?st tp = dget (s_observed s) tp" "tp \<in> set (dkeys (s_observed s))" if key: "tp \<in> set (dkeys ?st)" for tp
  proof -
    obtain v where v: "(tp, v) \<in> set ?st" using key by auto
    then have v': "(tp, v) \<in> set (s_observed s)" by (auto simp: stale_offsets_def)
    show "dget ?st tp = dget (s_observed s) tp"
      using v v' dist assms by (simp add: sink_ok_def map_of_is_SomeI)
    show "tp \<in> set (dkeys (s_observed s))" using v' by force
  qed
  have br: "off_of (dmerge (s_broker s) ?st) tp =
      (if tp \<in> set (dkeys ?st) then off_of (s_observed s) tp else off_of (s_broker s) tp)" for tp
    using off_of_dmerge [OF dist, of "s_broker s" tp] sub(1) [of tp] by (simp add: dget_or_def)
  have seen: "off_of (s_broker s) tp \<le> off_of (s_observed s) tp" if "tp \<in> set (dkeys (s_observed s))" for tp
    using assms that unfolding sink_ok_def by blast
  have le: "off_of (s_broker s) tp \<le> off_of (dmerge (s_broker s) ?st) tp" for tp
    using sub(2) [of tp] seen [of tp] unfolding br by simp
  have up: "off_of (dmerge (s_broker s) ?st) tp \<le> off_of (s_observed s) tp" if "tp \<in> set (dkeys (s_observed s))" for tp
    using seen [OF that] unfolding br by simp
  have same: "handled (commit_offsets ?st s) aid = handled s aid" for aid by (simp add: handled_def)
  show "sink_ok w A (stale_phase e s)"
    using assms up by (auto simp: stale_phase_def sink_ok_def same)
  show "advances s (stale_phase e s)"
    using le by (auto simp: stale_phase_def advances_def)
qed

lemma panic_ok:
  assumes "sink_ok w A s" "w \<Longrightarrow> \<forall>x. i_disk_ok e x"
  shows "sink_ok w A (panic_phase e s)" "advances s (panic_phase e s)"
proof -
  let ?w = "write_all e ''BatchPanicThresholdExceeded'' (s_batch s) s"
  let ?e = "clear_batch e (if i_panic_commit e then ?w\<lparr>s_broker := dmerge (s_broker ?w) (max_offsets (s_batch s))\<rparr> else ?w)"
  have "emptied s ?e"
    using write_all_facts(1) [of s e "''BatchPanicThresholdExceeded''" "s_batch s"]
    by (auto simp: emptied_def moved_only_def keeps_def)
  moreover have "handled ?e (oget raw ''alert_id'')" if w "(raw, tp, off) \<in> set (s_batch s)" for raw tp off
    using write_all_facts(2) [of e raw tp off "s_batch s" "''BatchPanicThresholdExceeded''" s] assms(2) that
    by (auto simp: handled_def)
  ultimately have "sink_ok w A ?e" "advances s ?e" using ok_emptied [OF assms(1), of ?e] by blast+
  then show "sink_ok w A (panic_phase e s)" "advances s (panic_phase e s)"
    using assms(1) by (auto simp: panic_phase_def Let_def)
qed

lemma step_ok:
  assumes "sink_ok w A s" "polls_ok e s" "w \<Longrightarrow> \<forall>x. i_disk_ok e x"
  shows "sink_ok w (A \<union> absorbed e s) (sink_step e s)" "advances s (sink_step e s)"
proof -
  note p = poll_ok [OF assms(1,2)]
  note f = flush_ok [OF p(1) assms(3)]
  note st = stale_ok [OF f(1), of e]
  note pa = panic_ok [OF st(1) assms(3)]
  show "sink_ok w (A \<union> absorbed e s) (sink_step e s)" unfolding sink_step_def by (rule pa(1))
  show "advances s (sink_step e s)"
    unfolding sink_step_def using p(2) f(2) st(2) pa(2) advances_trans by blast
qed

lemma run_ok: "sink_run w A s \<Longrightarrow> sink_ok w A s"
proof (induction rule: sink_run.induct)
  case (start s)
  then show ?case by (simp add: sink_ok_def MAX_CONSECUTIVE_FAILURES_def)
next
  case (iteration A s e)
  then show ?case by (intro step_ok(1)) auto
qed

section \<open>Properties of the sink\<close>

text \<open>No alert is lost between the broker and the table. While the disk takes dead letters,
  every alert the loop has taken from the broker is in the table or the dead-letter file, or it
  still waits in the batch and the offset committed at the broker does not pass it, so that a
  restarted consumer gets it again. Database and broker may fail at any point.\<close>

theorem sink_loses_no_alert:
  assumes "sink_run True A s" "(raw, tp, off) \<in> A"
  shows "handled s (oget raw ''alert_id'') \<or> (raw, tp, off) \<in> set (s_batch s) \<and> off_of (s_broker s) tp \<le> off"
  using run_ok [OF assms(1)] assms(2) by (fastforce simp: sink_ok_def)

text \<open>An iteration in which only the disk works, on a consumer that starts at offset 7.\<close>

definition sample_sink :: sink where
  "sample_sink = \<lparr>s_batch = [], s_last_commit = 0, s_failures = 0, s_observed = [], s_committed = [],
     s_db = \<lparr>db_rows = [], db_next = 1\<rparr>, s_dlq = [], s_topic = [], s_broker = [(''alerts'', 7)]\<rparr>"

definition outage_env :: "real \<Rightarrow> kafka_msg list \<Rightarrow> sink_env" where
  "outage_env now msgs = \<lparr>i_records = Some [(''alerts'', msgs)], i_now = now, i_later = now,
     i_as_float = (\<lambda>_. None), i_dumps = (\<lambda>_. []), i_item_ok = (\<lambda>_. False), i_err = (\<lambda>_. ''error''),
     i_db_commit = False, i_attempt = (\<lambda>_. False), i_evac_commit = False, i_stale_commit = False,
     i_panic_commit = False, i_disk_ok = (\<lambda>_. True), i_topic_ok = (\<lambda>_. False)\<rparr>"

definition sample_msg :: "int \<Rightarrow> kafka_msg" where
  "sample_msg off = \<lparr>m_offset = off, m_size = 20, m_json = Inr (PDict [(''alert_id'', PStr ''a'')])\<rparr>"

lemmas sample_defs = sample_sink_def outage_env_def sample_msg_def polls_ok_def absorbed_def poll_phase_def absorb_msg_def
  MAX_BATCH_SIZE_def MAX_MSG_SIZE_def dump_evidence_def oget_def dget_or_def

lemma sample_start: "sink_run w {} sample_sink"
  by (rule sink_run.start) (simp_all add: sample_sink_def table_ok_def)

lemma sample_absorbed: "absorbed (outage_env 9 [sample_msg 7]) sample_sink = {([(''alert_id'', PStr ''a'')], ''alerts'', 7)}"
  by (simp add: sample_defs Let_def bump_def)

theorem sink_loses_no_alert_witness:
  "\<exists>s. sink_run True {([(''alert_id'', PStr ''a'')], ''alerts'', 7)} s \<and>
     (handled s (PStr ''a'') \<or> ([(''alert_id'', PStr ''a'')], ''alerts'', 7) \<in> set (s_batch s) \<and> off_of (s_broker s) ''alerts'' \<le> 7)"
proof -
  have "sink_run True ({} \<union> absorbed (outage_env 9 [sample_msg 7]) sample_sink) (sink_step (outage_env 9 [sample_msg 7]) sample_sink)"
    by (rule sink_run.iteration [OF sample_start]) (simp_all add: sample_defs)
  then have r: "sink_run True {([(''alert_id'', PStr ''a'')], ''alerts'', 7)} (sink_step (outage_env 9 [sample_msg 7]) sample_sink)"
    unfolding sample_absorbed by simp
  from sink_loses_no_alert [OF r, of "[(''alert_id'', PStr ''a'')]" "''alerts''" 7] r show ?thesis
    by (intro exI [of _ "sink_step (outage_env 9 [sample_msg 7]) sample_sink"]) (simp add: oget_def dget_or_def)
qed

text \<open>C33. While one sink alone commits for its partitions and is never handed a message below the committed
  offset, the committed offset of a partition never moves back, whatever fails in an iteration, so a
  restart never replays what an earlier commit had passed. In a group that is rebalanced it can
  (\<open>Delivery.rebalance_moves_offset_back\<close>).\<close>

theorem sink_offsets_monotone:
  assumes "sink_run w A s" "polls_ok e s"
  shows "off_of (s_broker s) tp \<le> off_of (s_broker (sink_step e s)) tp"
proof -
  have "sink_run False A s" using assms(1) by (induction rule: sink_run.induct) (auto intro: sink_run.intros)
  then have "sink_ok False A s" by (rule run_ok)
  then show ?thesis using step_ok(2) [OF _ assms(2)] by (simp add: advances_def)
qed

theorem sink_offsets_monotone_witness:
  "off_of (s_broker sample_sink) ''alerts'' \<le> off_of (s_broker (sink_step (outage_env 9 [sample_msg 7]) sample_sink)) ''alerts''"
  by (rule sink_offsets_monotone [OF sample_start [of True]]) (simp add: sample_defs)

text \<open>The batch held in memory is bounded: after an iteration it is below the panic threshold,
  whatever was polled and whatever failed.\<close>

lemma sink_batch_bounded: "length (s_batch (sink_step e s)) < 500"
  by (simp add: sink_step_def panic_phase_def PANIC_BATCH_SIZE_def Let_def)

lemma full_batch_step:
  assumes "MAX_BATCH_SIZE \<le> length (s_batch s)" "s_failures s < MAX_CONSECUTIVE_FAILURES"
  shows "s_batch (sink_step e s) = [] \<or>
    s_batch (sink_step e s) = s_batch s \<and> s_failures (sink_step e s) = Suc (s_failures s) \<and> Suc (s_failures s) < MAX_CONSECUTIVE_FAILURES"
proof -
  obtain offs t where pb: "process_batch e (s_batch s) s = (offs, t)" by (cases "process_batch e (s_batch s) s")
  have t: "s_batch t = s_batch s" "s_failures t = s_failures s"
    using process_batch_facts(1) [OF pb] process_failures [OF pb] by (simp_all add: moved_only_def)
  have ne: "s_batch s \<noteq> []" using assms(1) by (auto simp: MAX_BATCH_SIZE_def)
  have poll: "poll_phase e s = s" using assms(1) by (simp add: poll_phase_def)
  have ev: "s_batch (evacuate e m u) = []" for m u by (simp add: evacuate_def Let_def)
  have af: "s_batch (after_failure e m t) = [] \<or> s_batch (after_failure e m t) = s_batch s \<and>
      s_failures (after_failure e m t) = Suc (s_failures s) \<and> Suc (s_failures s) < MAX_CONSECUTIVE_FAILURES" for m
    by (simp add: after_failure_def Let_def ev t)
  have flush: "s_batch (flush_phase e s) = [] \<or> s_batch (flush_phase e s) = s_batch s \<and>
      s_failures (flush_phase e s) = Suc (s_failures s) \<and> Suc (s_failures s) < MAX_CONSECUTIVE_FAILURES"
    using assms(1) af by (simp add: flush_phase_def pb)
  have stale: "s_batch (stale_phase e u) = s_batch u" "s_failures (stale_phase e u) = s_failures u" for u
    by (simp_all add: stale_phase_def)
  have "s_batch (panic_phase e u) = [] \<or> panic_phase e u = u" for u
    by (simp add: panic_phase_def Let_def)
  then show ?thesis unfolding sink_step_def poll using flush stale by metis
qed

lemma poll_full:
  assumes "n \<le> 200"
  shows "s_batch (foldl (absorb_msg (outage_env 0 msgs) ''alerts'') s (replicate n (sample_msg 7))) =
    s_batch s @ replicate n ([(''alert_id'', PStr ''a'')], ''alerts'', 7)"
  by (induction n arbitrary: s) (simp_all add: sample_defs Let_def replicate_app_Cons_same)

section \<open>The dead-letter file\<close>

lemma move_all:
  "\<forall>i. 1 \<le> i \<and> i < k \<longrightarrow> f i = None \<longrightarrow> f (Suc i) = None \<Longrightarrow>
   foldl (\<lambda>f i. move_file i f) f (rev [1..<k]) j =
     (if 2 \<le> j \<and> j \<le> k then f (j - 1) else if j = 1 \<and> 2 \<le> k then None else f j)"
proof (induction k arbitrary: f)
  case (Suc k)
  show ?case
  proof (cases "k = 0")
    case False
    let ?f = "move_file k f"
    have pre: "\<forall>i. 1 \<le> i \<and> i < k \<longrightarrow> ?f i = None \<longrightarrow> ?f (Suc i) = None"
      using Suc.prems by (auto simp: move_file_def)
    have gap: "f (Suc k) = None" if "f k = None" using Suc.prems that False by simp
    have run: "foldl (\<lambda>f i. move_file i f) f (rev [1..<Suc k]) j =
        (if 2 \<le> j \<and> j \<le> k then ?f (j - 1) else if j = 1 \<and> 2 \<le> k then None else ?f j)"
      using Suc.IH [OF pre] False by simp
    consider "j = Suc k" | "j = k" "2 \<le> k" | "j = k" "k = 1" | "j \<noteq> k" "j \<noteq> Suc k" using False by linarith
    then show ?thesis
      unfolding run by cases (use False gap in \<open>auto simp: move_file_def\<close>)
  qed auto
qed simp

text \<open>Rotation loses nothing but the oldest file: with no gap in the numbering, every dead-letter
  file moves up by one, the \<open>keep\<close> newest are kept, and an empty file takes their place.\<close>

lemma rotation_shifts:
  assumes "1 \<le> keep" "f 0 \<noteq> None" "\<forall>i. f i = None \<longrightarrow> f (Suc i) = None"
  shows "rotate_dlq keep blank f j = (if j = 0 then Some blank else if j \<le> keep then f (j - 1) else f j)"
  using assms(1,2) move_all [of keep f] assms(3)
  by (auto simp: rotate_dlq_def move_file_def Let_def)

lemma rotation_shifts_witness:
  "rotate_dlq 5 ''new'' ((\<lambda>_. None)(0 \<mapsto> ''a'', 1 \<mapsto> ''b'')) 2 = Some ''b''"
  by (subst rotation_shifts) (auto split: if_splits)

text \<open>The directory check compares prefixes of the path, not of its components.\<close>

lemma dlq_path_outside: "dlq_path (\<lambda>p. p) [''DLQ_FILE_PATH'' \<mapsto> ''/tmp/dlqevil/x''] = ''/tmp/dlqevil/x''"
  by (simp add: dlq_path_def under_dlq_dir_def getenv_or_def)

end
