(* ===== verification/Delivery.thy ===== *)
theory Delivery
  imports Sink
begin

text \<open>
  Several sinks of one consumer group (\<open>api/kafka_sink.py\<close>, deployed with replicas): they share the
  table, the dead letters and the offsets committed at the broker; each has its own local variables
  and its own position in the log. A process may die between any two writes of an iteration, be
  stopped, or have partitions taken from it and given to it. What a Kafka consumer does is a
  hypothesis of the steps: a poll hands over the messages that follow its position, and a consumer
  that is given a partition starts at the committed offset, or at the first message when there is none.
\<close>

section \<open>Local and shared state\<close>

record store =
  st_db :: alert_db
  st_dlq :: "(obj \<times> string) list"
  st_topic :: "(obj \<times> string) list"
  st_broker :: offsets

definition store_of :: "sink \<Rightarrow> store" where
  "store_of s = \<lparr>st_db = s_db s, st_dlq = s_dlq s, st_topic = s_topic s, st_broker = s_broker s\<rparr>"

definition with_store :: "store \<Rightarrow> sink \<Rightarrow> sink" where
  "with_store st s = s\<lparr>s_db := st_db st, s_dlq := st_dlq st, s_topic := st_topic st, s_broker := st_broker st\<rparr>"

text \<open>The local variables when \<open>run_sink\<close> enters its loop.\<close>

definition fresh_sink :: "real \<Rightarrow> store \<Rightarrow> sink" where
  "fresh_sink now st = \<lparr>s_batch = [], s_last_commit = now, s_failures = 0, s_observed = [], s_committed = [],
     s_db = st_db st, s_dlq = st_dlq st, s_topic = st_topic st, s_broker = st_broker st\<rparr>"

type_synonym topic_log = "tp \<Rightarrow> kafka_msg list"

record member =
  mb_sink :: sink
  mb_pos :: "tp \<Rightarrow> nat"

record group =
  g_store :: store
  g_log :: topic_log
  g_members :: "nat \<Rightarrow> member"

text \<open>The alert a message brings, by its id: what \<open>absorb_msg\<close> lets into the batch.\<close>

definition alert_of :: "kafka_msg \<Rightarrow> pyval option" where
  "alert_of m =
     (if m_size m > MAX_MSG_SIZE then None
      else case m_json m of
        Inr (PDict d) \<Rightarrow> if truthy (oget d ''alert_id'') then Some (oget d ''alert_id'') else None
      | _ \<Rightarrow> None)"

text \<open>An alert is kept when its id is in the table or among the dead letters the sinks wrote.\<close>

definition kept :: "store \<Rightarrow> pyval \<Rightarrow> bool" where
  "kept st aid \<longleftrightarrow> aid \<in> row_alert_id ` set (db_rows (st_db st)) \<or> (\<exists>(x, m)\<in>set (st_dlq st). oget x ''alert_id'' = aid)"

section \<open>Where a process may die\<close>

text \<open>The points are those of every write the phases can make; which of the phases write at all is not
  distinguished, so there are points no iteration has.\<close>

text \<open>Within a batch: after some of its items, with the transaction still open, or after its commit.\<close>

definition batch_cuts :: "sink_env \<Rightarrow> sink \<Rightarrow> sink list" where
  "batch_cuts e s =
     map (\<lambda>n. (snd (foldl (process_item e) ([], s) (take n (s_batch s))))\<lparr>s_db := s_db s\<rparr>) [0..<Suc (length (s_batch s))]
     @ [snd (process_batch e (s_batch s) s)]"

definition evacuation_cuts :: "sink_env \<Rightarrow> string \<Rightarrow> sink \<Rightarrow> sink list" where
  "evacuation_cuts e msg s = map (\<lambda>n. write_all e msg (take n (s_batch s)) s) [0..<Suc (length (s_batch s))]"

definition flush_cuts :: "sink_env \<Rightarrow> sink \<Rightarrow> sink list" where
  "flush_cuts e s =
     (case process_batch e (s_batch s) s of (offs, s1) \<Rightarrow>
        batch_cuts e s
        @ evacuation_cuts e (if offs \<noteq> [] then ''KafkaCommitFailureThresholdExceeded''
                             else ''DatabaseCommitFailureThresholdExceeded'') s1
        @ [flush_phase e s])"

definition crash_points :: "sink_env \<Rightarrow> sink \<Rightarrow> sink list" where
  "crash_points e s =
     (let p = poll_phase e s; f = flush_phase e p; t = stale_phase e f in
      s # flush_cuts e p @ [f, t] @ evacuation_cuts e ''BatchPanicThresholdExceeded'' t @ [panic_phase e t])"

section \<open>The group\<close>

text \<open>The messages a poll hands over, and the position after it: the hypothesis about the consumer.\<close>

definition polled_records :: "sink_env \<Rightarrow> sink \<Rightarrow> (tp \<times> kafka_msg list) list" where
  "polled_records e s =
     (if length (s_batch s) < MAX_BATCH_SIZE then (case i_records e of None \<Rightarrow> [] | Some recs \<Rightarrow> recs) else [])"

fun position_after :: "topic_log \<Rightarrow> (tp \<Rightarrow> nat) \<Rightarrow> (tp \<times> kafka_msg list) list \<Rightarrow> (tp \<Rightarrow> nat) option" where
  "position_after L pos [] = Some pos"
| "position_after L pos ((tp, msgs) # recs) =
     (if msgs = take (length msgs) (drop (pos tp) (L tp))
      then position_after L (pos(tp := pos tp + length msgs)) recs else None)"

definition committed_pos :: "store \<Rightarrow> tp \<Rightarrow> nat" where
  "committed_pos st tp = nat (off_of (st_broker st) tp)"

definition joined :: "group \<Rightarrow> nat \<Rightarrow> sink" where
  "joined g i = with_store (g_store g) (mb_sink (g_members g i))"

definition leave :: "nat \<Rightarrow> sink \<Rightarrow> (tp \<Rightarrow> nat) \<Rightarrow> group \<Rightarrow> group" where
  "leave i s pos g = g\<lparr>g_store := store_of s, g_members := (g_members g)(i := \<lparr>mb_sink = s, mb_pos = pos\<rparr>)\<rparr>"

definition restarted :: "nat \<Rightarrow> real \<Rightarrow> sink \<Rightarrow> group \<Rightarrow> group" where
  "restarted i now s g = leave i (fresh_sink now (store_of s)) (committed_pos (store_of s)) g"

definition takes_all :: "sink_env \<Rightarrow> bool" where
  "takes_all e \<longleftrightarrow> (\<forall>x. i_disk_ok e x)"

definition numbered :: "topic_log \<Rightarrow> bool" where
  "numbered L \<longleftrightarrow> (\<forall>tp k. k < length (L tp) \<longrightarrow> m_offset (L tp ! k) = int k)"

inductive group_run :: "group \<Rightarrow> bool" where
  start: "table_ok (st_db (g_store g)) \<Longrightarrow> st_broker (g_store g) = [] \<Longrightarrow> numbered (g_log g) \<Longrightarrow>
    (\<And>i. \<exists>now. g_members g i = \<lparr>mb_sink = fresh_sink now (g_store g), mb_pos = (\<lambda>_. 0)\<rparr>) \<Longrightarrow> group_run g"
| produce: "group_run g \<Longrightarrow> m_offset m = int (length (g_log g tp)) \<Longrightarrow>
    group_run (g\<lparr>g_log := (g_log g)(tp := g_log g tp @ [m])\<rparr>)"
| iterate: "group_run g \<Longrightarrow> takes_all e \<Longrightarrow>
    position_after (g_log g) (mb_pos (g_members g i)) (polled_records e (joined g i)) = Some pos \<Longrightarrow>
    group_run (leave i (sink_step e (joined g i)) pos g)"
| crash: "group_run g \<Longrightarrow> takes_all e \<Longrightarrow>
    position_after (g_log g) (mb_pos (g_members g i)) (polled_records e (joined g i)) = Some pos \<Longrightarrow>
    c \<in> set (crash_points e (joined g i)) \<Longrightarrow> group_run (restarted i now c g)"
| shutdown: "group_run g \<Longrightarrow> takes_all e \<Longrightarrow>
    c \<in> set (batch_cuts e (joined g i)) \<or> c = sink_shutdown e (joined g i) \<Longrightarrow> group_run (restarted i now c g)"
| rebalance: "group_run g \<Longrightarrow> (\<And>tp. pos tp = mb_pos (g_members g i) tp \<or> pos tp = committed_pos (g_store g) tp) \<Longrightarrow>
    group_run (leave i (joined g i) pos g)"

section \<open>The invariant of one member\<close>

definition pending :: "sink \<Rightarrow> tp \<Rightarrow> nat \<Rightarrow> pyval \<Rightarrow> bool" where
  "pending s tp k aid \<longleftrightarrow> (\<exists>raw. (raw, tp, int k) \<in> set (s_batch s) \<and> oget raw ''alert_id'' = aid)"

text \<open>Every message of a partition below \<open>n\<close> that brings an alert has been handled, or waits in the batch.\<close>

definition log_accounted :: "topic_log \<Rightarrow> sink \<Rightarrow> tp \<Rightarrow> int \<Rightarrow> bool" where
  "log_accounted L s tp n \<longleftrightarrow> n \<le> int (length (L tp)) \<and>
     (\<forall>k aid. int k < n \<longrightarrow> alert_of (L tp ! k) = Some aid \<longrightarrow> handled s aid \<or> pending s tp k aid)"

definition settled :: "topic_log \<Rightarrow> sink \<Rightarrow> bool" where
  "settled L s \<longleftrightarrow> table_ok (s_db s) \<and> (\<forall>tp. off_of (s_broker s) tp \<le> int (length (L tp)) \<and>
     (\<forall>k aid. int k < off_of (s_broker s) tp \<longrightarrow> alert_of (L tp ! k) = Some aid \<longrightarrow> handled s aid))"

definition local_ok :: "topic_log \<Rightarrow> sink \<Rightarrow> (tp \<Rightarrow> nat) \<Rightarrow> bool" where
  "local_ok L s pos \<longleftrightarrow> distinct (dkeys (s_observed s)) \<and>
     (\<forall>(raw, tp, off)\<in>set (s_batch s). off < off_of (s_observed s) tp) \<and>
     (\<forall>tp. - 1 \<le> off_of (s_observed s) tp \<and> log_accounted L s tp (off_of (s_observed s) tp) \<and> log_accounted L s tp (int (pos tp)))"

lemma accounted_mono:
  "log_accounted L s tp n \<Longrightarrow> keeps s s' \<Longrightarrow> set (s_batch s) \<subseteq> set (s_batch s') \<Longrightarrow> log_accounted L s' tp n"
  unfolding log_accounted_def pending_def using handled_keeps by (meson subsetD)

lemma accounted_le: "log_accounted L s tp n \<Longrightarrow> m \<le> n \<Longrightarrow> log_accounted L s tp m"
  unfolding log_accounted_def by (meson order_less_le_trans order_trans)

lemma local_ok_keeps:
  assumes "local_ok L s pos" "keeps s s'" "s_batch s' = s_batch s" "s_observed s' = s_observed s"
  shows "local_ok L s' pos"
  using assms accounted_mono [OF _ assms(2)] unfolding local_ok_def by (metis order_refl)

lemma settled_keeps:
  assumes "settled L s" "keeps s s'" "s_broker s' = s_broker s" "table_ok (s_db s) \<longrightarrow> table_ok (s_db s')"
  shows "settled L s'"
  using assms handled_keeps unfolding settled_def by metis

text \<open>With an empty batch everything observed is handled; so is everything a batch reaches once its
  items are.\<close>

lemma settled_commit:
  assumes "settled L s" "keeps s s'" "table_ok (s_db s) \<longrightarrow> table_ok (s_db s')" "s_broker s' = dmerge (s_broker s) offs"
    and offs: "distinct (dkeys offs)"
      "\<And>tp. tp \<in> set (dkeys offs) \<Longrightarrow> log_accounted L s tp (off_of offs tp) \<and> (\<forall>k aid. pending s tp k aid \<longrightarrow> handled s' aid)"
  shows "settled L s'"
proof -
  have "off_of (s_broker s') tp \<le> int (length (L tp)) \<and>
      (\<forall>k aid. int k < off_of (s_broker s') tp \<longrightarrow> alert_of (L tp ! k) = Some aid \<longrightarrow> handled s' aid)" for tp
  proof (cases "tp \<in> set (dkeys offs)")
    case True
    then have "off_of (s_broker s') tp = off_of offs tp" using off_of_dmerge [OF offs(1)] by (simp add: assms(4))
    with offs(2) [OF True] show ?thesis unfolding log_accounted_def using handled_keeps assms(2) by metis
  next
    case False
    then have "off_of (s_broker s') tp = off_of (s_broker s) tp" using off_of_dmerge [OF offs(1)] by (simp add: assms(4))
    with assms(1) show ?thesis unfolding settled_def using handled_keeps assms(2) by metis
  qed
  moreover have "table_ok (s_db s')" using assms(1,3) by (simp add: settled_def)
  ultimately show ?thesis by (simp add: settled_def)
qed

lemma max_offsets_below:
  assumes "local_ok L s pos"
  shows "off_of (max_offsets (s_batch s)) tp \<le> off_of (s_observed s) tp"
  unfolding max_offsets_def by (rule fold_bump_least) (use assms in \<open>auto simp: local_ok_def\<close>)

lemma max_offsets_distinct: "distinct (dkeys (max_offsets batch))"
  by (simp add: max_offsets_def fold_bump_distinct)

definition batch_saved :: "sink \<Rightarrow> sink \<Rightarrow> bool" where
  "batch_saved s s' \<longleftrightarrow> (\<forall>(raw, tp, off)\<in>set (s_batch s). handled s' (oget raw ''alert_id''))"

lemma batch_saved_pending: "batch_saved s s' \<Longrightarrow> pending s tp k aid \<Longrightarrow> handled s' aid"
  by (auto simp: batch_saved_def pending_def)

lemma emptied_ok:
  assumes "settled L s" "local_ok L s pos" "emptied s s'" "batch_saved s s'"
  shows "settled L s'" "local_ok L s' pos"
proof -
  note em = assms(3) [unfolded emptied_def]
  have acc: "log_accounted L s tp (off_of (max_offsets (s_batch s)) tp)" for tp
    using assms(2) max_offsets_below [OF assms(2)] accounted_le unfolding local_ok_def by blast
  show "settled L s'"
  proof (cases "s_broker s' = s_broker s")
    case True
    then show ?thesis using settled_keeps [OF assms(1)] em by blast
  next
    case False
    then have "s_broker s' = dmerge (s_broker s) (max_offsets (s_batch s))" using em by blast
    then show ?thesis
      using settled_commit [OF assms(1) _ _ _ max_offsets_distinct] acc batch_saved_pending [OF assms(4)] em by blast
  qed
  have "log_accounted L s' tp n" if "log_accounted L s tp n" for tp n
    using that em batch_saved_pending [OF assms(4)] handled_keeps unfolding log_accounted_def by metis
  then show "local_ok L s' pos" using assms(2) em by (auto simp: local_ok_def)
qed

section \<open>The phases keep the invariant\<close>

lemma absorb_alert: "absorb_msg e tp s m =
    (let s1 = s\<lparr>s_observed := bump tp (m_offset m) (s_observed s)\<rparr> in
     case alert_of m of None \<Rightarrow> s1
     | Some aid \<Rightarrow> (case m_json m of Inr (PDict d) \<Rightarrow> s1\<lparr>s_batch := s_batch s1 @ [(dump_evidence e d, tp, m_offset m)]\<rparr> | _ \<Rightarrow> s1))"
  by (auto simp: absorb_msg_def alert_of_def Let_def split: sum.splits pyval.splits)

lemma absorb_same [simp]:
  "s_db (absorb_msg e tp s m) = s_db s" "s_dlq (absorb_msg e tp s m) = s_dlq s" "s_broker (absorb_msg e tp s m) = s_broker s"
  "s_observed (absorb_msg e tp s m) = bump tp (m_offset m) (s_observed s)"
  "set (s_batch s) \<subseteq> set (s_batch (absorb_msg e tp s m))"
  by (auto simp: absorb_msg_def Let_def split: sum.splits pyval.splits)

lemma absorb_batch:
  "(raw, t, off) \<in> set (s_batch (absorb_msg e tp s m)) \<Longrightarrow> (raw, t, off) \<in> set (s_batch s) \<or> t = tp \<and> off = m_offset m"
  by (auto simp: absorb_msg_def Let_def split: sum.splits pyval.splits if_splits)

lemma absorb_keeps [simp]: "keeps s (absorb_msg e tp s m)"
  by (simp add: keeps_def)

lemma absorb_pending:
  assumes "alert_of m = Some aid" "m_offset m = int k"
  shows "pending (absorb_msg e tp s m) tp k aid"
  using assms by (auto simp: pending_def absorb_msg_def alert_of_def Let_def split: sum.splits pyval.splits if_splits)

lemma absorb_accounted_next:
  assumes "log_accounted L s tp (int k)" "k < length (L tp)" "m_offset (L tp ! k) = int k"
  shows "log_accounted L (absorb_msg e tp s (L tp ! k)) tp (int (Suc k))"
  unfolding log_accounted_def
proof (intro conjI allI impI)
  fix j aid assume j: "int j < int (Suc k)" "alert_of (L tp ! j) = Some aid"
  let ?s = "absorb_msg e tp s (L tp ! k)"
  show "handled ?s aid \<or> pending ?s tp j aid"
  proof (cases "j = k")
    case True
    then show ?thesis using absorb_pending j(2) assms(3) by blast
  next
    case False
    have "log_accounted L ?s tp (int k)" by (rule accounted_mono [OF assms(1)]) simp_all
    then show ?thesis using False j by (simp add: log_accounted_def)
  qed
qed (use assms(2) in simp)

lemma absorb_ok:
  assumes "local_ok L s pos" "pos tp < length (L tp)" "numbered L"
  shows "local_ok L (absorb_msg e tp s (L tp ! pos tp)) (pos(tp := Suc (pos tp)))"
proof -
  let ?s = "absorb_msg e tp s (L tp ! pos tp)"
  have off: "m_offset (L tp ! pos tp) = int (pos tp)" using assms(2,3) by (simp add: numbered_def)
  have next1: "log_accounted L ?s tp (int (Suc (pos tp)))"
    by (rule absorb_accounted_next) (use assms off in \<open>simp_all add: local_ok_def\<close>)
  have old: "log_accounted L ?s t n" if "log_accounted L s t n" for t n by (rule accounted_mono [OF that]) simp_all
  have obs: "off_of (s_observed ?s) t = (if t = tp then max (off_of (s_observed s) tp) (int (Suc (pos tp))) else off_of (s_observed s) t)" for t
    by (simp add: off add.commute)
  have "log_accounted L ?s t (off_of (s_observed ?s) t)" for t
    using old next1 assms(1) unfolding obs local_ok_def by (simp add: max_def)
  moreover have "\<forall>(raw, t, o')\<in>set (s_batch ?s). o' < off_of (s_observed ?s) t"
  proof (clarify)
    fix raw t o' assume "(raw, t, o') \<in> set (s_batch ?s)"
    from absorb_batch [OF this] show "o' < off_of (s_observed ?s) t"
      using assms(1) unfolding obs local_ok_def off by fastforce
  qed
  moreover have "- 1 \<le> off_of (s_observed ?s) t" for t using assms(1) unfolding obs local_ok_def by (simp add: le_max_iff_disj)
  moreover have "log_accounted L ?s t (int ((pos(tp := Suc (pos tp))) t))" for t
    using old next1 assms(1) by (simp add: local_ok_def)
  moreover have "distinct (dkeys (s_observed ?s))" using assms(1) bump_keys(2) by (simp add: local_ok_def)
  ultimately show ?thesis unfolding local_ok_def by blast
qed

definition same_store :: "sink \<Rightarrow> sink \<Rightarrow> bool" where
  "same_store s s' \<longleftrightarrow> s_db s' = s_db s \<and> s_dlq s' = s_dlq s \<and> s_broker s' = s_broker s"

lemma same_store_settled: "same_store s s' \<Longrightarrow> settled L s \<Longrightarrow> settled L s'"
  using settled_keeps [of L s s'] by (simp add: same_store_def keeps_def)

lemma same_store_trans: "same_store s t \<Longrightarrow> same_store t u \<Longrightarrow> same_store s u"
  by (simp add: same_store_def)

text \<open>Whatever every message handed over in order keeps, a poll keeps.\<close>

lemma slice_induct:
  assumes "P s pos" "msgs = take (length msgs) (drop (pos tp) (L tp))"
    and "\<And>s pos. P s pos \<Longrightarrow> pos tp < length (L tp) \<Longrightarrow> P (absorb_msg e tp s (L tp ! pos tp)) (pos(tp := Suc (pos tp)))"
  shows "P (foldl (absorb_msg e tp) s msgs) (pos(tp := pos tp + length msgs))"
  using assms(1,2)
proof (induction msgs arbitrary: s pos)
  case (Cons m msgs)
  let ?pos = "pos(tp := Suc (pos tp))"
  have lt: "pos tp < length (L tp)" using Cons.prems(2) by (cases "pos tp < length (L tp)") simp_all
  then have "drop (pos tp) (L tp) = L tp ! pos tp # drop (Suc (pos tp)) (L tp)" by (rule Cons_nth_drop_Suc [symmetric])
  with Cons.prems(2) have m: "m = L tp ! pos tp" and rest: "msgs = take (length msgs) (drop (?pos tp) (L tp))" by simp_all
  have "P (absorb_msg e tp s m) ?pos" unfolding m by (rule assms(3) [OF Cons.prems(1) lt])
  moreover have "?pos(tp := ?pos tp + length msgs) = pos(tp := pos tp + length (m # msgs))" by (simp add: fun_eq_iff)
  ultimately show ?case using Cons.IH [of _ ?pos, OF _ rest] unfolding foldl_Cons by metis
qed simp

lemma records_induct:
  assumes "P s pos" "position_after L pos recs = Some pos'"
    and step: "\<And>s pos tp. P s pos \<Longrightarrow> pos tp < length (L tp) \<Longrightarrow> P (absorb_msg e tp s (L tp ! pos tp)) (pos(tp := Suc (pos tp)))"
  shows "P (foldl (\<lambda>s (tp, msgs). foldl (absorb_msg e tp) s msgs) s recs) pos'"
  using assms(1,2)
proof (induction recs arbitrary: s pos)
  case (Cons r recs)
  obtain tp msgs where r: "r = (tp, msgs)" by (cases r)
  from Cons.prems(2) have sl: "msgs = take (length msgs) (drop (pos tp) (L tp))"
    and rest: "position_after L (pos(tp := pos tp + length msgs)) recs = Some pos'" by (simp_all add: r split: if_splits)
  have "P (foldl (absorb_msg e tp) s msgs) (pos(tp := pos tp + length msgs))"
    by (rule slice_induct [where P = P and L = L and tp = tp and pos = pos, OF Cons.prems(1) sl]) (rule step)
  from Cons.IH [OF this rest] show ?case by (simp add: r)
qed simp

lemma absorb_records_ok:
  assumes "local_ok L s pos" "numbered L" "position_after L pos recs = Some pos'"
  shows "local_ok L (foldl (\<lambda>s (tp, msgs). foldl (absorb_msg e tp) s msgs) s recs) pos' \<and>
    same_store s (foldl (\<lambda>s (tp, msgs). foldl (absorb_msg e tp) s msgs) s recs)"
proof (rule records_induct [where P = "\<lambda>t pos. local_ok L t pos \<and> same_store s t", OF _ assms(3)])
  show "local_ok L s pos \<and> same_store s s" using assms(1) by (simp add: same_store_def)
  show "local_ok L (absorb_msg e tp t (L tp ! pos tp)) (pos(tp := Suc (pos tp))) \<and> same_store s (absorb_msg e tp t (L tp ! pos tp))"
    if "local_ok L t pos \<and> same_store s t" "pos tp < length (L tp)" for t pos tp
    using that absorb_ok [OF _ _ assms(2)] by (simp add: same_store_def)
qed

lemma poll_eq: "poll_phase e s = foldl (\<lambda>s (tp, msgs). foldl (absorb_msg e tp) s msgs) s (polled_records e s)"
  by (simp add: poll_phase_def polled_records_def split: option.split)

lemma poll_keeps_ok:
  assumes "settled L s" "local_ok L s pos" "numbered L" "position_after L pos (polled_records e s) = Some pos'"
  shows "settled L (poll_phase e s)" "local_ok L (poll_phase e s) pos'"
  using absorb_records_ok [OF assms(2,3,4), of e] same_store_settled [OF _ assms(1)] by (simp_all add: poll_eq)

lemma moved_ok:
  assumes "settled L s" "local_ok L s pos" "moved_only s s'"
  shows "settled L s'" "local_ok L s' pos"
  using settled_keeps [OF assms(1)] local_ok_keeps [OF assms(2)] assms(3) by (simp_all add: moved_only_def)

lemma moved_set_db: "moved_only s t \<Longrightarrow> moved_only s (t\<lparr>s_db := s_db s\<rparr>)"
  by (simp add: moved_only_def keeps_def)

lemma fold_moved: "moved_only s (snd (foldl (process_item e) (offs, s) batch))"
proof (cases "foldl (process_item e) (offs, s) batch")
  case (Pair o1 s1)
  from process_fold [OF Pair] show ?thesis by (simp add: moved_only_def Pair)
qed

lemma batch_cuts_moved: "c \<in> set (batch_cuts e s) \<Longrightarrow> moved_only s c"
  using fold_moved moved_set_db process_batch_facts(1) [of e s]
  unfolding batch_cuts_def by (cases "process_batch e (s_batch s) s") fastforce

lemma evacuation_cuts_moved: "c \<in> set (evacuation_cuts e msg s) \<Longrightarrow> moved_only s c"
  using write_all_facts(1) by (fastforce simp: evacuation_cuts_def)

lemma evacuate_saved: "takes_all e \<Longrightarrow> s_batch t = s_batch s \<Longrightarrow> batch_saved s (evacuate e msg t)"
  using evacuate_handled [of e] unfolding batch_saved_def takes_all_def by fastforce

text \<open>A flush leaves the batch alone, or empties it with everything in it handled.\<close>

lemma flush_cases:
  assumes "takes_all e"
  obtains "moved_only s (flush_phase e s)" | "emptied s (flush_phase e s)" "batch_saved s (flush_phase e s)"
proof -
  obtain offs t where pb: "process_batch e (s_batch s) s = (offs, t)" by (cases "process_batch e (s_batch s) s")
  note f = process_batch_facts [OF pb]
  have fail: "moved_only s (after_failure e msg t) \<or> emptied s (after_failure e msg t) \<and> batch_saved s (after_failure e msg t)" for msg
  proof -
    let ?t = "t\<lparr>s_failures := Suc (s_failures t)\<rparr>"
    have m: "moved_only s ?t" "s_batch ?t = s_batch s" using f(1) by (auto simp: moved_only_def keeps_def)
    show ?thesis
      using evacuate_emptied [OF m(1), of e msg] evacuate_saved [OF assms m(2), of msg] m(1)
      by (simp add: after_failure_def Let_def)
  qed
  have done1: "emptied s (clear_batch e (commit_offsets offs t)) \<and> batch_saved s (clear_batch e (commit_offsets offs t))" if "offs \<noteq> []"
    using f that assms by (auto simp: emptied_def moved_only_def keeps_def batch_saved_def takes_all_def handled_def split: if_splits)
  have "moved_only s s" by (simp add: moved_only_def)
  then have "moved_only s (flush_phase e s) \<or> emptied s (flush_phase e s) \<and> batch_saved s (flush_phase e s)"
    using fail done1 by (simp add: flush_phase_def pb)
  then show thesis using that by blast
qed

lemma flush_keeps_ok:
  assumes "settled L s" "local_ok L s pos" "takes_all e"
  shows "settled L (flush_phase e s)" "local_ok L (flush_phase e s) pos"
  by (cases rule: flush_cases [OF assms(3), of s]; use moved_ok [OF assms(1,2)] emptied_ok [OF assms(1,2)] in blast)+

lemma stale_keeps_ok:
  assumes "settled L s" "local_ok L s pos"
  shows "settled L (stale_phase e s)" "local_ok L (stale_phase e s) pos"
proof -
  let ?st = "stale_offsets s"
  have dist: "distinct (dkeys ?st)" using assms(2) by (simp add: local_ok_def stale_offsets_def distinct_map_filter)
  have sub: "off_of ?st tp = off_of (s_observed s) tp" if key: "tp \<in> set (dkeys ?st)" for tp
  proof -
    obtain v where v: "(tp, v) \<in> set ?st" using key by auto
    then have "(tp, v) \<in> set (s_observed s)" by (auto simp: stale_offsets_def)
    with v dist assms(2) show ?thesis by (simp add: local_ok_def dget_or_def map_of_is_SomeI)
  qed
  have "settled L (commit_offsets ?st s)" if "s_batch s = []"
  proof (rule settled_commit [OF assms(1) _ _ _ dist])
    fix tp assume "tp \<in> set (dkeys ?st)"
    then show "log_accounted L s tp (off_of ?st tp) \<and> (\<forall>k aid. pending s tp k aid \<longrightarrow> handled (commit_offsets ?st s) aid)"
      using sub assms(2) that by (simp add: local_ok_def pending_def)
  qed (simp_all add: keeps_def)
  then show "settled L (stale_phase e s)" using assms(1) by (simp add: stale_phase_def)
  have "local_ok L (commit_offsets ?st s) pos"
    by (rule local_ok_keeps [OF assms(2)]) (simp_all add: keeps_def)
  then show "local_ok L (stale_phase e s) pos" using assms(2) by (simp add: stale_phase_def)
qed

lemma panic_keeps_ok:
  assumes "settled L s" "local_ok L s pos" "takes_all e"
  shows "settled L (panic_phase e s)" "local_ok L (panic_phase e s) pos"
proof -
  let ?w = "write_all e ''BatchPanicThresholdExceeded'' (s_batch s) s"
  let ?e = "clear_batch e (if i_panic_commit e then ?w\<lparr>s_broker := dmerge (s_broker ?w) (max_offsets (s_batch s))\<rparr> else ?w)"
  have "emptied s ?e"
    using write_all_facts(1) [of s e "''BatchPanicThresholdExceeded''" "s_batch s"]
    by (auto simp: emptied_def moved_only_def keeps_def)
  moreover have "batch_saved s ?e"
    using write_all_facts(2) [of e _ _ _ "s_batch s" "''BatchPanicThresholdExceeded''" s] assms(3)
    by (auto simp: batch_saved_def takes_all_def handled_def)
  ultimately have "settled L ?e" "local_ok L ?e pos" using emptied_ok [OF assms(1,2)] by blast+
  then show "settled L (panic_phase e s)" "local_ok L (panic_phase e s) pos"
    using assms(1,2) by (auto simp: panic_phase_def Let_def)
qed

lemma step_keeps_ok:
  assumes "settled L s" "local_ok L s pos" "numbered L" "position_after L pos (polled_records e s) = Some pos'" "takes_all e"
  shows "settled L (sink_step e s)" "local_ok L (sink_step e s) pos'"
  using panic_keeps_ok [OF stale_keeps_ok [OF flush_keeps_ok [OF poll_keeps_ok [OF assms(1-4)] assms(5)]] assms(5)]
  by (simp_all add: sink_step_def)

text \<open>Whatever the point of a crash, what it leaves is settled.\<close>

lemma flush_cuts_settled:
  assumes "settled L s" "local_ok L s pos" "takes_all e" "c \<in> set (flush_cuts e s)"
  shows "settled L c"
proof -
  obtain offs t where pb: "process_batch e (s_batch s) s = (offs, t)" by (cases "process_batch e (s_batch s) s")
  have t: "moved_only s t" by (rule process_batch_facts [OF pb])
  from assms(4) consider "moved_only s c" | "moved_only t c" | "c = flush_phase e s"
    using batch_cuts_moved evacuation_cuts_moved by (auto simp: flush_cuts_def pb)
  then show ?thesis
    using moved_ok(1) [OF assms(1,2)] moved_only_trans [OF t] flush_keeps_ok(1) [OF assms(1,2,3)] by cases blast+
qed

lemma crash_settled:
  assumes "settled L s" "local_ok L s pos" "numbered L" "position_after L pos (polled_records e s) = Some pos'" "takes_all e"
    and c: "c \<in> set (crash_points e s)"
  shows "settled L c"
proof -
  note p = poll_keeps_ok [OF assms(1-4)]
  note f = flush_keeps_ok [OF p assms(5)]
  note st = stale_keeps_ok [OF f, of e]
  from c consider "c = s" | "c \<in> set (flush_cuts e (poll_phase e s))" | "c = flush_phase e (poll_phase e s)"
    | "c = stale_phase e (flush_phase e (poll_phase e s))"
    | "moved_only (stale_phase e (flush_phase e (poll_phase e s))) c"
    | "c = panic_phase e (stale_phase e (flush_phase e (poll_phase e s)))"
    using evacuation_cuts_moved by (auto simp: crash_points_def Let_def)
  then show ?thesis
    using assms(1) flush_cuts_settled [OF p assms(5)] f(1) st(1) moved_ok(1) [OF st] panic_keeps_ok(1) [OF st assms(5)]
    by cases blast+
qed

lemma shutdown_settled:
  assumes "settled L s" "local_ok L s pos" "takes_all e"
  shows "settled L (sink_shutdown e s)"
proof -
  obtain offs t where pb: "process_batch e (s_batch s) s = (offs, t)" by (cases "process_batch e (s_batch s) s")
  note f = process_batch_facts [OF pb]
  let ?c = "t\<lparr>s_broker := dmerge (s_broker t) offs\<rparr>"
  have "emptied s (?c\<lparr>s_batch := [], s_failures := 0\<rparr>)" "batch_saved s (?c\<lparr>s_batch := [], s_failures := 0\<rparr>)" if "offs \<noteq> []"
    using f that assms(3) by (auto simp: emptied_def moved_only_def keeps_def batch_saved_def takes_all_def handled_def split: if_splits)
  then have "settled L (?c\<lparr>s_batch := [], s_failures := 0\<rparr>)" if "offs \<noteq> []" using emptied_ok(1) [OF assms(1,2)] that by blast
  then have "settled L ?c" if "offs \<noteq> []" using that by (simp add: settled_def handled_def)
  then show ?thesis using moved_ok(1) [OF assms(1,2) f(1)] assms(1) by (simp add: sink_shutdown_def pb)
qed

section \<open>The invariant of the group\<close>

lemma with_store_fields [simp]:
  "s_batch (with_store st s) = s_batch s" "s_observed (with_store st s) = s_observed s"
  "s_committed (with_store st s) = s_committed s" "s_failures (with_store st s) = s_failures s"
  "s_last_commit (with_store st s) = s_last_commit s" "s_db (with_store st s) = st_db st"
  "s_dlq (with_store st s) = st_dlq st" "s_topic (with_store st s) = st_topic st" "s_broker (with_store st s) = st_broker st"
  by (simp_all add: with_store_def)

lemma with_store_of [simp]: "with_store (store_of s) s = s"
  by (simp add: with_store_def store_of_def)

lemma handled_kept: "handled s aid \<longleftrightarrow> kept (store_of s) aid"
  by (simp add: handled_def kept_def store_of_def)

lemma handled_with [simp]: "handled (with_store st s) aid \<longleftrightarrow> kept st aid"
  by (simp add: handled_def kept_def)

lemma settled_with: "settled L (with_store (store_of s) t) \<longleftrightarrow> settled L s"
  by (simp add: settled_def handled_kept) (simp add: store_of_def)

lemma fresh_fields [simp]:
  "s_batch (fresh_sink now st) = []" "s_observed (fresh_sink now st) = []" "store_of (fresh_sink now st) = st"
  "with_store st' (fresh_sink now st) = fresh_sink now st'" "s_last_commit (fresh_sink now st) = now"
  by (simp_all add: fresh_sink_def store_of_def with_store_def)

definition group_ok :: "group \<Rightarrow> bool" where
  "group_ok g \<longleftrightarrow> numbered (g_log g) \<and>
     (\<forall>i. settled (g_log g) (joined g i) \<and> local_ok (g_log g) (joined g i) (mb_pos (g_members g i)))"

definition store_keeps :: "store \<Rightarrow> store \<Rightarrow> bool" where
  "store_keeps st st' \<longleftrightarrow> (\<forall>aid. kept st aid \<longrightarrow> kept st' aid)"

lemma local_ok_store:
  assumes "local_ok L (with_store st s) pos" "store_keeps st st'"
  shows "local_ok L (with_store st' s) pos"
  using assms unfolding local_ok_def log_accounted_def store_keeps_def pending_def by simp blast

text \<open>A member that writes leaves the others their local variables, and what was stored.\<close>

lemma leave_ok:
  assumes "group_ok g" "settled (g_log g) s" "local_ok (g_log g) s pos" "store_keeps (g_store g) (store_of s)"
  shows "group_ok (leave i s pos g)"
proof -
  have "settled (g_log g) (joined (leave i s pos g) j)" for j
    using assms(2) by (simp add: joined_def leave_def settled_with)
  moreover have "local_ok (g_log g) (joined (leave i s pos g) j) (mb_pos (g_members (leave i s pos g) j))" for j
  proof (cases "j = i")
    case True
    with assms(3) show ?thesis by (simp add: joined_def leave_def)
  next
    case False
    have "local_ok (g_log g) (joined g j) (mb_pos (g_members g j))" using assms(1) by (simp add: group_ok_def)
    then show ?thesis using local_ok_store assms(4) False by (simp add: joined_def leave_def)
  qed
  ultimately show ?thesis using assms(1) by (simp add: group_ok_def leave_def)
qed

lemma keeps_store: "keeps s s' \<Longrightarrow> store_keeps (store_of s) (store_of s')"
  by (auto simp: store_keeps_def handled_kept [symmetric] intro: handled_keeps)

lemma joined_store [simp]: "store_of (joined g i) = g_store g"
  by (simp add: joined_def store_of_def with_store_def)

lemma poll_keeps: "keeps s (poll_phase e s)"
proof -
  have slice: "keeps s (foldl (absorb_msg e tp) s msgs)" for s tp msgs
    by (induction msgs arbitrary: s) (auto intro: keeps_trans [OF absorb_keeps])
  have "keeps s (foldl (\<lambda>s (tp, msgs). foldl (absorb_msg e tp) s msgs) s recs)" for recs
    by (induction recs arbitrary: s) (auto intro: keeps_trans [OF slice])
  then show ?thesis by (simp add: poll_eq)
qed

lemma flush_keeps: "takes_all e \<Longrightarrow> keeps s (flush_phase e s)"
  by (cases rule: flush_cases [of e s]) (auto simp: moved_only_def emptied_def)

lemma stale_keeps: "keeps s (stale_phase e s)"
  by (simp add: stale_phase_def keeps_def)

lemma panic_keeps: "keeps s (panic_phase e s)"
  using write_all_facts(1) [of s e "''BatchPanicThresholdExceeded''" "s_batch s"]
  by (auto simp: panic_phase_def Let_def moved_only_def keeps_def)

lemma step_keeps: "takes_all e \<Longrightarrow> keeps s (sink_step e s)"
  unfolding sink_step_def using poll_keeps flush_keeps stale_keeps panic_keeps keeps_trans by meson

lemma moved_only_keeps: "moved_only s t \<Longrightarrow> keeps s t"
  by (simp add: moved_only_def)

lemma crash_keeps:
  assumes "takes_all e" "c \<in> set (crash_points e s)"
  shows "keeps s c"
proof -
  let ?p = "poll_phase e s" let ?f = "flush_phase e ?p" let ?t = "stale_phase e ?f"
  obtain offs u where pb: "process_batch e (s_batch ?p) ?p = (offs, u)" by (cases "process_batch e (s_batch ?p) ?p")
  have u: "moved_only ?p u" by (rule process_batch_facts [OF pb])
  have f: "keeps s ?f" and t: "keeps s ?t" using poll_keeps flush_keeps [OF assms(1)] stale_keeps keeps_trans by meson+
  from assms(2) consider "c = s" | "moved_only ?p c" | "moved_only u c" | "c = ?f" | "c = ?t" | "moved_only ?t c" | "c = panic_phase e ?t"
    using batch_cuts_moved evacuation_cuts_moved by (auto simp: crash_points_def Let_def flush_cuts_def pb)
  then show ?thesis
  proof cases
    case 2
    then show ?thesis by (rule keeps_trans [OF poll_keeps moved_only_keeps])
  next
    case 3
    then show ?thesis by (rule keeps_trans [OF poll_keeps moved_only_keeps [OF moved_only_trans [OF u]]])
  next
    case 6
    then show ?thesis by (rule keeps_trans [OF t moved_only_keeps])
  next
    case 7
    show ?thesis unfolding 7 by (rule keeps_trans [OF t panic_keeps])
  qed (simp_all add: f t)
qed

lemma shutdown_keeps:
  assumes "c \<in> set (batch_cuts e s) \<or> c = sink_shutdown e s"
  shows "keeps s c"
proof -
  obtain offs t where pb: "process_batch e (s_batch s) s = (offs, t)" by (cases "process_batch e (s_batch s) s")
  have "keeps s t" using process_batch_facts(1) [OF pb] by (simp add: moved_only_def)
  then have "keeps s (sink_shutdown e s)" by (auto simp: sink_shutdown_def pb keeps_def)
  then show ?thesis using assms batch_cuts_moved by (auto simp: moved_only_def)
qed

lemma committed_accounted: "settled L s \<Longrightarrow> log_accounted L s tp (int (committed_pos (store_of s) tp))"
  unfolding settled_def log_accounted_def committed_pos_def
  by (cases "0 \<le> off_of (s_broker s) tp") (auto simp: store_of_def)

text \<open>A process that starts again where the group stands knows nothing, and needs nothing.\<close>

lemma fresh_ok:
  assumes "settled L c"
  shows "local_ok L (fresh_sink now (store_of c)) (committed_pos (store_of c))" "settled L (fresh_sink now (store_of c))"
proof -
  let ?s = "fresh_sink now (store_of c)"
  show st: "settled L ?s" using assms settled_with [of L c ?s] by simp
  have "log_accounted L ?s tp (int (committed_pos (store_of c) tp))" for tp
    using committed_accounted [OF st] by simp
  then show "local_ok L ?s (committed_pos (store_of c))" by (simp add: local_ok_def log_accounted_def dget_or_def)
qed

lemma restart_ok:
  assumes "group_ok g" "settled (g_log g) c" "keeps (joined g i) c"
  shows "group_ok (restarted i now c g)"
  unfolding restarted_def
  by (rule leave_ok [OF assms(1) fresh_ok(2,1) [OF assms(2)]]) (use keeps_store [OF assms(3)] in simp)

lemma produce_ok:
  assumes "group_ok g" "m_offset m = int (length (g_log g tp))"
  shows "group_ok (g\<lparr>g_log := (g_log g)(tp := g_log g tp @ [m])\<rparr>)"
proof -
  let ?L = "(g_log g)(tp := g_log g tp @ [m])"
  have same: "?L t ! k = g_log g t ! k" if "k < length (g_log g t)" for t k using that by (auto simp: nth_append)
  have len: "length (g_log g t) \<le> length (?L t)" for t by simp
  have acc: "log_accounted ?L s t n" if a: "log_accounted (g_log g) s t n" for s t n
    unfolding log_accounted_def
  proof (intro conjI allI impI)
    show "n \<le> int (length (?L t))" using a len [of t] unfolding log_accounted_def by linarith
    fix k aid assume k: "int k < n" "alert_of (?L t ! k) = Some aid"
    then have "k < length (g_log g t)" using a unfolding log_accounted_def by linarith
    with a k show "handled s aid \<or> pending s t k aid" unfolding log_accounted_def by (metis same)
  qed
  have sett: "settled ?L s" if a: "settled (g_log g) s" for s
    unfolding settled_def
  proof (intro conjI allI impI)
    show "off_of (s_broker s) t \<le> int (length (?L t))" for t using a len [of t] unfolding settled_def by (meson order_trans zle_int)
    fix t k aid assume k: "int k < off_of (s_broker s) t" "alert_of (?L t ! k) = Some aid"
    have "off_of (s_broker s) t \<le> int (length (g_log g t))" using a unfolding settled_def by blast
    with k have "k < length (g_log g t)" by linarith
    with a k show "handled s aid" unfolding settled_def by (metis same)
  qed (use a in \<open>simp add: settled_def\<close>)
  have "numbered ?L" using assms by (auto simp: group_ok_def numbered_def nth_append less_Suc_eq)
  then show ?thesis
    using assms(1) acc sett unfolding group_ok_def local_ok_def by (simp add: joined_def)
qed

lemma rebalance_ok:
  assumes "group_ok g" "\<And>tp. pos tp = mb_pos (g_members g i) tp \<or> pos tp = committed_pos (g_store g) tp"
  shows "group_ok (leave i (joined g i) pos g)"
proof (rule leave_ok [OF assms(1)])
  have ok: "settled (g_log g) (joined g i)" "local_ok (g_log g) (joined g i) (mb_pos (g_members g i))"
    using assms(1) by (simp_all add: group_ok_def)
  show "settled (g_log g) (joined g i)" by (rule ok)
  have "log_accounted (g_log g) (joined g i) tp (int (committed_pos (g_store g) tp))" for tp
    using committed_accounted [OF ok(1)] by simp
  then show "local_ok (g_log g) (joined g i) pos" using ok(2) assms(2) unfolding local_ok_def by metis
qed (simp add: store_keeps_def)

lemma run_group_ok: "group_run g \<Longrightarrow> group_ok g"
proof (induction rule: group_run.induct)
  case (start g)
  have "settled (g_log g) (joined g i) \<and> local_ok (g_log g) (joined g i) (mb_pos (g_members g i))" for i
  proof -
    obtain now where i: "g_members g i = \<lparr>mb_sink = fresh_sink now (g_store g), mb_pos = (\<lambda>_. 0)\<rparr>" using start(4) by blast
    then have j: "joined g i = fresh_sink now (g_store g)" by (simp add: joined_def)
    show ?thesis using start(1,2) unfolding j i
      by (simp add: settled_def local_ok_def log_accounted_def fresh_sink_def dget_or_def)
  qed
  with start(3) show ?case by (simp add: group_ok_def)
next
  case (iterate g e i pos)
  then have "settled (g_log g) (joined g i)" "local_ok (g_log g) (joined g i) (mb_pos (g_members g i))" "numbered (g_log g)"
    by (simp_all add: group_ok_def)
  from step_keeps_ok [OF this iterate(3,2)] show ?case
    using leave_ok [OF iterate(4)] keeps_store [OF step_keeps [OF iterate(2)], of "joined g i"] by simp
next
  case (crash g e i pos c now)
  then have "settled (g_log g) (joined g i)" "local_ok (g_log g) (joined g i) (mb_pos (g_members g i))" "numbered (g_log g)"
    by (simp_all add: group_ok_def)
  from crash_settled [OF this crash(3,2,4)] show ?case by (rule restart_ok [OF crash(5) _ crash_keeps [OF crash(2,4)]])
next
  case (shutdown g e c i now)
  then have ok: "settled (g_log g) (joined g i)" "local_ok (g_log g) (joined g i) (mb_pos (g_members g i))"
    by (simp_all add: group_ok_def)
  have "settled (g_log g) c"
    using shutdown(3) shutdown_settled [OF ok shutdown(2)] moved_ok(1) [OF ok] batch_cuts_moved by blast
  then show ?case by (rule restart_ok [OF shutdown(4) _ shutdown_keeps [OF shutdown(3)]])
qed (auto intro: produce_ok rebalance_ok)

section \<open>A full batch\<close>

text \<open>When a full batch is gone after an iteration, what was in it is handled.\<close>

lemma panic_saved: "takes_all e \<Longrightarrow> panic_phase e s = s \<or> batch_saved s (panic_phase e s)"
proof -
  assume "takes_all e"
  then have "batch_saved s (write_all e ''BatchPanicThresholdExceeded'' (s_batch s) s)"
    using write_all_facts(2) [of e _ _ _ "s_batch s" "''BatchPanicThresholdExceeded''" s]
    unfolding batch_saved_def takes_all_def by blast
  then show ?thesis by (simp add: panic_phase_def Let_def batch_saved_def handled_def)
qed

lemma batch_saved_keeps: "batch_saved s t \<Longrightarrow> keeps t u \<Longrightarrow> batch_saved s u"
  unfolding batch_saved_def using handled_keeps by blast

lemma full_step_saved:
  assumes "takes_all e" "MAX_BATCH_SIZE \<le> length (s_batch s)" "s_batch (sink_step e s) = []"
  shows "batch_saved s (sink_step e s)"
proof -
  have poll: "poll_phase e s = s" using assms(2) by (simp add: poll_phase_def)
  let ?t = "stale_phase e (flush_phase e s)"
  have step: "sink_step e s = panic_phase e ?t" by (simp add: sink_step_def poll)
  have t: "s_batch ?t = s_batch (flush_phase e s)" by (simp add: stale_phase_def)
  show ?thesis
  proof (cases rule: flush_cases [OF assms(1), of s])
    case 1
    then have "s_batch ?t = s_batch s" by (simp add: t moved_only_def)
    moreover have "s_batch s \<noteq> []" using assms(2) by (auto simp: MAX_BATCH_SIZE_def)
    ultimately have "batch_saved ?t (sink_step e s)" using panic_saved [OF assms(1), of ?t] assms(3) step by auto
    with \<open>s_batch ?t = s_batch s\<close> show ?thesis by (simp add: batch_saved_def)
  next
    case 2
    have "keeps (flush_phase e s) (sink_step e s)" unfolding step by (rule keeps_trans [OF stale_keeps panic_keeps])
    with 2(2) show ?thesis by (rule batch_saved_keeps)
  qed
qed

lemma full_run_saved:
  "MAX_BATCH_SIZE \<le> length (s_batch s) \<Longrightarrow> s_failures s < MAX_CONSECUTIVE_FAILURES \<Longrightarrow>
   MAX_CONSECUTIVE_FAILURES \<le> s_failures s + length es \<Longrightarrow>
   \<exists>k\<le>length es. s_batch (foldl (\<lambda>s e. sink_step e s) s (take k es)) = [] \<and>
     ((\<forall>e\<in>set es. takes_all e) \<longrightarrow> batch_saved s (foldl (\<lambda>s e. sink_step e s) s (take k es)))"
proof (induction es arbitrary: s)
  case (Cons e es)
  from full_batch_step [OF Cons.prems(1,2), of e] show ?case
  proof
    assume "s_batch (sink_step e s) = []"
    then show ?thesis using full_step_saved [OF _ Cons.prems(1)] by (intro exI [of _ 1]) simp
  next
    assume keep: "s_batch (sink_step e s) = s_batch s \<and> s_failures (sink_step e s) = Suc (s_failures s) \<and>
      Suc (s_failures s) < MAX_CONSECUTIVE_FAILURES"
    then obtain k where "k \<le> length es" "s_batch (foldl (\<lambda>s e. sink_step e s) (sink_step e s) (take k es)) = []"
      "(\<forall>e\<in>set es. takes_all e) \<longrightarrow> batch_saved (sink_step e s) (foldl (\<lambda>s e. sink_step e s) (sink_step e s) (take k es))"
      using Cons.IH [of "sink_step e s"] Cons.prems by auto
    with keep show ?thesis by (intro exI [of _ "Suc k"]) (simp add: batch_saved_def)
  qed
qed simp

text \<open>C18. A full batch never stalls the sink and never vanishes: within five iterations, whatever the database,
  the broker and the disk answer in them, it is empty; and if the disk takes dead letters in them, every
  alert that was in it is then in the table or in the dead-letter file.\<close>

theorem sink_never_stalls:
  assumes "sink_run w A s" "100 \<le> length (s_batch s)" "length es = 5"
  shows "\<exists>k\<le>5. s_batch (foldl (\<lambda>s e. sink_step e s) s (take k es)) = [] \<and>
    ((\<forall>e\<in>set es. \<forall>x. i_disk_ok e x) \<longrightarrow>
      (\<forall>(raw, tp, off)\<in>set (s_batch s). handled (foldl (\<lambda>s e. sink_step e s) s (take k es)) (oget raw ''alert_id'')))"
  using full_run_saved [of s es] assms(2,3)
    run_ok [of False A s] run_ok [of True A s] assms(1)
  by (cases w) (auto simp: MAX_BATCH_SIZE_def MAX_CONSECUTIVE_FAILURES_def sink_ok_def takes_all_def batch_saved_def)

text \<open>A hundred alerts polled at once, while the last commit is recent: the batch waits, then is gone.\<close>

theorem sink_never_stalls_witness:
  "\<exists>A s. sink_run True A s \<and> 100 \<le> length (s_batch s) \<and>
     (\<exists>k\<le>5. s_batch (foldl (\<lambda>s e. sink_step e s) s (take k (replicate 5 (outage_env 0 [])))) = [] \<and>
       (\<forall>(raw, tp, off)\<in>set (s_batch s).
         handled (foldl (\<lambda>s e. sink_step e s) s (take k (replicate 5 (outage_env 0 [])))) (oget raw ''alert_id'')))"
proof -
  let ?e = "outage_env 0 (replicate 100 (sample_msg 7))"
  let ?s = "sink_step ?e sample_sink"
  have r: "sink_run True ({} \<union> absorbed ?e sample_sink) ?s"
    by (rule sink_run.iteration [OF sample_start]) (simp_all add: sample_defs list_all_length)
  have poll: "s_batch (poll_phase ?e sample_sink) = replicate 100 ([(''alert_id'', PStr ''a'')], ''alerts'', 7)"
  proof -
    have "poll_phase ?e sample_sink = foldl (absorb_msg ?e ''alerts'') sample_sink (replicate 100 (sample_msg 7))"
      by (simp add: poll_phase_def sample_sink_def MAX_BATCH_SIZE_def) (simp add: outage_env_def)
    then show ?thesis using poll_full [of 100] by (simp add: sample_sink_def)
  qed
  let ?p = "poll_phase ?e sample_sink"
  have f0: "s_failures ?p = 0"
    using poll_polled [of ?e sample_sink] by (simp add: polled_def sample_defs list_all_length)
  obtain offs t where pb: "process_batch ?e (s_batch ?p) ?p = (offs, t)" by (cases "process_batch ?e (s_batch ?p) ?p")
  note f = process_batch_facts [OF pb]
  have "offs = []" using f(2) by (simp add: outage_env_def)
  moreover have "MAX_BATCH_SIZE \<le> length (s_batch ?p)" using poll by (simp add: MAX_BATCH_SIZE_def)
  ultimately have "flush_phase ?e ?p = after_failure ?e ''DatabaseCommitFailureThresholdExceeded'' t"
    unfolding flush_phase_def pb by simp
  then have "s_batch (flush_phase ?e ?p) = s_batch ?p"
    using f(1) process_failures [OF pb] f0 by (simp add: after_failure_def MAX_CONSECUTIVE_FAILURES_def moved_only_def)
  then have full: "100 \<le> length (s_batch ?s)"
    using poll by (simp add: sink_step_def stale_phase_def panic_phase_def PANIC_BATCH_SIZE_def)
  have "\<forall>e\<in>set (replicate 5 (outage_env 0 [])). \<forall>x. i_disk_ok e x" by (simp add: outage_env_def)
  with sink_never_stalls [OF r full, of "replicate 5 (outage_env 0 [])"] r full show ?thesis by (metis length_replicate)
qed

section \<open>Delivery\<close>

text \<open>C1. No alert is lost however the sinks of the group run, die and are rescheduled. In every
  reachable state the alert of a message is kept, in the table or among the sinks' dead letters, or its
  offset is at least the one committed, so that whoever is given the partition gets it again; and a
  message that is delivered twice is stored once. The hypothesis of the runs is that the disk takes
  dead letters.\<close>

theorem at_least_once:
  assumes "group_run g" "k < length (g_log g tp)" "alert_of (g_log g tp ! k) = Some aid"
  shows "(kept (g_store g) aid \<or> committed_pos (g_store g) tp \<le> k) \<and> distinct (map row_alert_id (db_rows (st_db (g_store g))))"
proof -
  have s: "settled (g_log g) (joined g i)" for i using run_group_ok [OF assms(1)] by (simp add: group_ok_def)
  have b: "s_broker (joined g i) = st_broker (g_store g)" "s_db (joined g i) = st_db (g_store g)" for i by (simp_all add: joined_def)
  have "kept (g_store g) aid" if "\<not> committed_pos (g_store g) tp \<le> k"
  proof -
    have "int k < off_of (st_broker (g_store g)) tp" using that by (simp add: committed_pos_def)
    with s assms(3) have "handled (joined g i) aid" for i unfolding settled_def b by blast
    then show ?thesis by (simp add: handled_kept)
  qed
  moreover have "table_ok (st_db (g_store g))" using s [of 0] unfolding settled_def b by blast
  ultimately show ?thesis by (auto simp: table_ok_def)
qed

text \<open>What is left is made up for by any process that starts again and is answered. Its session: iterations
  in environments of which \<open>ok\<close> holds, each handed any messages that follow its position, as many or as
  few as the consumer's poll returns (\<open>max_poll_records\<close>), or none. \<open>n\<close> counts the answered ones: those
  handed a message of the given partitions, or with none left there.\<close>

definition behind :: "group \<Rightarrow> nat \<Rightarrow> tp list \<Rightarrow> bool" where
  "behind g i parts \<longleftrightarrow> (\<exists>tp\<in>set parts. mb_pos (g_members g i) tp < length (g_log g tp))"

definition answered :: "group \<Rightarrow> nat \<Rightarrow> tp list \<Rightarrow> sink_env \<Rightarrow> bool" where
  "answered g i parts e \<longleftrightarrow>
     (\<exists>(tp, msgs)\<in>set (polled_records e (joined g i)). tp \<in> set parts \<and> msgs \<noteq> []) \<or> \<not> behind g i parts"

inductive catching :: "(sink_env \<Rightarrow> bool) \<Rightarrow> nat \<Rightarrow> tp list \<Rightarrow> group \<Rightarrow> nat \<Rightarrow> group \<Rightarrow> bool"
  for ok :: "sink_env \<Rightarrow> bool" and i :: nat and parts :: "tp list" and g :: group where
  idle: "catching ok i parts g 0 g"
| serve: "catching ok i parts g n g1 \<Longrightarrow> ok e \<Longrightarrow>
    position_after (g_log g1) (mb_pos (g_members g1 i)) (polled_records e (joined g1 i)) = Some pos \<Longrightarrow>
    catching ok i parts g (if answered g1 i parts e then Suc n else n) (leave i (sink_step e (joined g1 i)) pos g1)"

text \<open>A working environment: the disk takes dead letters, the database commits, and one of the attempts to
  commit offsets gets through. In a storing one the database also takes every item and the payload model
  every number.\<close>

definition working :: "sink_env \<Rightarrow> bool" where
  "working e \<longleftrightarrow> takes_all e \<and> i_db_commit e \<and> list_ex (i_attempt e) [0..<MAX_COMMIT_RETRIES]"

definition storing :: "sink_env \<Rightarrow> bool" where
  "storing e \<longleftrightarrow> working e \<and> (\<forall>d. i_item_ok e d) \<and> (\<forall>v. num_val v \<noteq> None \<longrightarrow> i_as_float e v \<noteq> None)"

definition left_over :: "topic_log \<Rightarrow> tp list \<Rightarrow> (tp \<Rightarrow> nat) \<Rightarrow> nat" where
  "left_over L parts pos = (\<Sum>tp\<in>set parts. length (L tp) - pos tp)"

subsection \<open>A session reaches the end of the log\<close>

lemma position_mono: "position_after L pos recs = Some pos' \<Longrightarrow> pos tp \<le> pos' tp"
proof (induction recs arbitrary: pos)
  case (Cons r recs)
  obtain t msgs where r: "r = (t, msgs)" by (cases r)
  with Cons.prems have "position_after L (pos(t := pos t + length msgs)) recs = Some pos'" by (simp split: if_splits)
  from Cons.IH [OF this] show ?case by (cases "t = tp") simp_all
qed simp

lemma position_progress:
  "position_after L pos recs = Some pos' \<Longrightarrow> (tp, msgs) \<in> set recs \<Longrightarrow> msgs \<noteq> [] \<Longrightarrow> pos tp < pos' tp \<and> pos tp < length (L tp)"
proof (induction recs arbitrary: pos)
  case (Cons r recs)
  obtain t ms where r: "r = (t, ms)" by (cases r)
  let ?pos = "pos(t := pos t + length ms)"
  from Cons.prems(1) have sl: "ms = take (length ms) (drop (pos t) (L t))" and rest: "position_after L ?pos recs = Some pos'"
    by (simp_all add: r split: if_splits)
  show ?case
  proof (cases "(tp, msgs) = r")
    case True
    then have ms: "tp = t" "msgs = ms" by (simp_all add: r)
    then have "drop (pos tp) (L tp) \<noteq> []" using sl Cons.prems(3) by (metis take_Nil)
    then have "pos tp < length (L tp)" "0 < length ms" using Cons.prems(3) ms by auto
    moreover have "pos t + length ms \<le> pos' t" using position_mono [OF rest, of t] by simp
    ultimately show ?thesis unfolding ms(1) by linarith
  next
    case False
    with Cons.prems(2) have "(tp, msgs) \<in> set recs" by simp
    from Cons.IH [OF rest this Cons.prems(3)] show ?thesis by (cases "t = tp") simp_all
  qed
qed simp

lemma left_over_step:
  assumes "position_after L pos recs = Some pos'"
  shows "left_over L parts pos' \<le> left_over L parts pos"
    and "(tp, msgs) \<in> set recs \<Longrightarrow> msgs \<noteq> [] \<Longrightarrow> tp \<in> set parts \<Longrightarrow> left_over L parts pos' < left_over L parts pos"
proof -
  have le: "length (L t) - pos' t \<le> length (L t) - pos t" for t using position_mono [OF assms, of t] by simp
  show "left_over L parts pos' \<le> left_over L parts pos" unfolding left_over_def by (rule sum_mono) (rule le)
  show "left_over L parts pos' < left_over L parts pos" if "(tp, msgs) \<in> set recs" "msgs \<noteq> []" "tp \<in> set parts"
  proof -
    have "length (L tp) - pos' tp < length (L tp) - pos tp" using position_progress [OF assms that(1,2)] diff_less_mono2 by blast
    then show ?thesis unfolding left_over_def using that(3) le by (intro sum_strict_mono_ex1) auto
  qed
qed

lemma leave_fields [simp]:
  "g_log (leave i s pos g) = g_log g" "joined (leave i s pos g) i = s" "mb_pos (g_members (leave i s pos g) i) = pos"
  "g_store (leave i s pos g) = store_of s"
  by (simp_all add: leave_def joined_def)

lemma catching_log: "catching ok i parts g n g1 \<Longrightarrow> g_log g1 = g_log g"
  by (induction rule: catching.induct) simp_all

lemma catching_run: "catching ok i parts g n g1 \<Longrightarrow> group_run g \<Longrightarrow> (\<And>e. ok e \<Longrightarrow> takes_all e) \<Longrightarrow> group_run g1"
  by (induction rule: catching.induct) (auto intro: group_run.iterate)

lemma catching_left:
  "catching ok i parts g n g1 \<Longrightarrow>
   left_over (g_log g) parts (mb_pos (g_members g1 i)) \<le> left_over (g_log g) parts (mb_pos (g_members g i)) - n"
proof (induction rule: catching.induct)
  case (serve n g1 e pos)
  note log = catching_log [OF serve(1)]
  note step = left_over_step [OF serve(3) [unfolded log], where parts = parts]
  have ended: "left_over (g_log g) parts (mb_pos (g_members g1 i)) = 0" if "\<not> behind g1 i parts"
    using that by (auto simp: behind_def left_over_def log not_less)
  show ?case
  proof (cases "answered g1 i parts e")
    case True
    then have "left_over (g_log g) parts pos < left_over (g_log g) parts (mb_pos (g_members g1 i)) \<or>
        left_over (g_log g) parts (mb_pos (g_members g1 i)) = 0"
      using step(2) ended unfolding answered_def by fastforce
    with True serve.IH step(1) show ?thesis by (simp only: leave_fields if_True) linarith
  next
    case False
    with serve.IH step(1) show ?thesis by (simp only: leave_fields if_False)
  qed
qed simp

lemma catching_mono: "catching ok i parts g n g1 \<Longrightarrow> (\<And>e. ok e \<Longrightarrow> ok' e) \<Longrightarrow> catching ok' i parts g n g1"
proof (induction rule: catching.induct)
  case (serve n g1 e pos)
  show ?case by (rule catching.serve [OF serve.IH [OF serve.prems] serve.prems [OF serve.hyps(2)] serve.hyps(3)])
qed (rule catching.idle)

text \<open>What an iteration in a working environment does to the batch: a full one is flushed at once, any
  one after five seconds.\<close>

lemma working_flush:
  assumes "working e"
  shows "flush_phase e s = s \<and> length (s_batch s) < MAX_BATCH_SIZE \<and> (s_batch s = [] \<or> i_now e - s_last_commit s < 5) \<or>
    (\<exists>offs t. process_batch e (s_batch s) s = (offs, t) \<and> flush_phase e s = clear_batch e (commit_offsets offs t))"
proof -
  obtain offs t where pb: "process_batch e (s_batch s) s = (offs, t)" by (cases "process_batch e (s_batch s) s")
  have keys: "set (dkeys (max_offsets (s_batch s))) = tps (s_batch s)" unfolding max_offsets_def fold_bump_keys by simp
  have "s_batch s \<noteq> [] \<Longrightarrow> max_offsets (s_batch s) \<noteq> []" using keys by (auto simp: tps_def)
  then have "s_batch s \<noteq> [] \<Longrightarrow> offs \<noteq> []" using process_batch_facts(2) [OF pb] assms by (simp add: working_def)
  moreover have "s_batch s \<noteq> []" if "MAX_BATCH_SIZE \<le> length (s_batch s)" using that by (auto simp: MAX_BATCH_SIZE_def)
  ultimately show ?thesis using assms pb by (auto simp: flush_phase_def working_def not_le)
qed

lemma working_step:
  assumes "working e"
  shows "sink_step e s = stale_phase e (flush_phase e (poll_phase e s))" "length (s_batch (sink_step e s)) < MAX_BATCH_SIZE"
    "5 \<le> i_now e - s_last_commit (poll_phase e s) \<Longrightarrow> s_batch (sink_step e s) = []"
proof -
  have f: "length (s_batch (flush_phase e p)) < MAX_BATCH_SIZE"
    "5 \<le> i_now e - s_last_commit p \<Longrightarrow> s_batch (flush_phase e p) = []" for p
    using working_flush [OF assms, of p] by (auto simp: MAX_BATCH_SIZE_def)
  have st: "s_batch (stale_phase e t) = s_batch t" for t by (simp add: stale_phase_def)
  show eq: "sink_step e s = stale_phase e (flush_phase e (poll_phase e s))"
    using f(1) [of "poll_phase e s"] by (simp add: sink_step_def panic_phase_def st MAX_BATCH_SIZE_def PANIC_BATCH_SIZE_def)
  show "length (s_batch (sink_step e s)) < MAX_BATCH_SIZE" unfolding eq st by (rule f(1))
  show "s_batch (sink_step e s) = []" if "5 \<le> i_now e - s_last_commit (poll_phase e s)" unfolding eq st using that by (rule f(2))
qed

lemma poll_last_commit [simp]: "s_last_commit (poll_phase e s) = s_last_commit s"
proof -
  have one: "s_last_commit (absorb_msg e tp s m) = s_last_commit s" for tp s m
    by (simp add: absorb_msg_def Let_def split: sum.split pyval.split)
  have "s_last_commit (foldl (absorb_msg e tp) s msgs) = s_last_commit s" for tp s msgs
    by (induction msgs arbitrary: s) (simp_all add: one)
  then have "s_last_commit (foldl (\<lambda>s (tp, msgs). foldl (absorb_msg e tp) s msgs) s recs) = s_last_commit s" for recs
    by (induction recs arbitrary: s) (auto simp: split_beta)
  then show ?thesis by (simp add: poll_eq)
qed

lemma restarted_run: "group_run g \<Longrightarrow> group_run (restarted i now (joined g i) g)"
proof -
  assume g: "group_run g"
  obtain e where e: "takes_all e" "i_records e = None"
    by (rule that [of "outage_env 0 []\<lparr>i_records := None\<rparr>"]) (simp_all add: takes_all_def outage_env_def)
  show ?thesis
    by (rule group_run.crash [OF g e(1)]) (simp_all add: polled_records_def e(2) crash_points_def Let_def)
qed

lemma restarted_fields [simp]:
  "g_log (restarted i now c g) = g_log g" "joined (restarted i now c g) i = fresh_sink now (store_of c)"
  "mb_pos (g_members (restarted i now c g) i) = committed_pos (store_of c)" "g_store (restarted i now c g) = store_of c"
  by (simp_all add: restarted_def)

text \<open>Where a session ends: at the end of the log, with an empty batch.\<close>

lemma session_end:
  assumes "catching ok i parts (restarted i now (joined g i) g) n g1" "\<And>e. ok e \<Longrightarrow> working e" "group_run g"
    and "left_over (g_log g) parts (committed_pos (g_store g)) \<le> n" "ok e" "5 \<le> i_now e - s_last_commit (joined g1 i)"
    and pos: "position_after (g_log g1) (mb_pos (g_members g1 i)) (polled_records e (joined g1 i)) = Some pos"
  shows "group_run (leave i (sink_step e (joined g1 i)) pos g1)" "s_batch (sink_step e (joined g1 i)) = []"
    "tp \<in> set parts \<Longrightarrow> length (g_log g tp) \<le> pos tp"
proof -
  note log = catching_log [OF assms(1), simplified]
  have all: "takes_all e'" if "ok e'" for e' using assms(2) [OF that] by (simp add: working_def)
  show "group_run (leave i (sink_step e (joined g1 i)) pos g1)"
    using catching_run [OF assms(1) restarted_run [OF assms(3)] all] all [OF assms(5)] pos by (rule group_run.iterate)
  show "s_batch (sink_step e (joined g1 i)) = []" by (rule working_step(3) [OF assms(2) [OF assms(5)]]) (simp add: assms(6))
  have "left_over (g_log g) parts (mb_pos (g_members g1 i)) = 0" using catching_left [OF assms(1)] assms(4) by simp
  then show "length (g_log g tp) \<le> pos tp" if "tp \<in> set parts"
    using that position_mono [OF pos, of tp] by (auto simp: left_over_def)
qed

subsection \<open>Rows\<close>

text \<open>The table says of an alert what the alert says, in the fields \<open>ks\<close>.\<close>

definition row_says :: "string list \<Rightarrow> obj \<Rightarrow> alert_db \<Rightarrow> bool" where
  "row_says ks a db \<longleftrightarrow> (\<exists>r\<in>set (db_rows db). row_alert_id r = oget a ''alert_id'' \<and> (\<forall>k\<in>set ks. oget (snd r) k = oget a k))"

lemma upsert_says:
  assumes "distinct (dkeys d)" "insert ''alert_id'' (set ks) \<subseteq> set (dkeys d)" "oget d ''alert_id'' = oget a ''alert_id''"
    "\<forall>k\<in>set ks. oget d k = oget a k"
  shows "row_says ks a (upsert_alert d db)"
proof -
  have "''alert_id'' \<in> set (dkeys d)" using assms(2) by blast
  from upsert_present [OF assms(1) this, of db] obtain r where r: "r \<in> set (db_rows (upsert_alert d db))"
    "\<And>k. k \<in> set (dkeys d) \<Longrightarrow> oget (snd r) k = oget d k" by blast
  have "row_alert_id r = oget a ''alert_id''" using r(2) [of "''alert_id''"] assms(2,3) by (simp add: row_alert_id_def)
  moreover have "oget (snd r) k = oget a k" if "k \<in> set ks" for k using r(2) [of k] assms(2,4) that by auto
  ultimately show ?thesis using r(1) unfolding row_says_def by blast
qed

lemma upsert_other:
  assumes "row_says ks a db" "oget d ''alert_id'' \<noteq> oget a ''alert_id''"
  shows "row_says ks a (upsert_alert d db)"
proof (cases rule: upsert_cases [of db d])
  case (1 us i old vs)
  then have "row_alert_id (i, old) \<noteq> oget a ''alert_id''" using assms(2) by (simp add: row_alert_id_def)
  with 1 assms(1) show ?thesis unfolding row_says_def by auto
next
  case 2
  with assms(1) show ?thesis unfolding row_says_def by auto
qed

text \<open>Items that come from the message of \<open>a\<close>, and an environment's reading of them.\<close>

definition item_of :: "obj \<Rightarrow> obj \<Rightarrow> bool" where
  "item_of a x \<longleftrightarrow> (\<exists>e. x = dump_evidence e a)"

definition reads_as :: "string list \<Rightarrow> obj \<Rightarrow> sink_env \<Rightarrow> bool" where
  "reads_as ks a e \<longleftrightarrow> set ks \<subseteq> set payload_fields \<and> (\<forall>x. item_of a x \<longrightarrow>
     (\<exists>d. alert_payload (i_as_float e) (dump_evidence e x) = Some d \<and> i_item_ok e d \<and> (\<forall>k\<in>set ks. oget d k = oget a k)))"

definition of_alert :: "obj \<Rightarrow> item \<Rightarrow> bool" where
  "of_alert a it \<longleftrightarrow> oget (fst it) ''alert_id'' = oget a ''alert_id''"

lemma item_says:
  assumes "reads_as ks a e" "of_alert a (x, tp, off) \<Longrightarrow> item_of a x" "row_says ks a (s_db s) \<or> of_alert a (x, tp, off)"
    and "process_item e (offs, s) (x, tp, off) = (offs', s')"
  shows "row_says ks a (s_db s')"
proof (cases "of_alert a (x, tp, off)")
  case True
  then obtain d where d: "alert_payload (i_as_float e) (dump_evidence e x) = Some d" "i_item_ok e d" "\<forall>k\<in>set ks. oget d k = oget a k"
    using assms(1,2) by (auto simp: reads_as_def)
  note f = payload_keys [OF d(1)]
  have "oget d ''alert_id'' = oget a ''alert_id''" using f(4) True by (simp add: of_alert_def)
  then have "row_says ks a (upsert_alert d (s_db s))"
    using assms(1) f(1,3) d(3) by (intro upsert_says f(2)) (auto simp: reads_as_def)
  with assms(4) d(1,2) show ?thesis by (auto simp: process_item_def)
next
  case False
  then have "row_says ks a (s_db s)" using assms(3) by blast
  moreover have "oget d ''alert_id'' \<noteq> oget a ''alert_id''" if "alert_payload (i_as_float e) (dump_evidence e x) = Some d" for d
    using payload_keys(4) [OF that] False by (simp add: of_alert_def)
  ultimately show ?thesis using assms(4) upsert_other by (auto simp: process_item_def Let_def split: option.splits if_splits)
qed

lemma batch_says:
  "reads_as ks a e \<Longrightarrow> \<forall>it\<in>set batch. of_alert a it \<longrightarrow> item_of a (fst it) \<Longrightarrow> row_says ks a (s_db s) \<or> (\<exists>it\<in>set batch. of_alert a it) \<Longrightarrow>
   foldl (process_item e) (offs, s) batch = (offs', s') \<Longrightarrow> row_says ks a (s_db s')"
proof (induction batch arbitrary: offs s)
  case (Cons it batch)
  obtain x tp off where it: "it = (x, tp, off)" by (cases it)
  obtain o1 s1 where 1: "process_item e (offs, s) (x, tp, off) = (o1, s1)" by (cases "process_item e (offs, s) (x, tp, off)")
  have rest: "foldl (process_item e) (o1, s1) batch = (offs', s')" using Cons.prems(4) by (simp add: it 1)
  have "row_says ks a (s_db s1) \<or> (\<exists>it\<in>set batch. of_alert a it)"
    using item_says [OF Cons.prems(1) _ _ 1] Cons.prems(2,3) by (auto simp: it)
  with Cons.IH [OF Cons.prems(1) _ _ rest] Cons.prems(2) show ?case by simp
qed simp

text \<open>During a session the row of an alert is there, or an item of it waits, or its message is still ahead.\<close>

definition row_ahead :: "string list \<Rightarrow> obj \<Rightarrow> tp \<Rightarrow> nat \<Rightarrow> sink \<Rightarrow> (tp \<Rightarrow> nat) \<Rightarrow> bool" where
  "row_ahead ks a tp k s pos \<longleftrightarrow> (\<forall>it\<in>set (s_batch s). of_alert a it \<longrightarrow> item_of a (fst it)) \<and>
     (row_says ks a (s_db s) \<or> (\<exists>it\<in>set (s_batch s). of_alert a it) \<or> pos tp \<le> k)"

definition only_message :: "topic_log \<Rightarrow> obj \<Rightarrow> bool" where
  "only_message L a \<longleftrightarrow> (\<forall>tp. \<forall>m\<in>set (L tp). alert_of m = Some (oget a ''alert_id'') \<longrightarrow> m_json m = Inr (PDict a))"

lemma alert_of_json: "alert_of m = Some aid \<Longrightarrow> \<exists>d. m_json m = Inr (PDict d) \<and> oget d ''alert_id'' = aid"
  by (auto simp: alert_of_def split: if_splits sum.splits pyval.splits)

lemma absorb_row:
  assumes "row_ahead ks a tp k s pos" "pos t < length (L t)" "only_message L a"
    and "alert_of (L tp ! k) = Some (oget a ''alert_id'')"
  shows "row_ahead ks a tp k (absorb_msg e t s (L t ! pos t)) (pos(t := Suc (pos t)))"
proof (cases "alert_of (L t ! pos t) = Some (oget a ''alert_id'')")
  case True
  then have "m_json (L t ! pos t) = Inr (PDict a)" using assms(3) nth_mem [OF assms(2)] unfolding only_message_def by blast
  with True have "s_batch (absorb_msg e t s (L t ! pos t)) = s_batch s @ [(dump_evidence e a, t, m_offset (L t ! pos t))]"
    by (simp add: absorb_alert Let_def)
  then show ?thesis using assms(1) by (auto simp: row_ahead_def of_alert_def item_of_def)
next
  case False
  have "\<not> of_alert a it" if "it \<in> set (s_batch (absorb_msg e t s (L t ! pos t))) - set (s_batch s)" for it
    using that False alert_of_json by (auto simp: absorb_alert Let_def of_alert_def split: option.splits sum.splits pyval.splits) fastforce+
  then have "\<forall>it\<in>set (s_batch (absorb_msg e t s (L t ! pos t))). of_alert a it \<longrightarrow> it \<in> set (s_batch s)" by blast
  moreover have "pos t \<noteq> k \<or> t \<noteq> tp" using False assms(4) by auto
  ultimately show ?thesis
    using assms(1) absorb_same(5) [of s e t "L t ! pos t"] unfolding row_ahead_def absorb_same(1) by (auto simp: le_less)
qed

lemma step_row:
  assumes "row_ahead ks a tp k s pos" "only_message L a" "alert_of (L tp ! k) = Some (oget a ''alert_id'')"
    and "working e" "reads_as ks a e" "position_after L pos (polled_records e s) = Some pos'"
  shows "row_ahead ks a tp k (sink_step e s) pos'"
proof -
  let ?p = "poll_phase e s"
  have p: "row_ahead ks a tp k ?p pos'"
    unfolding poll_eq by (rule records_induct [where P = "row_ahead ks a tp k", OF assms(1,6)]) (rule absorb_row [OF _ _ assms(2,3)])
  have "row_ahead ks a tp k (flush_phase e ?p) pos'"
  proof (cases "flush_phase e ?p = ?p")
    case False
    then obtain offs t where pb: "process_batch e (s_batch ?p) ?p = (offs, t)" "flush_phase e ?p = clear_batch e (commit_offsets offs t)"
      using working_flush [OF assms(4), of ?p] by blast
    obtain o1 t1 where f: "foldl (process_item e) ([], ?p) (s_batch ?p) = (o1, t1)"
      by (cases "foldl (process_item e) ([], ?p) (s_batch ?p)")
    have "t = t1" using pb(1) f assms(4) by (simp add: process_batch_def working_def)
    moreover have "row_says ks a (s_db t1) \<or> pos' tp \<le> k"
      using batch_says [OF assms(5) _ _ f] p unfolding row_ahead_def by blast
    ultimately show ?thesis by (simp add: pb(2) row_ahead_def)
  qed (use p in simp)
  moreover have "s_batch (stale_phase e u) = s_batch u" "s_db (stale_phase e u) = s_db u" for u by (simp_all add: stale_phase_def)
  ultimately show ?thesis unfolding working_step(1) [OF assms(4)] row_ahead_def by simp
qed

text \<open>A message that was not yet committed when the process started again has its row when the session ends.\<close>

lemma session_row:
  assumes "catching ok i parts (restarted i now (joined g i) g) n g1" "\<And>e. ok e \<Longrightarrow> working e \<and> reads_as ks a e" "group_run g"
    and "left_over (g_log g) parts (committed_pos (g_store g)) \<le> n" "ok e" "5 \<le> i_now e - s_last_commit (joined g1 i)"
    and pos: "position_after (g_log g1) (mb_pos (g_members g1 i)) (polled_records e (joined g1 i)) = Some pos"
    and msg: "only_message (g_log g) a" "alert_of (g_log g tp ! k) = Some (oget a ''alert_id'')"
      "tp \<in> set parts" "committed_pos (g_store g) tp \<le> k" "k < length (g_log g tp)"
  shows "row_says ks a (st_db (g_store (leave i (sink_step e (joined g1 i)) pos g1)))"
proof -
  note log = catching_log [OF assms(1), simplified]
  have "row_ahead ks a tp k (joined g1 i) (mb_pos (g_members g1 i))"
    using assms(1)
  proof (induction rule: catching.induct)
    case idle
    show ?case using msg(4) by (simp add: row_ahead_def)
  next
    case (serve n g2 e pos)
    note log2 = catching_log [OF serve(1), simplified]
    show ?case using step_row [OF serve.IH, of "g_log g" e pos] serve(3) assms(2) [OF serve(2)] msg(1,2) by (simp add: log2)
  qed
  then have "row_ahead ks a tp k (sink_step e (joined g1 i)) pos"
    using step_row [of ks a tp k _ _ "g_log g" e pos] pos assms(2) [OF assms(5)] msg(1,2) by (simp add: log)
  moreover have "s_batch (sink_step e (joined g1 i)) = []" "length (g_log g tp) \<le> pos tp"
    using session_end(2,3) [OF assms(1) _ assms(3-7)] assms(2) msg(3) by blast+
  ultimately show ?thesis using msg(5) by (simp add: row_ahead_def store_of_def)
qed

section \<open>Recovery\<close>

text \<open>C5. Recovery: from any reachable state, whatever was in flight, one process that starts again catches
  up. Once it has been answered as often as messages were left in its partitions, by polls of any size and
  with unanswered ones in between, and runs one more iteration five seconds after its last commit, every alert of its partitions
  is in the table or, where it was given up to the disk, among the dead letters. Its iterations have a
  working database, broker and disk.\<close>

theorem group_recovers:
  assumes "group_run g" "catching working i parts (restarted i now (joined g i) g) n g1"
    and "(\<Sum>tp\<in>set parts. length (g_log g tp) - committed_pos (g_store g) tp) \<le> n"
    and "working e" "5 \<le> i_now e - s_last_commit (joined g1 i)"
    and "position_after (g_log g1) (mb_pos (g_members g1 i)) (polled_records e (joined g1 i)) = Some pos"
    and "tp \<in> set parts" "m \<in> set (g_log g tp)" "alert_of m = Some aid"
  shows "group_run (leave i (sink_step e (joined g1 i)) pos g1) \<and> kept (g_store (leave i (sink_step e (joined g1 i)) pos g1)) aid"
proof -
  let ?s = "sink_step e (joined g1 i)"
  note log = catching_log [OF assms(2), simplified]
  note f = session_end [OF assms(2) _ assms(1) assms(3) [folded left_over_def] assms(4,5,6)]
  have run: "group_run (leave i ?s pos g1)" and empty: "s_batch ?s = []" and end1: "length (g_log g tp) \<le> pos tp"
    using f assms(7) by blast+
  have "log_accounted (g_log g) ?s tp (int (pos tp))"
    using run_group_ok [OF run] unfolding group_ok_def local_ok_def by (auto simp: log dest: spec [of _ i])
  moreover obtain k where "k < length (g_log g tp)" "m = g_log g tp ! k" using assms(8) by (auto simp: in_set_conv_nth)
  ultimately have "handled ?s aid" using assms(9) empty end1 by (simp add: log_accounted_def pending_def)
  with run show ?thesis by (simp add: handled_kept)
qed

text \<open>Two sinks and two messages. The first process takes the first message and keeps it; the second is
  given the partition, takes both and commits offset 2; then the first flushes and commits offset 1.\<close>

definition sample_group :: group where
  "sample_group =
     (let st = \<lparr>st_db = \<lparr>db_rows = [], db_next = 1\<rparr>, st_dlq = [], st_topic = [], st_broker = []\<rparr> in
      \<lparr>g_store = st, g_log = (\<lambda>tp. if tp = ''alerts'' then [sample_msg 0, sample_msg 1] else []),
       g_members = (\<lambda>_. \<lparr>mb_sink = fresh_sink 0 st, mb_pos = (\<lambda>_. 0)\<rparr>)\<rparr>)"

definition calm_env :: "real \<Rightarrow> kafka_msg list \<Rightarrow> sink_env" where
  "calm_env now msgs = (outage_env now msgs)\<lparr>i_db_commit := True, i_attempt := (\<lambda>_. True)\<rparr>"

lemma sample_group_run: "group_run sample_group"
  by (rule group_run.start)
     (auto simp: sample_group_def table_ok_def numbered_def sample_msg_def Let_def less_Suc_eq)

lemma sample_takes_all [simp]: "takes_all (calm_env now msgs)"
  by (simp add: takes_all_def calm_env_def outage_env_def)

definition group_a :: group where
  "group_a = leave 0 (sink_step (calm_env 1 [sample_msg 0]) (joined sample_group 0)) ((\<lambda>_. 0)(''alerts'' := 1)) sample_group"

definition group_b :: group where
  "group_b = leave 1 (sink_step (calm_env 9 [sample_msg 0, sample_msg 1]) (joined group_a 1)) ((\<lambda>_. 0)(''alerts'' := 2)) group_a"

definition group_c :: group where
  "group_c = leave 0 (sink_step (calm_env 9 []) (joined group_b 0)) ((\<lambda>_. 0)(''alerts'' := 1)) group_b"

lemma sample_payload: "alert_payload as_float [(''alert_id'', PStr ''a'')] = None"
  by (simp add: alert_payload_def payload_fields_def field_value_def required_strings_def optional_strings_def)

lemma three_attempts: "[0..<3] = [0, 1, 2 :: nat]"
  by (simp add: upt_rec)

lemmas delivery_eval = sample_payload three_attempts sink_step_def poll_phase_def flush_phase_def stale_phase_def panic_phase_def stale_offsets_def
  absorb_msg_def process_batch_def process_item_def safe_dlq_send_def send_to_dlq_def write_to_file_dlq_def bump_def
  dump_evidence_def commit_offsets_def clear_batch_def joined_def leave_def with_store_def store_of_def fresh_sink_def
  calm_env_def outage_env_def sample_msg_def MAX_BATCH_SIZE_def MAX_MSG_SIZE_def PANIC_BATCH_SIZE_def
  MAX_COMMIT_RETRIES_def oget_def dget_or_def Let_def polled_records_def

lemma group_a_run: "group_run group_a"
  unfolding group_a_def
  by (rule group_run.iterate [OF sample_group_run sample_takes_all]) (simp add: sample_group_def delivery_eval)

lemma group_a_values:
  "g_members group_a 0 = \<lparr>mb_sink = (fresh_sink 0 (g_store sample_group))
     \<lparr>s_batch := [([(''alert_id'', PStr ''a'')], ''alerts'', 0)], s_observed := [(''alerts'', 1)]\<rparr>,
     mb_pos = (\<lambda>_. 0)(''alerts'' := 1)\<rparr>"
  "g_members group_a (Suc 0) = g_members sample_group (Suc 0)" "g_store group_a = g_store sample_group" "g_log group_a = g_log sample_group"
  by (simp_all add: group_a_def sample_group_def delivery_eval)

lemma group_b_run: "group_run group_b"
  unfolding group_b_def
  by (rule group_run.iterate [OF group_a_run sample_takes_all])
     (simp add: joined_def polled_records_def group_a_values, simp add: sample_group_def delivery_eval numeral_2_eq_2)

lemma group_b_values:
  "g_members group_b 0 = g_members group_a 0" "st_broker (g_store group_b) = [(''alerts'', 2)]"
  "st_db (g_store group_b) = st_db (g_store sample_group)" "g_log group_b = g_log sample_group"
  by (simp_all add: group_b_def leave_def group_a_values)
     (simp_all add: joined_def group_a_values sample_group_def delivery_eval)

lemma group_c_run: "group_run group_c"
  unfolding group_c_def
  by (rule group_run.iterate [OF group_b_run sample_takes_all])
     (simp add: joined_def group_b_values group_a_values fresh_sink_def calm_env_def outage_env_def polled_records_def MAX_BATCH_SIZE_def)

text \<open>A process commits for a partition it no longer has, and moves the offset another committed back.\<close>

lemma rebalance_moves_offset_back:
  "group_run group_b" "group_run group_c"
  "off_of (st_broker (g_store group_b)) ''alerts'' = 2" "off_of (st_broker (g_store group_c)) ''alerts'' = 1"
  using group_b_run group_c_run
  by (simp_all add: group_b_values group_c_def leave_def dget_or_def)
     (simp add: joined_def group_b_values group_a_values sample_group_def delivery_eval)

theorem at_least_once_witness:
  "(kept (g_store group_c) (PStr ''a'') \<or> committed_pos (g_store group_c) ''alerts'' \<le> 1) \<and>
   distinct (map row_alert_id (db_rows (st_db (g_store group_c))))"
  by (rule at_least_once [OF group_c_run])
     (simp_all add: group_c_def leave_def group_b_values,
      simp_all add: sample_group_def sample_msg_def alert_of_def MAX_MSG_SIZE_def oget_def dget_or_def Let_def)

text \<open>The witness of recovery: two polls of one message each, then an iteration that hands over nothing.\<close>

definition one_poll :: "int \<Rightarrow> group \<Rightarrow> group" where
  "one_poll off g = leave 0 (sink_step (calm_env 1 [sample_msg off]) (joined g 0)) ((\<lambda>_. 0)(''alerts'' := nat (off + 1))) g"

definition group_r :: group where
  "group_r = restarted 0 0 (joined sample_group 0) sample_group"

lemma group_r_values:
  "joined group_r 0 = fresh_sink 0 (g_store sample_group)" "g_log group_r = g_log sample_group"
  "mb_pos (g_members group_r 0) = (\<lambda>_. 0)"
  by (simp_all add: group_r_def) (simp add: committed_pos_def sample_group_def Let_def dget_or_def fun_eq_iff)

lemma one_poll_values:
  "joined (one_poll 0 group_r) 0 = (fresh_sink 0 (g_store sample_group))
     \<lparr>s_batch := [([(''alert_id'', PStr ''a'')], ''alerts'', 0)], s_observed := [(''alerts'', 1)]\<rparr>"
  "g_log (one_poll off g) = g_log g" "mb_pos (g_members (one_poll off g) 0) = (\<lambda>_. 0)(''alerts'' := nat (off + 1))"
  by (simp_all add: one_poll_def group_r_values) (simp add: sample_group_def delivery_eval)

lemma working_calm [simp]: "working (calm_env now msgs)"
  by (simp add: working_def MAX_COMMIT_RETRIES_def three_attempts) (simp add: calm_env_def outage_env_def)

lemma calm_polled: "s_batch s = [] \<or> length (s_batch s) = 1 \<Longrightarrow> polled_records (calm_env now msgs) s = [(''alerts'', msgs)]"
  by (auto simp: polled_records_def MAX_BATCH_SIZE_def calm_env_def outage_env_def)

lemma sample_log: "g_log sample_group ''alerts'' = [sample_msg 0, sample_msg 1]"
  by (simp add: sample_group_def Let_def)

lemma two_polls:
  "catching working 0 [''alerts''] group_r 2 (one_poll 1 (one_poll 0 group_r))"
proof -
  let ?e = "\<lambda>k. calm_env 1 [sample_msg k]"
  have p0: "polled_records (?e 0) (joined group_r 0) = [(''alerts'', [sample_msg 0])]"
    by (rule calm_polled) (simp add: group_r_values)
  have p1: "polled_records (?e 1) (joined (one_poll 0 group_r) 0) = [(''alerts'', [sample_msg 1])]"
    by (rule calm_polled) (simp add: one_poll_values)
  have "catching working 0 [''alerts''] group_r (if answered group_r 0 [''alerts''] (?e 0) then Suc 0 else 0) (one_poll 0 group_r)"
    unfolding one_poll_def
    by (rule catching.serve [where ok = working, OF catching.idle working_calm]) (simp add: calm_polled group_r_values sample_log fun_eq_iff)
  then have 1: "catching working 0 [''alerts''] group_r 1 (one_poll 0 group_r)" by (simp add: answered_def p0)
  have "catching working 0 [''alerts''] group_r
      (if answered (one_poll 0 group_r) 0 [''alerts''] (?e 1) then Suc 1 else 1) (one_poll 1 (one_poll 0 group_r))"
    unfolding one_poll_def [of 1]
    by (rule catching.serve [where ok = working, OF 1 working_calm]) (simp add: calm_polled one_poll_values group_r_values sample_log numeral_2_eq_2 fun_eq_iff)
  then show ?thesis by (simp add: answered_def p1 numeral_2_eq_2)
qed

lemma two_polls_values:
  "s_batch (joined (one_poll 1 (one_poll 0 group_r)) 0) = [([(''alert_id'', PStr ''a'')], ''alerts'', 0), ([(''alert_id'', PStr ''a'')], ''alerts'', 1)]"
  "s_last_commit (joined (one_poll 1 (one_poll 0 group_r)) 0) = 0"
  unfolding one_poll_def [of 1] leave_fields one_poll_values
  by (simp_all add: sample_group_def delivery_eval)

theorem group_recovers_witness:
  "\<exists>g1 pos. catching working 0 [''alerts''] (restarted 0 0 (joined sample_group 0) sample_group) 2 g1 \<and>
     group_run (leave 0 (sink_step (calm_env 9 []) (joined g1 0)) pos g1) \<and>
     kept (g_store (leave 0 (sink_step (calm_env 9 []) (joined g1 0)) pos g1)) (PStr ''a'')"
proof -
  let ?g1 = "one_poll 1 (one_poll 0 group_r)"
  have "(\<Sum>tp\<in>set [''alerts'']. length (g_log sample_group tp) - committed_pos (g_store sample_group) tp) \<le> 2"
    by (simp add: sample_log)
  moreover have "5 \<le> i_now (calm_env 9 []) - s_last_commit (joined ?g1 0)"
    by (simp add: two_polls_values) (simp add: calm_env_def outage_env_def)
  moreover have "position_after (g_log ?g1) (mb_pos (g_members ?g1 0)) (polled_records (calm_env 9 []) (joined ?g1 0)) = Some (mb_pos (g_members ?g1 0))"
    by (simp add: polled_records_def two_polls_values MAX_BATCH_SIZE_def) (simp add: calm_env_def outage_env_def one_poll_values)
  moreover have "sample_msg 0 \<in> set (g_log sample_group ''alerts'')" by (simp add: sample_log)
  moreover have "alert_of (sample_msg 0) = Some (PStr ''a'')"
    by (simp add: sample_msg_def alert_of_def MAX_MSG_SIZE_def oget_def dget_or_def)
  ultimately show ?thesis
    using group_recovers [OF sample_group_run two_polls [unfolded group_r_def] _ working_calm [of 9 "[]"]] two_polls [unfolded group_r_def]
    unfolding group_r_def by (meson list.set_intros(1))
qed

end
