(* ===== verification/ApiDeps.thy ===== *)
theory ApiDeps
  imports AlertStore
begin

text \<open>
  The API's shared dependencies: \<open>api/deps.py\<close> (trusted proxies, the client address behind them,
  the rate limiter's storage, authentication and scopes), \<open>api/auth.py\<close> (tokens) and the
  middleware, handlers and boot flags of \<open>api/main.py\<close>. The JWT library, FastAPI's bearer scheme and
  the limiter's constructor are parameters; header values are strings of code points below 256, which
  is what Starlette's latin-1 decoding yields.
\<close>

section \<open>Trusted proxies\<close>

definition too_broad :: "ip_net \<Rightarrow> bool" where
  "too_broad net \<longleftrightarrow>
     (net_version net = 4 \<and> net_prefixlen net < 8) \<or> (net_version net = 6 \<and> net_prefixlen net < 64) \<or>
     str_net net \<in> {''0.0.0.0/0'', ''::/0''}"

fun trusted_networks :: "string list \<Rightarrow> ip_net list" where
  "trusted_networks [] = []"
| "trusted_networks (raw # rest) =
     (let entry = py_strip raw in
      if entry = [] then trusted_networks rest
      else (case ip_network entry of
              None \<Rightarrow> trusted_networks rest
            | Some net \<Rightarrow> if too_broad net then trusted_networks rest else net # trusted_networks rest))"

definition TRUSTED_INGRESS_NETWORKS :: "environ \<Rightarrow> ip_net list" where
  "TRUSTED_INGRESS_NETWORKS env =
     trusted_networks (split_on (CHR '','') (getenv_or env ''TRUSTED_PROXY_CIDRS'' ''127.0.0.1/32,::1/128,10.244.0.0/16''))"

definition validate_ip :: "string \<Rightarrow> string option" where
  "validate_ip s = map_option str_ip (ip_address (py_strip s))"

definition is_trusted_proxy :: "ip_net list \<Rightarrow> string \<Rightarrow> bool" where
  "is_trusted_proxy nets ip =
     (case ip_address (py_strip ip) of None \<Rightarrow> False | Some addr \<Rightarrow> list_ex (in_net addr) nets)"

section \<open>The client address\<close>

record request =
  rq_client :: "string option"
  rq_headers :: "(string \<times> string) list"
  rq_path :: string

text \<open>Header names are kept in lower case, as Starlette does; the first of a name counts.\<close>

definition header :: "request \<Rightarrow> string \<Rightarrow> string" where
  "header rq name = dget_or (rq_headers rq) (py_lower name) []"

definition MAX_XFF_HEADER_LEN :: nat where
  "MAX_XFF_HEADER_LEN = 2048"

definition MAX_XFF_HOPS :: nat where
  "MAX_XFF_HOPS = 20"

text \<open>The loop over the reversed hops: the first untrusted address (\<open>Inl\<close>), else the valid ones seen.\<close>

fun scan_hops :: "ip_net list \<Rightarrow> string list \<Rightarrow> string list \<Rightarrow> string + string list" where
  "scan_hops nets [] valid_ips = Inr valid_ips"
| "scan_hops nets (ip # ips) valid_ips =
     (case validate_ip ip of
        None \<Rightarrow> scan_hops nets ips valid_ips
      | Some valid \<Rightarrow>
          if is_trusted_proxy nets valid then scan_hops nets ips (valid_ips @ [valid]) else Inl valid)"

definition forwarded_hops :: "string \<Rightarrow> string list" where
  "forwarded_hops forwarded =
     last_n MAX_XFF_HOPS (filter (\<lambda>ip. ip \<noteq> []) (map py_strip (split_on (CHR '','') forwarded)))"

definition get_remote_address :: "ip_net list \<Rightarrow> request \<Rightarrow> string" where
  "get_remote_address nets rq =
     (let raw_client = (case rq_client rq of None \<Rightarrow> ''127.0.0.1'' | Some h \<Rightarrow> h);
          client_ip = (case validate_ip raw_client of None \<Rightarrow> ''127.0.0.1'' | Some v \<Rightarrow> v);
          header_value = header rq ''X-Forwarded-For'';
          forwarded = (if length header_value > MAX_XFF_HEADER_LEN then [] else header_value)
      in if is_trusted_proxy nets client_ip then
           (if forwarded \<noteq> [] then
              (case scan_hops nets (rev (forwarded_hops forwarded)) [] of
                 Inl valid \<Rightarrow> valid
               | Inr valid_ips \<Rightarrow> if valid_ips \<noteq> [] then last valid_ips else client_ip)
            else (let real_ip = header rq ''X-Real-IP'' in
                  if real_ip \<noteq> [] then (case validate_ip real_ip of Some valid \<Rightarrow> valid | None \<Rightarrow> client_ip)
                  else client_ip))
         else client_ip)"

section \<open>The rate limiter's storage\<close>

text \<open>UTF-8 of a code point below 256, and \<open>urllib.parse.quote_plus\<close>.\<close>

definition utf8_char :: "char \<Rightarrow> nat list" where
  "utf8_char c = (if cp c < 128 then [cp c] else [192 + cp c div 64, 128 + cp c mod 64])"

definition utf8 :: "string \<Rightarrow> nat list" where
  "utf8 s = concat (map utf8_char s)"

definition hex_upper :: "nat \<Rightarrow> char" where
  "hex_upper n = (if n < 10 then char_of (48 + n) else char_of (55 + n))"

definition url_safe :: "char \<Rightarrow> bool" where
  "url_safe c \<longleftrightarrow> is_ascii_alnum c \<or> c \<in> set ''_.-~''"

definition quote_char :: "char \<Rightarrow> string" where
  "quote_char c =
     (if c = CHR '' '' then ''+'' else if url_safe c then [c]
      else concat (map (\<lambda>b. [CHR ''%'', hex_upper (b div 16), hex_upper (b mod 16)]) (utf8_char c)))"

definition quote_plus :: "string \<Rightarrow> string" where
  "quote_plus s = concat (map quote_char s)"

definition limiter_uri :: "environ \<Rightarrow> string result" where
  "limiter_uri env =
     (let ssl = env_flag env ''REDIS_SSL'' ''true''; password = getenv_or env ''REDIS_PASSWORD'' [] in
      if ssl \<and> password = [] then Inl RuntimeError
      else (let scheme = (if ssl then ''rediss'' else ''redis'');
                auth = (if password \<noteq> [] then '':'' @ quote_plus password @ ''@'' else [])
            in Inr (getenv_or env ''LIMITER_STORAGE_URI''
                 (scheme @ ''://'' @ auth @ getenv_or env ''REDIS_HOST'' ''localhost'' @ '':'' @
                  getenv_or env ''REDIS_PORT'' ''6379'' @ ''/1''))))"

text \<open>\<open>Some uri\<close>: the limiter uses that storage; \<open>None\<close>: it counts in memory.\<close>

definition limiter_storage :: "(string \<Rightarrow> bool) \<Rightarrow> string \<Rightarrow> string option" where
  "limiter_storage connects uri =
     (if uri \<noteq> [] \<and> \<not> prefix ''rediss://'' uri then None else if connects uri then Some uri else None)"

section \<open>Tokens\<close>

record jwt_lib =
  jwt_encode :: "obj \<Rightarrow> string option \<Rightarrow> string result"
  jwt_decode :: "int \<Rightarrow> string \<Rightarrow> string \<Rightarrow> obj result"

definition jwt_config :: "environ \<Rightarrow> (string option \<times> int) result" where
  "jwt_config env =
     bind_result (of_option ValueError (parse_int (getenv_or env ''TSOC_JWT_EXPIRY_MIN'' ''30''))) (\<lambda>expiry.
       let secret = env ''TSOC_JWT_SECRET'' in
       if secret \<noteq> None \<and> secret \<noteq> Some [] \<and> length (utf8 (the secret)) < 32 then Inl RuntimeError
       else Inr (secret, expiry))"

definition token_claims :: "int \<Rightarrow> int \<Rightarrow> string list \<Rightarrow> string option \<Rightarrow> obj" where
  "token_claims expiry now scopes subject =
     [(''sub'', PStr (case subject of None \<Rightarrow> ''tsoc-service'' | Some s \<Rightarrow> if s = [] then ''tsoc-service'' else s)),
      (''scopes'', PList (map PStr scopes)), (''iat'', PInt now), (''exp'', PInt (now + 60 * expiry))]"

definition create_token :: "jwt_lib \<Rightarrow> string option \<Rightarrow> int \<Rightarrow> int \<Rightarrow> string list \<Rightarrow> string option \<Rightarrow> string result" where
  "create_token J secret expiry now scopes subject = jwt_encode J (token_claims expiry now scopes subject) secret"

definition verify_token :: "jwt_lib \<Rightarrow> string option \<Rightarrow> int \<Rightarrow> string \<Rightarrow> obj result" where
  "verify_token J secret now token =
     (case secret of None \<Rightarrow> Inl RuntimeError
      | Some k \<Rightarrow> if k = [] then Inl RuntimeError else jwt_decode J now token k)"

section \<open>Authentication and scopes\<close>

definition extract_token :: "request \<Rightarrow> string option \<Rightarrow> string option" where
  "extract_token rq credentials =
     (if credentials \<noteq> None \<and> credentials \<noteq> Some [] then credentials
      else if header rq ''X-API-Key'' \<noteq> [] then Some (header rq ''X-API-Key'')
      else (let auth_hdr = header rq ''Authorization'' in
            if auth_hdr \<noteq> [] then
              (if prefix ''bearer '' (py_lower auth_hdr) then Some (py_strip (drop 7 auth_hdr))
               else Some (py_strip auth_hdr))
            else None))"

definition constant_time_key_match :: "string \<Rightarrow> string \<Rightarrow> bool" where
  "constant_time_key_match api_key token \<longleftrightarrow> utf8 token = utf8 api_key"

definition service_principal :: obj where
  "service_principal = [(''sub'', PStr ''service-key''), (''scopes'', PList [PStr ''*''])]"

definition authenticate :: "jwt_lib \<Rightarrow> string \<Rightarrow> string option \<Rightarrow> int \<Rightarrow> string \<Rightarrow> obj result" where
  "authenticate J api_key secret now token =
     (if api_key \<noteq> [] \<and> constant_time_key_match api_key token then Inr service_principal
      else (case verify_token J secret now token of
              Inl e \<Rightarrow> if e = JWTError \<or> e = RuntimeError then Inl (HTTPException 401) else Inl e
            | Inr payload \<Rightarrow> if payload = [] then Inl (HTTPException 401) else Inr payload))"

definition verify_auth :: "jwt_lib \<Rightarrow> string \<Rightarrow> string option \<Rightarrow> int \<Rightarrow> request \<Rightarrow> string option \<Rightarrow> obj result" where
  "verify_auth J api_key secret now rq credentials =
     (case extract_token rq credentials of
        None \<Rightarrow> Inl (HTTPException 401)
      | Some token \<Rightarrow> if token = [] then Inl (HTTPException 401) else authenticate J api_key secret now token)"

text \<open>Python's \<open>scope in scopes\<close> on a JSON value: membership, substring or key.\<close>

fun scope_in :: "string \<Rightarrow> pyval \<Rightarrow> bool result" where
  "scope_in scope (PList xs) = Inr (py_in (PStr scope) xs)"
| "scope_in scope (PStr s) = Inr (sublist scope s)"
| "scope_in scope (PDict d) = Inr (scope \<in> set (dkeys d))"
| "scope_in scope _ = Inl TypeError"

definition require_scope :: "string \<Rightarrow> obj result \<Rightarrow> obj result" where
  "require_scope scope auth =
     bind_result auth (\<lambda>principal.
       let scopes = py_or (oget principal ''scopes'') (PList []) in
       bind_result (scope_in scope scopes) (\<lambda>own.
         if own then Inr principal
         else bind_result (scope_in ''*'' scopes) (\<lambda>any.
           if any then Inr principal else Inl (HTTPException 403))))"

text \<open>The session of a request: opened after authentication, closed whatever the handler does. The
  pool is the number of open sessions; the result also tells the number while the handler ran.\<close>

definition get_authenticated_db :: "obj result \<Rightarrow> 'a result \<Rightarrow> nat \<Rightarrow> 'a result \<times> nat \<times> nat" where
  "get_authenticated_db auth handler pool =
     (case auth of Inl e \<Rightarrow> (Inl e, pool, pool) | Inr _ \<Rightarrow> (handler, Suc pool, pool))"

section \<open>The application module\<close>

definition docs_urls :: "environ \<Rightarrow> string option list" where
  "docs_urls env =
     (if env_flag env ''ENABLE_DOCS'' ''false'' then [Some ''/docs'', Some ''/redoc'', Some ''/openapi.json'']
      else [None, None, None])"

definition allowed_origins :: "environ \<Rightarrow> string list" where
  "allowed_origins env =
     filter (\<lambda>x. x \<noteq> []) (map py_strip (split_on (CHR '','') (getenv_or env ''TSOC_CORS_ORIGINS'' ''https://dashboard.tsoc.local'')))"

definition allow_credentials :: "environ \<Rightarrow> bool" where
  "allow_credentials env \<longleftrightarrow> env ''TSOC_CORS_STRICT'' = Some ''1''"

record response =
  rs_status :: int
  rs_headers :: "(string, string) pydict"
  rs_body :: obj

type_synonym log_ctx = "string option \<times> string option"

definition request_id :: "request \<Rightarrow> string \<Rightarrow> string" where
  "request_id rq fresh =
     (if header rq ''X-Request-ID'' \<noteq> [] then header rq ''X-Request-ID''
      else if header rq ''X-Correlation-ID'' \<noteq> [] then header rq ''X-Correlation-ID''
      else ''req-'' @ take 16 fresh)"

definition request_tracing_middleware ::
  "(log_ctx \<Rightarrow> response result \<times> log_ctx) \<Rightarrow> request \<Rightarrow> string \<Rightarrow> log_ctx \<Rightarrow> response result \<times> log_ctx" where
  "request_tracing_middleware call_next rq fresh ctx =
     (let req_id = request_id rq fresh in
      case call_next (Some req_id, Some (rq_path rq)) of
        (Inl e, _) \<Rightarrow> (Inl e, ctx)
      | (Inr response, _) \<Rightarrow> (Inr (response\<lparr>rs_headers := dset ''x-request-id'' req_id (rs_headers response)\<rparr>), ctx))"

text \<open>A log record, the filter that stamps it with the context it is emitted in, and its line.\<close>

record log_record =
  lr_time :: string
  lr_level :: string
  lr_msg :: string
  lr_path :: "string option"
  lr_correlation :: "string option"

definition request_context_filter :: "log_ctx \<Rightarrow> log_record \<Rightarrow> log_record" where
  "request_context_filter ctx r = r\<lparr>lr_correlation := fst ctx, lr_path := snd ctx\<rparr>"

definition log_format :: "log_record \<Rightarrow> obj" where
  "log_format r =
     (let text = case_option PNone PStr in
      [(''ts'', PStr (lr_time r)), (''level'', PStr (lr_level r)), (''msg'', PStr (lr_msg r)), (''path'', text (lr_path r)),
       (''correlation_id'', text (lr_correlation r))])"

datatype app_exc = RequestValidationError string | UnhandledError string string

definition json_response :: "int \<Rightarrow> string \<Rightarrow> string \<Rightarrow> response" where
  "json_response code k msg = \<lparr>rs_status = code, rs_headers = [], rs_body = [(k, PStr msg)]\<rparr>"

fun global_exception_handler :: "app_exc \<Rightarrow> response" where
  "global_exception_handler (RequestValidationError detail) = json_response 422 ''detail'' ''Invalid request format''"
| "global_exception_handler (UnhandledError type_name msg) = json_response 500 ''message'' ''Internal Server Error''"

section \<open>The boot sequence\<close>

record api_config =
  ac_nets :: "ip_net list"
  ac_storage :: "string option"
  ac_key :: string
  ac_secret :: "string option"
  ac_expiry :: int

definition api_boot :: "(string \<Rightarrow> bool) \<Rightarrow> environ \<Rightarrow> api_config result" where
  "api_boot connects env =
     bind_result (jwt_config env) (\<lambda>(secret, expiry).
     bind_result (database_config env) (\<lambda>_.
     bind_result (limiter_uri env) (\<lambda>uri.
       let api_key = getenv_or env ''TSOC_API_KEY'' [] in
       if api_key = [] then Inl RuntimeError
       else Inr \<lparr>ac_nets = TRUSTED_INGRESS_NETWORKS env, ac_storage = limiter_storage connects uri,
              ac_key = api_key, ac_secret = secret, ac_expiry = expiry\<rparr>)))"

section \<open>The client address cannot be spoofed\<close>

lemma rstrip_Nil [simp]: "rstrip [] = []"
  by (simp add: rstrip_def)

lemma rstrip_snoc: "rstrip (s @ [x]) = (if is_space x then rstrip s else s @ [x])"
  by (simp add: rstrip_def)

lemma lstrip_stripped: "(s = [] \<or> \<not> is_space (hd s)) \<Longrightarrow> lstrip s = s"
  by (cases s) (auto simp: lstrip_def)

lemma rstrip_hd: "rstrip s = [] \<or> hd (rstrip s) = hd s"
  by (induction s rule: rev_induct) (auto simp: rstrip_snoc hd_append split: if_splits)

lemma py_strip_idem [simp]: "py_strip (py_strip s) = py_strip s"
proof -
  have "lstrip s = [] \<or> \<not> is_space (hd (lstrip s))"
    by (metis hd_dropWhile lstrip_def)
  then have "py_strip s = [] \<or> \<not> is_space (hd (py_strip s))"
    using rstrip_hd [of "lstrip s"] rstrip_def by (auto simp: py_strip_def)
  then have "lstrip (py_strip s) = py_strip s" by (rule lstrip_stripped)
  moreover have "rstrip (rstrip t) = rstrip t" for t by (induction t rule: rev_induct) (auto simp: rstrip_snoc)
  ultimately show ?thesis by (simp add: py_strip_def)
qed

lemma validate_ip_strip [simp]: "validate_ip (py_strip s) = validate_ip s"
  by (simp add: validate_ip_def)

lemma scan_trusted:
  "\<forall>q\<in>set qs. \<exists>v. validate_ip q = Some v \<and> is_trusted_proxy nets v \<Longrightarrow>
   validate_ip hop = Some a \<Longrightarrow> \<not> is_trusted_proxy nets a \<Longrightarrow> scan_hops nets (qs @ hop # rest) seen = Inl a"
  by (induction qs arbitrary: seen) auto

lemma last_n_append_long: "length ys \<le> n \<Longrightarrow> last_n n (xs @ ys) = last_n (n - length ys) xs @ ys"
  by (cases "length xs + length ys \<le> n") (simp_all add: last_n_def)

text \<open>C7. Behind trusted proxies the client address is the one the nearest trusted hop recorded:
  whatever a client writes in front of it in X-Forwarded-For, and however many trusted proxies
  follow it, the first untrusted address from the right is returned.\<close>

theorem client_address_not_spoofable:
  assumes "rq_client rq = Some peer" "validate_ip peer = Some p" "is_trusted_proxy nets p"
    and "length (header rq ''X-Forwarded-For'') \<le> 2048"
    and hops: "filter (\<lambda>ip. ip \<noteq> []) (map py_strip (split_on (CHR '','') (header rq ''X-Forwarded-For''))) =
      claimed @ hop # proxies"
    and "length proxies < 20" "validate_ip hop = Some a" "\<not> is_trusted_proxy nets a"
    and "\<forall>q\<in>set proxies. \<exists>v. validate_ip q = Some v \<and> is_trusted_proxy nets v"
  shows "get_remote_address nets rq = a"
proof -
  have ne: "header rq ''X-Forwarded-For'' \<noteq> []"
  proof
    assume "header rq ''X-Forwarded-For'' = []"
    with hops show False by (simp add: py_strip_def lstrip_def rstrip_def)
  qed
  have "forwarded_hops (header rq ''X-Forwarded-For'') = last_n (19 - length proxies) claimed @ hop # proxies"
    unfolding forwarded_hops_def hops using assms(6)
    by (subst last_n_append_long) (simp_all add: MAX_XFF_HOPS_def)
  moreover have "scan_hops nets (rev proxies @ hop # rev (last_n (19 - length proxies) claimed)) [] = Inl a"
    by (rule scan_trusted) (use assms(7-9) in auto)
  ultimately show ?thesis
    using assms(1-4) ne by (simp add: get_remote_address_def Let_def MAX_XFF_HEADER_LEN_def)
qed

text \<open>Concrete addresses: a text of four octets, seen by a deployment that trusts 10.244.0.0/16.\<close>

lemma dotted_text:
  assumes "a < 256" "b < 256" "c < 256" "d < 256"
  shows "validate_ip (join ''.'' (map str_of_nat [a, b, c, d])) = Some (join ''.'' (map str_of_nat [a, b, c, d]))"
    and "is_trusted_proxy [net4 10 244 0 0 16] (join ''.'' (map str_of_nat [a, b, c, d])) \<longleftrightarrow> a = 10 \<and> b = 244"
proof -
  let ?s = "join ''.'' (map str_of_nat [a, b, c, d])"
  have s: "?s = str_v4 (dotted a b c d)" using str_v4_dotted [OF assms] by simp
  have "\<not> is_space x" if "x \<in> set ?s" for x
    using str_v4_chars [of x "dotted a b c d"] that unfolding s by (auto simp: is_space_def is_decimal_def Let_def)
  then have strip: "py_strip ?s = ?s" by (rule py_strip_no_space)
  show "validate_ip ?s = Some ?s"
    unfolding validate_ip_def strip unfolding s by simp
  show "is_trusted_proxy [net4 10 244 0 0 16] ?s \<longleftrightarrow> a = 10 \<and> b = 244"
    unfolding is_trusted_proxy_def strip unfolding s
    using in_net4_octets(2) [OF assms, of 10 244] by (simp del: in_net.simps)
qed

lemma sample_addresses:
  "validate_ip ''10.244.0.5'' = Some ''10.244.0.5''" "is_trusted_proxy [net4 10 244 0 0 16] ''10.244.0.5''"
  "validate_ip ''8.8.4.4'' = Some ''8.8.4.4''" "\<not> is_trusted_proxy [net4 10 244 0 0 16] ''8.8.4.4''"
proof -
  have "join ''.'' (map str_of_nat [10, 244, 0, 5]) = ''10.244.0.5''" "join ''.'' (map str_of_nat [8, 8, 4, 4]) = ''8.8.4.4''"
    by code_simp+
  with dotted_text [of 10 244 0 5] dotted_text [of 8 8 4 4]
  show "validate_ip ''10.244.0.5'' = Some ''10.244.0.5''" "is_trusted_proxy [net4 10 244 0 0 16] ''10.244.0.5''"
    "validate_ip ''8.8.4.4'' = Some ''8.8.4.4''" "\<not> is_trusted_proxy [net4 10 244 0 0 16] ''8.8.4.4''"
    by (simp_all only:) simp_all
qed

theorem client_address_not_spoofable_witness:
  "get_remote_address [net4 10 244 0 0 16]
     \<lparr>rq_client = Some ''10.244.0.5'', rq_headers = [(''x-forwarded-for'', ''1.2.3.4,8.8.4.4,10.244.0.5'')], rq_path = []\<rparr> =
   ''8.8.4.4''"
proof -
  let ?rq = "\<lparr>rq_client = Some ''10.244.0.5'', rq_headers = [(''x-forwarded-for'', ''1.2.3.4,8.8.4.4,10.244.0.5'')], rq_path = []\<rparr>"
  have low: "py_lower ''X-Forwarded-For'' = ''x-forwarded-for''" by code_simp
  have h: "header ?rq ''X-Forwarded-For'' = ''1.2.3.4,8.8.4.4,10.244.0.5''" by (simp add: header_def dget_or_def low)
  have hops: "filter (\<lambda>ip. ip \<noteq> []) (map py_strip (split_on (CHR '','') ''1.2.3.4,8.8.4.4,10.244.0.5'')) =
      [''1.2.3.4''] @ ''8.8.4.4'' # [''10.244.0.5'']" by code_simp
  show ?thesis
    using client_address_not_spoofable [of ?rq "''10.244.0.5''" _ "[net4 10 244 0 0 16]" "[''1.2.3.4'']" "''8.8.4.4''" "[''10.244.0.5'']"]
    unfolding h hops using sample_addresses by simp
qed

text \<open>A peer that is not a trusted proxy is identified by its own address; no header it sends
  changes that.\<close>

lemma untrusted_peer_own_address:
  assumes "rq_client rq = Some peer" "validate_ip peer = Some p" "\<not> is_trusted_proxy nets p"
  shows "get_remote_address nets rq = p"
  using assms by (simp add: get_remote_address_def Let_def)

lemma untrusted_peer_own_address_witness:
  "get_remote_address [net4 10 244 0 0 16]
     \<lparr>rq_client = Some ''8.8.4.4'', rq_headers = [(''x-real-ip'', ''10.0.0.1'')], rq_path = []\<rparr> = ''8.8.4.4''"
  by (rule untrusted_peer_own_address [of _ "''8.8.4.4''"]) (simp_all add: sample_addresses)

text \<open>A header over the limit is ignored, and with it the hop the proxy recorded: the answer is then
  what X-Real-IP says, if that header is present.\<close>

lemma oversized_header_ignored:
  assumes "rq_client rq = Some peer" "validate_ip peer = Some p" "is_trusted_proxy nets p"
    and "2048 < length (header rq ''X-Forwarded-For'')"
    and "header rq ''X-Real-IP'' = claimed" "validate_ip claimed = Some a"
  shows "get_remote_address nets rq = a"
proof -
  have "claimed \<noteq> []"
  proof
    assume "claimed = []"
    with assms(6) show False
      by (simp add: validate_ip_def ip_address_def py_strip_def lstrip_def rstrip_def parse_v4_def split_scope_def
        parse_v6_def v6_parts_def parse_octet_def)
  qed
  with assms show ?thesis by (simp add: get_remote_address_def Let_def MAX_XFF_HEADER_LEN_def)
qed

section \<open>Credentials\<close>

lemma utf8_char_inj: "utf8_char c @ xs = utf8_char d @ ys \<Longrightarrow> c = d \<and> xs = ys"
proof -
  assume eq: "utf8_char c @ xs = utf8_char d @ ys"
  have "cp c = cp d \<and> xs = ys"
  proof (cases "cp c < 128")
    case True
    then show ?thesis using eq by (auto simp: utf8_char_def split: if_splits)
  next
    case False
    with eq have "cp c div 64 = cp d div 64" "cp c mod 64 = cp d mod 64" "xs = ys"
      by (auto simp: utf8_char_def split: if_splits)
    then show ?thesis by (metis div_mult_mod_eq)
  qed
  then show "c = d \<and> xs = ys" by simp
qed

lemma utf8_inj: "utf8 s = utf8 t \<Longrightarrow> s = t"
proof (induction s arbitrary: t)
  case Nil
  then show ?case by (cases t) (auto simp: utf8_def utf8_char_def split: if_splits)
next
  case (Cons c s)
  then obtain d t' where t: "t = d # t'" by (cases t) (auto simp: utf8_def utf8_char_def split: if_splits)
  with Cons.prems have "utf8_char c @ utf8 s = utf8_char d @ utf8 t'" by (simp add: utf8_def)
  from utf8_char_inj [OF this] Cons.IH t show ?case by simp
qed

lemma key_match_iff: "constant_time_key_match api_key token \<longleftrightarrow> token = api_key"
  using utf8_inj by (auto simp: constant_time_key_match_def)

lemma authenticate_cases:
  "authenticate J api_key secret now token = Inr p \<longleftrightarrow>
     (if api_key \<noteq> [] \<and> token = api_key then p = service_principal
      else p \<noteq> [] \<and> (\<exists>k. secret = Some k \<and> k \<noteq> [] \<and> jwt_decode J now token k = Inr p))"
  by (auto simp: authenticate_def key_match_iff verify_token_def split: sum.splits option.splits)

lemma require_scope_Inr:
  "require_scope scope auth = Inr p \<longleftrightarrow>
     auth = Inr p \<and> (let scopes = py_or (oget p ''scopes'') (PList []) in
       scope_in scope scopes = Inr True \<or> scope_in scope scopes = Inr False \<and> scope_in ''*'' scopes = Inr True)"
  by (cases auth) (auto simp: require_scope_def bind_result_def Let_def split: sum.splits if_splits)

text \<open>C14. Nothing passes a scoped route without a credential: the request is granted only to the
  holder of the service key itself, compared byte by byte, or of a token the JWT library accepts
  under the configured secret and whose claims name the scope or the wildcard.\<close>

theorem scope_enforced:
  assumes "require_scope scope (verify_auth J api_key secret now rq credentials) = Inr p"
  shows "\<exists>token. extract_token rq credentials = Some token \<and> token \<noteq> [] \<and>
    (if api_key \<noteq> [] \<and> token = api_key then p = service_principal
     else (\<exists>k. secret = Some k \<and> k \<noteq> [] \<and> jwt_decode J now token k = Inr p) \<and>
       (scope_in scope (oget p ''scopes'') = Inr True \<or> scope_in ''*'' (oget p ''scopes'') = Inr True))"
proof -
  have ok: "verify_auth J api_key secret now rq credentials = Inr p"
    and sc: "let scopes = py_or (oget p ''scopes'') (PList []) in
       scope_in scope scopes = Inr True \<or> scope_in scope scopes = Inr False \<and> scope_in ''*'' scopes = Inr True"
    using assms by (simp_all add: require_scope_Inr)
  have in_empty: "scope_in x (PList []) = Inr False" for x by (simp add: py_in_def)
  have own: "scope_in scope (oget p ''scopes'') = Inr True \<or> scope_in ''*'' (oget p ''scopes'') = Inr True"
    using sc by (auto simp: py_or_def Let_def py_in_def split: if_splits)
  obtain token where t: "extract_token rq credentials = Some token" "token \<noteq> []"
    "authenticate J api_key secret now token = Inr p"
    using ok by (auto simp: verify_auth_def split: option.splits if_splits)
  from t(3) [unfolded authenticate_cases] t own show ?thesis
    by (intro exI [of _ token]) (auto split: if_splits)
qed

text \<open>A principal for the witnesses: a request that carries the service key.\<close>

definition sample_request :: "string \<Rightarrow> request" where
  "sample_request key = \<lparr>rq_client = None, rq_headers = [(''x-api-key'', key)], rq_path = ''/api/v1/alerts''\<rparr>"

definition sample_jwt :: "obj \<Rightarrow> int \<Rightarrow> jwt_lib" where
  "sample_jwt claims exp_time = \<lparr>jwt_encode = (\<lambda>_ _. Inr ''tok''),
     jwt_decode = (\<lambda>now t k. if 0 \<le> now \<and> now < exp_time then Inr claims else Inl JWTError)\<rparr>"

theorem scope_enforced_witness:
  "\<exists>token. extract_token (sample_request ''key'') None = Some token \<and> token = ''key'' \<and>
     require_scope ''alerts:read'' (verify_auth (sample_jwt [] 0) ''key'' None 0 (sample_request ''key'') None) = Inr service_principal"
proof -
  have low: "py_lower ''X-API-Key'' = ''x-api-key''" by code_simp
  have t: "extract_token (sample_request ''key'') None = Some ''key''"
    by (simp add: extract_token_def header_def sample_request_def dget_or_def low)
  have g: "require_scope ''alerts:read'' (verify_auth (sample_jwt [] 0) ''key'' None 0 (sample_request ''key'') None) = Inr service_principal"
    by (simp add: require_scope_Inr verify_auth_def t authenticate_cases service_principal_def oget_def dget_or_def py_or_def py_in_def)
  from scope_enforced [OF g] t g show ?thesis by auto
qed

text \<open>C34. A minted token grants exactly the scopes it was minted with, from the moment it was issued until it
  expires: with a library that returns the claims of this token between \<open>iat\<close> and \<open>exp\<close> and rejects it
  before and after, as PyJWT documents (an immature and an expired signature), a scoped route admits its
  bearer in that time if and only if the token lists the scope or the wildcard, and at no other time.\<close>

theorem minted_token_scopes:
  assumes "create_token J (Some k) expiry now scopes subject = Inr t"
    and lib: "jwt_encode J (token_claims expiry now scopes subject) (Some k) = Inr t \<Longrightarrow>
      (\<forall>later. jwt_decode J later t k =
        (if now \<le> later \<and> later < now + 60 * expiry then Inr (token_claims expiry now scopes subject) else Inl JWTError))"
    and "k \<noteq> []" "t \<noteq> []" "t \<noteq> api_key"
  shows "require_scope scope (verify_auth J api_key (Some k) later rq (Some t)) =
    (if now \<le> later \<and> later < now + 60 * expiry then
       (if scope \<in> set scopes \<or> ''*'' \<in> set scopes then Inr (token_claims expiry now scopes subject)
        else Inl (HTTPException 403))
     else Inl (HTTPException 401))"
proof -
  let ?c = "token_claims expiry now scopes subject"
  have dec: "jwt_decode J later t k = (if now \<le> later \<and> later < now + 60 * expiry then Inr ?c else Inl JWTError)"
    using lib assms(1) by (simp add: create_token_def)
  have "authenticate J api_key (Some k) later t = (if now \<le> later \<and> later < now + 60 * expiry then Inr ?c else Inl (HTTPException 401))"
    using assms(3,5) dec by (simp add: authenticate_def key_match_iff verify_token_def token_claims_def)
  then have auth: "verify_auth J api_key (Some k) later rq (Some t) =
      (if now \<le> later \<and> later < now + 60 * expiry then Inr ?c else Inl (HTTPException 401))"
    using assms(4) by (simp add: verify_auth_def extract_token_def)
  have get: "py_or (oget ?c ''scopes'') (PList []) = PList (map PStr scopes)"
    by (simp add: token_claims_def oget_def dget_or_def py_or_def)
  have "py_in (PStr x) (map PStr scopes) \<longleftrightarrow> x \<in> set scopes" for x by (auto simp: py_in_def)
  then show ?thesis unfolding auth by (simp add: require_scope_def get bind_result_def)
qed

theorem minted_token_scopes_witness:
  "let claims = token_claims 30 0 [''alerts:read''] None; J = sample_jwt claims 1800 in
     require_scope ''alerts:read'' (verify_auth J ''key'' (Some ''secret'') (- 1) (sample_request []) (Some ''tok'')) = Inl (HTTPException 401) \<and>
     require_scope ''alerts:read'' (verify_auth J ''key'' (Some ''secret'') 60 (sample_request []) (Some ''tok'')) = Inr claims \<and>
     require_scope ''alerts:write'' (verify_auth J ''key'' (Some ''secret'') 60 (sample_request []) (Some ''tok'')) = Inl (HTTPException 403)"
proof -
  let ?J = "sample_jwt (token_claims 30 0 [''alerts:read''] None) 1800"
  have "create_token ?J (Some ''secret'') 30 0 [''alerts:read''] None = Inr ''tok''"
    by (simp add: create_token_def sample_jwt_def)
  note m = minted_token_scopes [OF this, of "''key''"]
  show ?thesis
    using m [of "''alerts:read''" "- 1"] m [of "''alerts:read''" 60] m [of "''alerts:write''" 60] by (simp add: sample_jwt_def Let_def)
qed

text \<open>A string claim is searched for the scope as a substring, not as a name.\<close>

lemma string_scopes_match_substrings:
  "require_scope ''alerts:read'' (Inr [(''sub'', PStr ''a''), (''scopes'', PStr ''no-alerts:readonly'')]) =
   Inr [(''sub'', PStr ''a''), (''scopes'', PStr ''no-alerts:readonly'')]"
proof -
  have "sublist ''alerts:read'' ''no-alerts:readonly''" by code_simp
  then show ?thesis by (simp add: require_scope_def oget_def dget_or_def py_or_def Let_def del: sublist_code)
qed

section \<open>Boot\<close>

lemma trusted_networks_narrow: "net \<in> set (trusted_networks entries) \<Longrightarrow> \<not> too_broad net"
  by (induction entries) (auto simp: Let_def split: if_splits option.splits)

text \<open>C36. The API starts only in a safe configuration: with a service key; with a token secret of at
  least 32 bytes, if one is set; with a rate limiter that keeps its counters in memory or in a Redis
  reached over TLS; and with no trusted proxy network broader than /8 (IPv4) or /64 (IPv6).\<close>

theorem api_boot_fails_closed:
  assumes "api_boot connects env = Inr c"
  shows "ac_key c \<noteq> [] \<and> (\<forall>k. ac_secret c = Some k \<longrightarrow> k = [] \<or> 32 \<le> length (utf8 k)) \<and>
    (\<forall>uri. ac_storage c = Some uri \<longrightarrow> uri = [] \<or> prefix ''rediss://'' uri) \<and>
    (\<forall>net\<in>set (ac_nets c). (if net_version net = 4 then 8 else 64) \<le> net_prefixlen net)"
proof -
  obtain secret expiry uri where j: "jwt_config env = Inr (secret, expiry)"
    and c: "ac_key c \<noteq> []" "ac_secret c = secret" "ac_storage c = limiter_storage connects uri"
      "ac_nets c = TRUSTED_INGRESS_NETWORKS env"
    using assms by (auto simp: api_boot_def bind_result_def Let_def split: sum.splits prod.splits if_splits)
  have "k = [] \<or> 32 \<le> length (utf8 k)" if "secret = Some k" for k
    using j that by (auto simp: jwt_config_def bind_result_def Let_def split: sum.splits if_splits)
  moreover have "u = [] \<or> prefix ''rediss://'' u" if "limiter_storage connects uri = Some u" for u
    using that by (auto simp: limiter_storage_def split: if_splits)
  moreover have "(if net_version net = 4 then 8 else 64) \<le> net_prefixlen net"
    if "net \<in> set (TRUSTED_INGRESS_NETWORKS env)" for net
  proof -
    have "\<not> too_broad net" using trusted_networks_narrow that by (simp add: TRUSTED_INGRESS_NETWORKS_def)
    then show ?thesis by (cases net) (auto simp: too_broad_def)
  qed
  ultimately show ?thesis using c by simp
qed

theorem api_boot_fails_closed_witness:
  "\<exists>c. api_boot (\<lambda>_. True) [''DATABASE_URL'' \<mapsto> ''sqlite://'', ''REDIS_PASSWORD'' \<mapsto> ''pw'', ''TSOC_API_KEY'' \<mapsto> ''key''] = Inr c \<and>
     ac_key c \<noteq> [] \<and> (\<forall>net\<in>set (ac_nets c). (if net_version net = 4 then 8 else 64) \<le> net_prefixlen net)"
proof -
  let ?env = "[''DATABASE_URL'' \<mapsto> ''sqlite://'', ''REDIS_PASSWORD'' \<mapsto> ''pw'', ''TSOC_API_KEY'' \<mapsto> ''key'']"
  have "parse_int ''30'' = Some 30" by code_simp
  then have "jwt_config ?env = Inr (None, 30)" by (simp add: jwt_config_def getenv_or_def of_option_def)
  moreover obtain d where "database_config ?env = Inr d"
    by (cases "database_config ?env") (simp_all add: database_config_def getenv_or_def Let_def split: if_splits)
  moreover obtain u where "limiter_uri ?env = Inr u"
    by (simp add: limiter_uri_def getenv_or_def Let_def)
  ultimately obtain c where c: "api_boot (\<lambda>_. True) ?env = Inr c"
    by (simp add: api_boot_def getenv_or_def Let_def)
  from api_boot_fails_closed [OF c] c show ?thesis by blast
qed

text \<open>The handlers tell the client nothing of the exception, and a request leaves the logging context
  as it found it, also when its handler raises.\<close>

lemma errors_not_leaked:
  "global_exception_handler (UnhandledError t m) = global_exception_handler (UnhandledError t' m')"
  "global_exception_handler (RequestValidationError d) = global_exception_handler (RequestValidationError d')"
  by simp_all

lemma logging_context_restored: "snd (request_tracing_middleware call_next rq fresh ctx) = ctx"
  by (simp add: request_tracing_middleware_def Let_def split: prod.splits sum.splits)

text \<open>The handler of unhandled errors runs outside the middleware, after its \<open>finally\<close>: the line it logs is
  stamped with no request.\<close>

lemma unhandled_error_unstamped:
  assumes "request_tracing_middleware call_next rq fresh (None, None) = (Inl e, ctx)"
  shows "oget (log_format (request_context_filter ctx r)) ''correlation_id'' = PNone"
  using logging_context_restored [of call_next rq fresh "(None, None)"] assms
  by (simp add: request_context_filter_def log_format_def Let_def)

text \<open>Every response carries the id its request was logged under.\<close>

lemma response_carries_id:
  "request_tracing_middleware call_next rq fresh ctx = (Inr r, c) \<Longrightarrow> dget (rs_headers r) ''x-request-id'' = Some (request_id rq fresh)"
  by (auto simp: request_tracing_middleware_def Let_def split: prod.splits sum.splits)

lemma unauthenticated_request_opens_no_session:
  "get_authenticated_db (Inl e) handler pool = (Inl e, pool, pool)"
  "snd (snd (get_authenticated_db auth handler pool)) = pool"
  by (simp_all add: get_authenticated_db_def split: sum.splits)

end
