(* ===== verification/Schemas.thy ===== *)
theory Schemas
  imports PyIp
begin

text \<open>
  \<open>inference/schemas.py\<close>: the alert schema as data and the validator over it. Of JSON Schema only
  what the file uses is spelled out: types, enumerations, formats, required fields and
  \<open>additionalProperties\<close>. The \<open>date-time\<close> format is the library's and a parameter.
\<close>

datatype field_schema =
    AnyString
  | StringOrNull
  | Number
  | Boolean
  | OneOf "string list"
  | IpAddress
  | IpOrNull
  | ObjectOrNull
  | DateTime

definition ALERT_SCHEMA :: "(string \<times> field_schema) list" where
  "ALERT_SCHEMA =
     [(''timestamp'', DateTime), (''alert_id'', AnyString), (''flow_id'', StringOrNull),
      (''trace_id'', StringOrNull), (''span_id'', StringOrNull), (''event_type'', AnyString),
      (''threat_class'', AnyString), (''confidence_score'', Number),
      (''severity'', OneOf [''low'', ''medium'', ''high'', ''critical'']),
      (''mitre_tactic'', StringOrNull), (''mitre_technique'', StringOrNull), (''source_ip'', IpAddress),
      (''destination_ip'', IpOrNull), (''evidence'', ObjectOrNull), (''model_name'', AnyString),
      (''model_version'', AnyString), (''schema_version'', OneOf [''1.0'']), (''is_replay'', Boolean)]"

definition REQUIRED :: "string list" where
  "REQUIRED = [''timestamp'', ''alert_id'', ''event_type'', ''threat_class'', ''confidence_score'', ''severity'',
     ''source_ip'', ''schema_version'']"

definition check_ip_address :: "string \<Rightarrow> bool" where
  "check_ip_address s \<longleftrightarrow> ip_address s \<noteq> None"

fun field_ok :: "(string \<Rightarrow> bool) \<Rightarrow> field_schema \<Rightarrow> pyval \<Rightarrow> bool" where
  "field_ok date_time AnyString v = is_str v"
| "field_ok date_time StringOrNull v = (is_str v \<or> v = PNone)"
| "field_ok date_time Number v = (case v of PInt _ \<Rightarrow> True | PFloat _ \<Rightarrow> True | _ \<Rightarrow> False)"
| "field_ok date_time Boolean v = (case v of PBool _ \<Rightarrow> True | _ \<Rightarrow> False)"
| "field_ok date_time (OneOf xs) v = (case v of PStr s \<Rightarrow> s \<in> set xs | _ \<Rightarrow> False)"
| "field_ok date_time IpAddress v = (case v of PStr s \<Rightarrow> check_ip_address s | _ \<Rightarrow> False)"
| "field_ok date_time IpOrNull v = (case v of PNone \<Rightarrow> True | PStr s \<Rightarrow> check_ip_address s | _ \<Rightarrow> False)"
| "field_ok date_time ObjectOrNull v = (is_dict v \<or> v = PNone)"
| "field_ok date_time DateTime v = (case v of PStr s \<Rightarrow> date_time s | _ \<Rightarrow> False)"

definition validate_alert :: "(string \<Rightarrow> bool) \<Rightarrow> obj \<Rightarrow> bool" where
  "validate_alert date_time alert \<longleftrightarrow>
     list_all (\<lambda>k. k \<in> set (dkeys alert)) REQUIRED \<and>
     list_all (\<lambda>(k, v). case dget ALERT_SCHEMA k of None \<Rightarrow> False | Some f \<Rightarrow> field_ok date_time f v) alert"

definition validate_zeek_event :: "pyval \<Rightarrow> bool" where
  "validate_zeek_event event = (case event of PDict d \<Rightarrow> ''ts'' \<in> set (dkeys d) | _ \<Rightarrow> False)"

lemma validated_pair:
  assumes "validate_alert dt alert" "(k, v) \<in> set alert"
  shows "\<exists>f. dget ALERT_SCHEMA k = Some f \<and> field_ok dt f v"
proof -
  have "case dget ALERT_SCHEMA k of None \<Rightarrow> False | Some f \<Rightarrow> field_ok dt f v"
    using assms unfolding validate_alert_def list_all_iff by blast
  then show ?thesis by (cases "dget ALERT_SCHEMA k") auto
qed

lemma validated_field:
  "validate_alert dt alert \<Longrightarrow> dget alert k = Some v \<Longrightarrow> \<exists>f. dget ALERT_SCHEMA k = Some f \<and> field_ok dt f v"
  using validated_pair map_of_SomeD by metis

lemma validated_required: "validate_alert dt alert \<Longrightarrow> k \<in> set REQUIRED \<Longrightarrow> \<exists>v. dget alert k = Some v"
proof -
  assume "validate_alert dt alert" "k \<in> set REQUIRED"
  then have "k \<in> set (dkeys alert)" unfolding validate_alert_def list_all_iff by blast
  then have "dget alert k \<noteq> None" by (simp only: dget_None_iff not_not)
  then show ?thesis by blast
qed

text \<open>A valid alert names an address the correlator accepts: the schema and the correlator use the
  same parser.\<close>

lemma validated_source:
  assumes "validate_alert dt alert"
  shows "\<exists>s a. dget alert ''source_ip'' = Some (PStr s) \<and> ip_address s = Some a"
proof -
  obtain v where v: "dget alert ''source_ip'' = Some v"
    using validated_required [OF assms, of "''source_ip''"] by (auto simp: REQUIRED_def)
  then show ?thesis
    using validated_field [OF assms v] by (auto simp: ALERT_SCHEMA_def check_ip_address_def split: pyval.splits)
qed

text \<open>Setting \<open>is_replay\<close>, as the dead-letter path does, keeps an alert valid.\<close>

lemma replay_stays_valid:
  assumes "validate_alert dt alert" shows "validate_alert dt (dset ''is_replay'' (PBool True) alert)"
proof -
  let ?a = "dset ''is_replay'' (PBool True) alert"
  have sub: "set ?a \<subseteq> insert (''is_replay'', PBool True) (set alert)"
    by (induction alert) auto
  have new: "dget ALERT_SCHEMA ''is_replay'' = Some Boolean" by (simp add: ALERT_SCHEMA_def)
  have "case dget ALERT_SCHEMA k of None \<Rightarrow> False | Some f \<Rightarrow> field_ok dt f v" if "(k, v) \<in> set ?a" for k v
  proof (cases "(k, v) \<in> set alert")
    case True
    then show ?thesis using validated_pair [OF assms True] by auto
  next
    case False
    then have "k = ''is_replay''" "v = PBool True" using sub that by auto
    then show ?thesis using new by simp
  qed
  moreover have "k \<in> set (dkeys ?a)" if "k \<in> set REQUIRED" for k
    using assms that unfolding validate_alert_def list_all_iff set_dkeys_dset by blast
  ultimately show ?thesis unfolding validate_alert_def list_all_iff by blast
qed

end
