(* ===== verification/Models.thy ===== *)
theory Models
  imports Correlation Rules
begin

text \<open>
  \<open>inference/models.py\<close>: loading the DGA classifier from disk behind its checksum, and the
  preparation of a domain name for it (normalisation, variants, sliding windows). The network
  itself, SHA-256, TorchScript loading, Unicode normalisation and IDNA encoding are parameters:
  \<open>forward\<close> stands for the largest probability the network assigns to a batch.
\<close>

section \<open>Loading the artifact\<close>

type_synonym bytes = "nat list"

text \<open>What the machine holds: the size and the bytes of a file, \<open>None\<close> where opening it raises.\<close>

record file_system =
  fs_size :: "string \<Rightarrow> int option"
  fs_bytes :: "string \<Rightarrow> bytes option"
  fs_text :: "string \<Rightarrow> string option"

record 'm torch_lib =
  t_sha256 :: "bytes \<Rightarrow> string"
  t_load :: "bytes \<Rightarrow> 'm result"

definition compare_digest :: "string \<Rightarrow> string \<Rightarrow> bool result" where
  "compare_digest a b = (if list_all (\<lambda>c. cp c < 128) (a @ b) then Inr (a = b) else Inl TypeError)"

definition load_model_from_disk :: "'m torch_lib \<Rightarrow> environ \<Rightarrow> file_system \<Rightarrow> ('m \<times> string) result" where
  "load_model_from_disk T env fs =
     (let artifact_path = getenv_or env ''MODEL_PATH'' ''models/cnn_dga.pt'';
          sha_path = artifact_path @ ''.sha256'' in
      bind_result (of_option ValueError (parse_int (getenv_or env ''MAX_MODEL_SIZE_BYTES'' ''52428800''))) (\<lambda>max_size.
        if (case fs_size fs artifact_path of None \<Rightarrow> False | Some n \<Rightarrow> n > max_size) then Inl RuntimeError
        else
          bind_result (of_option (OtherError ''OSError'') (fs_text fs sha_path)) (\<lambda>sha_text.
          bind_result (of_option (OtherError ''OSError'') (fs_bytes fs artifact_path)) (\<lambda>model_bytes.
            let expected_sha = py_strip (take 1024 sha_text); computed_sha = t_sha256 T model_bytes in
            bind_result (compare_digest computed_sha expected_sha) (\<lambda>same.
              if \<not> same then Inl RuntimeError
              else bind_result (t_load T model_bytes) (\<lambda>model. Inr (model, computed_sha)))))))"

record 'm engine =
  en_model :: "'m option"
  en_count :: nat
  en_sha :: string

definition new_engine :: "'m torch_lib \<Rightarrow> environ \<Rightarrow> file_system \<Rightarrow> 'm engine result" where
  "new_engine T env fs =
     bind_result (load_model_from_disk T env fs) (\<lambda>(model, sha). Inr \<lparr>en_model = Some model, en_count = 0, en_sha = sha\<rparr>)"

text \<open>Hot reload is disabled: the background check changes nothing.\<close>

definition recheck_integrity :: "'m engine \<Rightarrow> bool \<times> 'm engine" where
  "recheck_integrity en = (True, en)"

text \<open>The verifier thread: an element per turn of its loop, whether the stop event was set before the
  interval was over. The second component counts the checks.\<close>

fun verifier_loop :: "bool list \<Rightarrow> 'm engine \<times> nat \<Rightarrow> 'm engine \<times> nat" where
  "verifier_loop [] s = s"
| "verifier_loop (stopped # turns) s =
     (if stopped then s
      else (case s of (en, checks) \<Rightarrow> verifier_loop turns (snd (recheck_integrity en), Suc checks)))"

text \<open>However long it runs, and whatever happens to the files, the engine keeps the model it started with.\<close>

lemma verifier_never_reloads:
  "verifier_loop turns (en, checks) = (en, checks + length (takeWhile Not turns))"
  by (induction turns arbitrary: checks) (auto simp: recheck_integrity_def)

section \<open>Encoding a domain name\<close>

definition valid_chars :: string where
  "valid_chars = ''abcdefghijklmnopqrstuvwxyz0123456789-.''"

fun index_from :: "nat \<Rightarrow> string \<Rightarrow> char \<Rightarrow> nat option" where
  "index_from n [] c = None"
| "index_from n (x # xs) c = (if x = c then Some n else index_from (Suc n) xs c)"

definition char_map :: "char \<Rightarrow> nat option" where
  "char_map = index_from 1 valid_chars"

definition sanitize :: "string \<Rightarrow> string" where
  "sanitize text = map (\<lambda>c. if char_map c \<noteq> None then c else CHR ''-'') text"

definition add_variant :: "string \<Rightarrow> string list \<Rightarrow> string list" where
  "add_variant d ds = (if d \<in> set ds then ds else ds @ [d])"

definition domain_variants :: "string \<Rightarrow> string \<Rightarrow> string list" where
  "domain_variants ascii_domain clean_domain =
     (let sanitized_ascii = sanitize ascii_domain;
          ds0 = [sanitized_ascii];
          ds1 = (if ascii_domain \<noteq> clean_domain \<and> sanitize clean_domain \<noteq> []
                 then add_variant (sanitize clean_domain) ds0 else ds0);
          parts = filter (\<lambda>p. p \<noteq> []) (split_on (CHR ''.'') sanitized_ascii)
      in if 2 \<le> length parts then
           (let ds2 = add_variant (join ''.'' (last_n 2 parts)) ds1
            in foldl (\<lambda>ds part. if 4 \<le> length part then add_variant part ds else ds) ds2 parts)
         else ds1)"

definition encode_domain :: "string \<Rightarrow> nat list" where
  "encode_domain d = map (\<lambda>c. case char_map c of None \<Rightarrow> 0 | Some i \<Rightarrow> i) d"

section \<open>Windows\<close>

text \<open>The loop over \<open>range(0, len - 35 + 1, 15)\<close>, which stops when the budget is used up.\<close>

fun slide :: "nat list \<Rightarrow> nat \<Rightarrow> nat list \<Rightarrow> nat list list \<Rightarrow> nat list list" where
  "slide encoded budget [] slices = slices"
| "slide encoded budget (start # starts) slices =
     (let s = slices @ [take 35 (drop start encoded)]
      in if length s \<ge> budget then s else slide encoded budget starts s)"

definition window_starts :: "nat \<Rightarrow> nat list" where
  "window_starts len = map (\<lambda>i. 15 * i) [0..<(len - 35) div 15 + 1]"

definition domain_slices :: "nat \<Rightarrow> nat list \<Rightarrow> nat list list" where
  "domain_slices budget encoded =
     (if length encoded > 35 then
        (let s = slide encoded budget (window_starts (length encoded)) [] in
         if length s < budget \<and> (length encoded - 35) mod 15 \<noteq> 0 then s @ [last_n 35 encoded] else s)
      else [encoded @ replicate (35 - length encoded) 0])"

definition all_slices :: "string list \<Rightarrow> nat list list" where
  "all_slices domains_to_check =
     (let domains_subset = take 8 domains_to_check;
          budget = (if domains_subset \<noteq> [] then max 1 (32 div length domains_subset) else 32)
      in take 32 (concat (map (\<lambda>d. if encode_domain d = [] then [] else take budget (domain_slices budget (encode_domain d)))
           domains_subset)))"

section \<open>Prediction\<close>

record text_lib =
  x_nfkc :: "string \<Rightarrow> string"
  x_idna :: "string \<Rightarrow> string option"

definition ascii_of :: "text_lib \<Rightarrow> string \<Rightarrow> string" where
  "ascii_of X clean_domain = (case x_idna X clean_domain of Some a \<Rightarrow> py_lower a | None \<Rightarrow> clean_domain)"

definition clean_of :: "text_lib \<Rightarrow> string \<Rightarrow> string" where
  "clean_of X domain = py_lower (rstrip_char (CHR ''.'') (x_nfkc X domain))"

type_synonym verdict = "bool \<times> pyfloat \<times> pyfloat"

definition no_verdict :: verdict where
  "no_verdict = (False, Fin 0, Fin 0)"

definition expired :: "real option \<Rightarrow> real \<Rightarrow> bool" where
  "expired deadline now = (case deadline of None \<Rightarrow> False | Some d \<Rightarrow> now > d)"

definition predict ::
  "text_lib \<Rightarrow> ('m \<Rightarrow> nat list list \<Rightarrow> pyfloat result) \<Rightarrow> real option \<Rightarrow> real \<Rightarrow> real \<Rightarrow> string \<Rightarrow> 'm engine \<Rightarrow>
   verdict \<times> 'm engine" where
  "predict X forward deadline now later domain en =
     (case en_model en of
        None \<Rightarrow> (no_verdict, en)
      | Some model \<Rightarrow>
          if domain = [] \<or> length domain > 512 \<or> expired deadline now then (no_verdict, en)
          else
            (let en1 = en\<lparr>en_count := en_count en + 1\<rparr>;
                 clean_domain = clean_of X domain; ascii_domain = ascii_of X clean_domain in
             if sanitize ascii_domain = [] \<or> expired deadline later then (no_verdict, en1)
             else
               (let slices = all_slices (domain_variants ascii_domain clean_domain) in
                if slices = [] then ((False, Fin 0, Fin (1 / 10)), en1)
                else (case forward model slices of
                        Inl e \<Rightarrow> (no_verdict, en1)
                      | Inr max_prob \<Rightarrow>
                          (let highest = (if float_less (Fin 0) max_prob then max_prob else Fin 0)
                           in ((float_less (Fin (85 / 100)) highest, highest, Fin (1 / 10)), en1))))))"

definition dga_detection :: "pyfloat \<Rightarrow> obj" where
  "dga_detection prob = [(''threat_class'', PStr ''DGA / DNS Tunnelling''), (''severity'', PStr ''high''),
     (''confidence'', PFloat prob), (''rule_id'', PStr ''DL_CNN_DGA'')]"

text \<open>\<open>ThreatModelOrchestrator.evaluate\<close>; \<open>predict\<close> answers False for a query that is not text.\<close>

definition evaluate_models ::
  "text_lib \<Rightarrow> ('m \<Rightarrow> nat list list \<Rightarrow> pyfloat result) \<Rightarrow> real \<Rightarrow> real \<Rightarrow> obj \<Rightarrow> 'm engine \<Rightarrow> obj list \<times> 'm engine" where
  "evaluate_models X forward now later event en =
     (if oget event ''event_type'' = PStr ''dns'' then
        (case dget_or event ''query'' (PStr []) of
           PStr q \<Rightarrow> (case predict X forward None now later q en of
                       ((is_dga, prob, _), en1) \<Rightarrow> (if is_dga then [dga_detection prob] else [], en1))
         | _ \<Rightarrow> ([], en))
      else ([], en))"

section \<open>Windows are well formed\<close>

lemma index_from_range: "index_from n xs c = Some i \<Longrightarrow> n \<le> i \<and> i < n + length xs"
  by (induction xs arbitrary: n) (fastforce split: if_splits)+

lemma char_map_range: "char_map c = Some i \<Longrightarrow> 1 \<le> i \<and> i \<le> 38"
  using index_from_range [of 1 valid_chars c i] by (simp add: char_map_def valid_chars_def)

lemma encode_range: "x \<in> set (encode_domain d) \<Longrightarrow> x \<le> 38"
  using char_map_range by (auto simp: encode_domain_def split: option.splits)

lemma slide_take:
  "length slices < budget \<Longrightarrow>
   slide encoded budget starts slices = slices @ take (budget - length slices) (map (\<lambda>i. take 35 (drop i encoded)) starts)"
proof (induction starts arbitrary: slices)
  case (Cons start starts)
  let ?s = "slices @ [take 35 (drop start encoded)]"
  show ?case
  proof (cases "length ?s \<ge> budget")
    case True
    then have "budget - length slices = 1" using Cons.prems by simp
    with True show ?thesis by simp
  next
    case False
    have "budget - length slices = Suc (budget - length ?s)" using False by simp
    with False Cons.IH [of ?s] show ?thesis by simp
  qed
qed simp

lemma window_start_bound: "i \<in> set (window_starts n) \<Longrightarrow> 35 \<le> n \<Longrightarrow> i + 35 \<le> n"
proof -
  assume "i \<in> set (window_starts n)" "35 \<le> n"
  then obtain j where "i = 15 * j" "j \<le> (n - 35) div 15" by (auto simp: window_starts_def)
  moreover have "15 * ((n - 35) div 15) \<le> n - 35" by simp
  ultimately have "i \<le> n - 35" by (metis le_trans mult_le_mono2)
  with \<open>35 \<le> n\<close> show ?thesis by simp
qed

lemma domain_slices_shape:
  assumes "0 < budget" "s \<in> set (domain_slices budget encoded)"
  shows "length s = 35 \<and> set s \<subseteq> insert 0 (set encoded)"
proof (cases "length encoded > 35")
  case True
  have "slide encoded budget (window_starts (length encoded)) [] =
      take budget (map (\<lambda>i. take 35 (drop i encoded)) (window_starts (length encoded)))"
    using slide_take [of "[]" budget] assms(1) by simp
  then have "s \<in> (\<lambda>i. take 35 (drop i encoded)) ` set (window_starts (length encoded)) \<or> s = last_n 35 encoded"
    using assms(2) True by (auto simp: domain_slices_def Let_def split: if_splits dest: in_set_takeD)
  then show ?thesis
  proof
    assume "s \<in> (\<lambda>i. take 35 (drop i encoded)) ` set (window_starts (length encoded))"
    then obtain i where i: "i \<in> set (window_starts (length encoded))" "s = take 35 (drop i encoded)" by blast
    have "i + 35 \<le> length encoded" using window_start_bound [OF i(1)] True by simp
    then show ?thesis using i(2) by (auto dest: in_set_takeD in_set_dropD)
  next
    assume "s = last_n 35 encoded"
    then show ?thesis using True set_last_n [of 35 encoded] by auto
  qed
next
  case False
  with assms(2) show ?thesis by (auto simp: domain_slices_def)
qed

lemma in_concat_map: "s \<in> set (concat (map f xs)) \<Longrightarrow> \<exists>x\<in>set xs. s \<in> set (f x)"
  by simp

definition slice_budget :: "string list \<Rightarrow> nat" where
  "slice_budget ds = (if take 8 ds \<noteq> [] then max 1 (32 div length (take 8 ds)) else 32)"

definition variant_slices :: "nat \<Rightarrow> string \<Rightarrow> nat list list" where
  "variant_slices budget d =
     (if encode_domain d = [] then [] else take budget (domain_slices budget (encode_domain d)))"

lemma all_slices_unfold:
  "all_slices ds = take 32 (concat (map (variant_slices (slice_budget ds)) (take 8 ds)))"
  unfolding all_slices_def Let_def slice_budget_def variant_slices_def ..

lemma slice_budget_pos [simp]: "0 < slice_budget ds"
  by (simp add: slice_budget_def less_max_iff_disj)

lemma all_slices_from:
  assumes "s \<in> set (all_slices ds)"
  shows "\<exists>d. s \<in> set (domain_slices (slice_budget ds) (encode_domain d))"
proof -
  have "s \<in> set (concat (map (variant_slices (slice_budget ds)) (take 8 ds)))"
    by (rule in_set_takeD [of s 32]) (use assms in \<open>simp only: all_slices_unfold\<close>)
  from in_concat_map [OF this] obtain d where "s \<in> set (variant_slices (slice_budget ds) d)" by blast
  then show ?thesis by (auto simp: variant_slices_def dest: in_set_takeD split: if_splits)
qed

lemma slice_shape:
  assumes "s \<in> set (all_slices ds)"
  shows "length s = 35 \<and> list_all (\<lambda>x. x \<le> 38) s"
proof -
  obtain d where "s \<in> set (domain_slices (slice_budget ds) (encode_domain d))"
    using all_slices_from [OF assms] by blast
  from domain_slices_shape [OF slice_budget_pos this] encode_range [of _ d] show ?thesis by (fastforce simp: list_all_iff)
qed

text \<open>The batch handed to the network always has the shape it was trained on: at most 32 rows of
  exactly 35 codes, each code in the vocabulary 0 to 38, whatever the domain name.\<close>

theorem tensor_well_formed:
  "length (all_slices ds) \<le> 32 \<and> list_all (\<lambda>s. length s = 35 \<and> list_all (\<lambda>x. x \<le> 38) s) (all_slices ds)"
  using slice_shape by (simp add: list_all_iff all_slices_def Let_def)

section \<open>Coverage\<close>

lemma slide_windows:
  "0 < budget \<Longrightarrow> slide encoded budget (window_starts n) [] = take budget (map (\<lambda>i. take 35 (drop i encoded)) (window_starts n))"
  using slide_take [of "[]" budget] by simp

lemma windows_cover:
  assumes "length encoded \<le> 15 * budget + 19" "1 \<le> budget" "i < length encoded" "35 < length encoded"
  shows "\<exists>off\<le>i. i < off + 35 \<and> take 35 (drop off encoded) \<in> set (take budget (domain_slices budget encoded))"
proof -
  let ?L = "length encoded" and ?ws = "map (\<lambda>i. take 35 (drop i encoded)) (window_starts (length encoded))"
  let ?n = "(?L - 35) div 15 + 1"
  have n: "length ?ws = ?n" by (simp add: window_starts_def)
  have "?L - 35 < 15 * (budget - 1) + 15 * 0 + 15" using assms by simp
  then have q: "?n \<le> budget" using assms(2) by (simp add: div_less_iff_less_mult mult.commute)
  have slide: "slide encoded budget (window_starts ?L) [] = ?ws"
    using slide_windows [of budget encoded ?L] assms(2) n q by simp
  show ?thesis
  proof (cases "i < 15 * ((?L - 35) div 15) + 35")
    case True
    define j where "j = min (i div 15) ((?L - 35) div 15)"
    have "j \<le> i div 15" "15 * (i div 15) \<le> i" by (simp_all add: j_def)
    then have "15 * j \<le> i" by linarith
    moreover have "i < 15 * j + 35"
    proof (cases "i div 15 \<le> (?L - 35) div 15")
      case True
      have "i < 15 * (i div 15) + 15" by (metis dividend_less_times_div mult.commute zero_less_numeral add.commute)
      with True show ?thesis by (simp add: j_def)
    qed (use True in \<open>simp add: j_def\<close>)
    moreover have "j \<in> set [0..<(?L - 35) div 15 + 1]" unfolding set_upt j_def by simp
    then have "take 35 (drop (15 * j) encoded) \<in> set ?ws"
      unfolding set_map window_starts_def by (intro imageI)
    then have "take 35 (drop (15 * j) encoded) \<in> set (take budget (domain_slices budget encoded))"
      using slide q n assms(4) by (auto simp: domain_slices_def Let_def)
    ultimately show ?thesis by blast
  next
    case False
    have m: "(?L - 35) mod 15 \<noteq> 0"
    proof
      assume "(?L - 35) mod 15 = 0"
      then have "15 * ((?L - 35) div 15) = ?L - 35" by auto
      with False assms(3,4) show False by simp
    qed
    have "?n < budget"
    proof -
      have "15 * ((?L - 35) div 15) < ?L - 35" using m by (metis div_mult_mod_eq less_add_same_cancel1 mult.commute neq0_conv)
      then show ?thesis using assms(1,4) by linarith
    qed
    then have "last_n 35 encoded \<in> set (take budget (domain_slices budget encoded))"
      using slide n m assms(4) by (simp add: domain_slices_def)
    moreover have "last_n 35 encoded = take 35 (drop (?L - 35) encoded)" using assms(4) by (simp add: last_n_def)
    ultimately show ?thesis using False assms(3,4) by (intro exI [of _ "?L - 35"]) simp
  qed
qed

lemma variants_fit: "length (concat (map (variant_slices (slice_budget ds)) (take 8 ds))) \<le> 32"
proof -
  let ?n = "length (take 8 ds)" and ?b = "slice_budget ds"
  have "length (variant_slices ?b d) \<le> ?b" for d by (simp add: variant_slices_def)
  then have "length (concat (map (variant_slices ?b) xs)) \<le> length xs * ?b" for xs
    by (induction xs) (simp_all add: add_mono)
  moreover have "?n * ?b \<le> 32"
  proof (cases "take 8 ds = []")
    case False
    then have "0 < ?n" "?n \<le> 8" by auto
    then have "4 \<le> 32 div ?n" using div_le_mono2 [of ?n 8 32] by simp
    then have "?b = 32 div ?n" using False by (simp add: slice_budget_def)
    then show ?thesis by simp
  qed simp
  ultimately show ?thesis using le_trans by blast
qed

text \<open>No blind spot inside the budget: every character of each of the first eight variants of a
  domain is inside a window the network sees, as long as the variant is no longer than 19 characters
  plus 15 for every window of its share (79 characters with eight variants, 499 with one).\<close>

theorem every_character_inspected:
  assumes "d \<in> set (take 8 ds)" "i < length d" "35 < length d"
    and "length d \<le> 15 * (32 div length (take 8 ds)) + 19"
  shows "\<exists>off\<le>i. i < off + 35 \<and> take 35 (drop off (encode_domain d)) \<in> set (all_slices ds)"
proof -
  let ?b = "slice_budget ds" and ?e = "encode_domain d"
  have len: "length ?e = length d" by (simp add: encode_domain_def)
  have b: "32 div length (take 8 ds) \<le> ?b" "1 \<le> ?b" by (simp_all add: slice_budget_def)
  then have "length ?e \<le> 15 * ?b + 19" using assms(4) len by linarith
  then obtain off where off: "off \<le> i" "i < off + 35" "take 35 (drop off ?e) \<in> set (take ?b (domain_slices ?b ?e))"
    using windows_cover [of ?e ?b i] b(2) assms(2,3) len by auto
  have "all_slices ds = concat (map (variant_slices ?b) (take 8 ds))"
    unfolding all_slices_unfold using variants_fit by (rule take_all)
  moreover have "variant_slices ?b d = take ?b (domain_slices ?b ?e)"
    using assms(3) len by (auto simp: variant_slices_def)
  ultimately have all: "set (all_slices ds) = \<Union> (set ` variant_slices ?b ` set (take 8 ds))"
    and "take 35 (drop off ?e) \<in> set (variant_slices ?b d)"
    using off(3) by (simp_all only: set_concat set_map)
  then have "take 35 (drop off ?e) \<in> set (all_slices ds)" unfolding all using assms(1) by blast
  with off(1,2) show ?thesis by blast
qed

theorem every_character_inspected_witness:
  "\<exists>off\<le>38. 38 < off + 35 \<and> take 35 (drop off (encode_domain (replicate 40 (CHR ''a'')))) \<in> set (all_slices [replicate 40 (CHR ''a'')])"
  by (rule every_character_inspected) simp_all

text \<open>Past the budget the text of a variant is not looked at: two encodings that agree on the first
  \<open>15 * budget + 20\<close> codes give the same windows, whatever follows.\<close>

lemma tail_not_inspected:
  assumes "take (15 * budget + 20) e = take (15 * budget + 20) e'" "0 < budget"
    and "15 * budget + 20 < length e" "15 * budget + 20 < length e'"
  shows "domain_slices budget e = domain_slices budget e'"
proof -
  have windows: "domain_slices budget x = map (\<lambda>i. take 35 (drop i x)) (map (\<lambda>i. 15 * i) [0..<budget])"
    if "15 * budget + 20 < length x" for x :: "nat list"
  proof -
    have "budget \<le> (length x - 35) div 15 + 1" using that by linarith
    then have "take budget [0..<(length x - 35) div 15 + 1] = [0..<budget]" by (subst take_upt) simp_all
    then have "take budget (window_starts (length x)) = map (\<lambda>i. 15 * i) [0..<budget]"
      by (simp only: window_starts_def take_map)
    then show ?thesis
      using that assms(2) slide_windows [OF assms(2), of x "length x"] by (simp add: domain_slices_def take_map Let_def)
  qed
  have "take 35 (drop (15 * i) e) = take 35 (drop (15 * i) e')" if "i < budget" for i
  proof -
    have "15 * i + 35 \<le> 15 * budget + 20" using that by linarith
    then have "take (15 * i + 35) e = take (15 * i + 35) e'"
      using assms(1) by (metis min.absorb1 take_take)
    then show ?thesis by (metis add.commute take_drop)
  qed
  then show ?thesis unfolding windows [OF assms(3)] windows [OF assms(4)] by simp
qed

section \<open>Loading\<close>

text \<open>Only a verified artifact is ever loaded: when the engine starts, the bytes it handed to
  TorchScript are bytes read from the artifact's path whose SHA-256 is the one the checksum file
  holds, and the file was not larger than the limit. In every other case the constructor raises.\<close>

theorem only_verified_model_loaded:
  assumes "new_engine T env fs = Inr en"
  shows "\<exists>model_bytes sha_text m. let path = getenv_or env ''MODEL_PATH'' ''models/cnn_dga.pt'' in
    fs_bytes fs path = Some model_bytes \<and> fs_text fs (path @ ''.sha256'') = Some sha_text \<and>
    t_sha256 T model_bytes = py_strip (take 1024 sha_text) \<and> t_load T model_bytes = Inr m \<and> en_model en = Some m \<and>
    (\<exists>n. parse_int (getenv_or env ''MAX_MODEL_SIZE_BYTES'' ''52428800'') = Some n \<and>
      (case fs_size fs path of None \<Rightarrow> True | Some len \<Rightarrow> len \<le> n))"
  using assms
  by (auto simp: new_engine_def load_model_from_disk_def Let_def bind_result_def of_option_def compare_digest_def
      split: sum.splits option.splits if_splits prod.splits)

theorem only_verified_model_loaded_witness:
  "\<exists>en. new_engine \<lparr>t_sha256 = (\<lambda>_. ''abc''), t_load = (\<lambda>b. Inr b)\<rparr> [''MAX_MODEL_SIZE_BYTES'' \<mapsto> ''9'']
     \<lparr>fs_size = (\<lambda>_. Some 3), fs_bytes = (\<lambda>_. Some [1, 2, 3]), fs_text = (\<lambda>_. Some ''abc'')\<rparr> = Inr en \<and>
     en_model en = Some [1, 2, 3]"
proof -
  let ?T = "\<lparr>t_sha256 = (\<lambda>_. ''abc''), t_load = (\<lambda>b. Inr b)\<rparr>"
  let ?fs = "\<lparr>fs_size = (\<lambda>_. Some 3), fs_bytes = (\<lambda>_. Some [1, 2, 3]), fs_text = (\<lambda>_. Some ''abc'')\<rparr>"
  have "parse_int ''9'' = Some 9" "py_strip ''abc'' = ''abc''" by code_simp+
  then obtain en where en: "new_engine ?T [''MAX_MODEL_SIZE_BYTES'' \<mapsto> ''9''] ?fs = Inr en"
    by (simp add: new_engine_def load_model_from_disk_def Let_def of_option_def getenv_or_def compare_digest_def)
  from only_verified_model_loaded [OF en] en show ?thesis by (auto simp: Let_def)
qed

lemma stale_checksum_refused:
  "fs_bytes fs (getenv_or env ''MODEL_PATH'' ''models/cnn_dga.pt'') = Some b \<Longrightarrow>
   fs_text fs (getenv_or env ''MODEL_PATH'' ''models/cnn_dga.pt'' @ ''.sha256'') = Some t \<Longrightarrow>
   t_sha256 T b \<noteq> py_strip (take 1024 t) \<Longrightarrow> \<exists>e. new_engine T env fs = Inl e"
  by (auto simp: new_engine_def load_model_from_disk_def Let_def bind_result_def of_option_def compare_digest_def
      split: sum.splits option.splits if_splits prod.splits)

text \<open>A verdict is positive only above the threshold, and a prediction leaves the model alone.\<close>

lemma predict_threshold:
  "predict X forward deadline now later domain en = ((True, prob, t), en') \<Longrightarrow> float_less (Fin (85 / 100)) prob"
  by (auto simp: predict_def no_verdict_def Let_def split: option.splits if_splits sum.splits)

lemma predict_keeps_model: "en_model (snd (predict X forward deadline now later domain en)) = en_model en"
  by (auto simp: predict_def Let_def split: option.splits if_splits sum.splits)

end
