(* ===== verification/Stream.thy ===== *)
theory Stream
  imports Schemas Models Enrichment
begin

text \<open>
  \<open>inference/stream_processor_faust.py\<close>: what \<open>process_traffic\<close> does with one event, from feature
  extraction to the dead-letter path. The world holds the correlator with its Redis store, the
  enricher's cache, the engine, and what has been published or dead-lettered. Broker, disk, clock
  and scheduling answer through the record of one detection; the concurrency of the agent is the
  order in which events and detections are folded.
\<close>

section \<open>The world and its outcomes\<close>

text \<open>A send under \<open>wait_for\<close>: acknowledged, timed out (the broker may have it or not), or failed.\<close>

datatype send_outcome = Sent | TimedOut bool | SendFailed exc

text \<open>The correlator runs on a thread under \<open>wait_for\<close>: it answers in time, or the wait ends first
  and the thread runs before the rollback, after it, or not at all (cancelled in the queue).\<close>

datatype thread_outcome = InTime | LateBefore | LateAfter | Cancelled

record ('s, 'm) world =
  w_corr :: "'s correlator"
  w_cache :: cache
  w_engine :: "'m engine"
  w_alerts :: "obj list"
  w_incidents :: "obj list"
  w_dlq :: "obj list"
  w_disk :: "obj list"

record det_env =
  d_uuid :: string
  d_now :: string
  d_http :: "string \<Rightarrow> http_reply"
  d_intel_now :: real
  d_intel_later :: real
  d_schema_error :: string
  d_publish :: send_outcome
  d_thread :: thread_outcome
  d_corr :: corr_env
  d_incident :: send_outcome
  d_undo :: corr_env
  d_undo2 :: corr_env
  d_dead_letter :: send_outcome
  d_disk_ok :: bool

record 'm libs =
  l_md5 :: "string \<Rightarrow> nat"
  l_loads :: "string \<Rightarrow> pyval result"
  l_repr :: py_repr
  l_exc :: "exc \<Rightarrow> string"
  l_date_time :: "string \<Rightarrow> bool"
  l_text :: text_lib
  l_forward :: "'m \<Rightarrow> nat list list \<Rightarrow> pyfloat result"
  l_fingerprints :: "string list"

section \<open>Dead letters\<close>

text \<open>\<open>_send_dlq_safely\<close>: the broker first, the local disk when the broker did not acknowledge.\<close>

definition dlq_payload :: "det_env \<Rightarrow> obj \<Rightarrow> obj \<Rightarrow> string \<Rightarrow> obj" where
  "dlq_payload e event alert error_str =
     [(''original_event'', PDict event), (''alert'', PDict (dset ''is_replay'' (PBool True) alert)),
      (''error'', PStr error_str), (''timestamp'', PStr (d_now e))]"

definition write_local_dlq_fallback :: "det_env \<Rightarrow> obj \<Rightarrow> ('s, 'm) world \<Rightarrow> ('s, 'm) world" where
  "write_local_dlq_fallback e payload w = (if d_disk_ok e then w\<lparr>w_disk := w_disk w @ [payload]\<rparr> else w)"

definition send_dlq_safely ::
  "det_env \<Rightarrow> obj \<Rightarrow> obj \<Rightarrow> string \<Rightarrow> ('s, 'm) world \<Rightarrow> ('s, 'm) world" where
  "send_dlq_safely e event alert error_str w =
     (let payload = dlq_payload e event alert error_str in
      case d_dead_letter e of
        Sent \<Rightarrow> w\<lparr>w_dlq := w_dlq w @ [payload]\<rparr>
      | TimedOut delivered \<Rightarrow>
          write_local_dlq_fallback e payload (if delivered then w\<lparr>w_dlq := w_dlq w @ [payload]\<rparr> else w)
      | SendFailed _ \<Rightarrow> write_local_dlq_fallback e payload w)"

section \<open>Detections of an event\<close>

text \<open>How the inference thread of a query ended.\<close>

datatype inference_outcome = InferenceDone real real | InferenceTimedOut | InferenceFailed

definition dns_query :: "py_repr \<Rightarrow> obj \<Rightarrow> string" where
  "dns_query rp event =
     (case oget event ''query'' of
        PStr q \<Rightarrow> py_strip q
      | PNone \<Rightarrow> []
      | v \<Rightarrow> py_strip (py_str rp v))"

definition infer_dga :: "'m libs \<Rightarrow> inference_outcome \<Rightarrow> obj \<Rightarrow> 'm engine \<Rightarrow> obj list \<times> 'm engine" where
  "infer_dga L io event en =
     (if oget event ''event_type'' = PStr ''dns'' then
        (let query = dns_query (l_repr L) event in
         if query \<noteq> [] \<and> length query \<le> 253 then
           (case io of
              InferenceDone now later \<Rightarrow>
                (case predict (l_text L) (l_forward L) None now later query en of
                   ((is_dga, prob, _), en1) \<Rightarrow> (if is_dga then [dga_detection prob] else [], en1))
            | _ \<Rightarrow> ([], en))
         else ([], en))
      else ([], en))"

definition detections_of :: "'m libs \<Rightarrow> inference_outcome \<Rightarrow> obj \<Rightarrow> obj \<Rightarrow> 'm engine \<Rightarrow> obj list \<times> 'm engine" where
  "detections_of L io event features en =
     (let rules = (case evaluate_rules (l_repr L) (l_fingerprints L) event features of Inl _ \<Rightarrow> [] | Inr ds \<Rightarrow> ds)
      in case infer_dga L io event en of (dl, en1) \<Rightarrow> (rules @ dl, en1))"

definition event_trace_id :: "py_repr \<Rightarrow> string \<Rightarrow> obj \<Rightarrow> string" where
  "event_trace_id rp fresh event =
     py_str rp (py_or (oget event ''trace_id'') (py_or (oget event ''uid'') (PStr (''trc-'' @ take 16 fresh))))"

definition alert_fields :: "py_repr \<Rightarrow> det_env \<Rightarrow> obj \<Rightarrow> string \<Rightarrow> obj \<Rightarrow> pyfloat \<Rightarrow> obj" where
  "alert_fields rp e event trace_id det confidence =
     [(''alert_id'', PStr (''ALT-'' @ take 12 (d_uuid e))), (''timestamp'', PStr (d_now e)),
      (''source_ip'', PStr (py_str rp (py_or (oget event ''id.orig_h'') (PStr ''127.0.0.1'')))),
      (''destination_ip'', PStr (py_str rp (py_or (oget event ''id.resp_h'') (PStr ''127.0.0.1'')))),
      (''threat_class'', oget det ''threat_class''), (''severity'', oget det ''severity''),
      (''confidence_score'', PFloat confidence), (''evidence'', dget_or det ''evidence'' (PDict [])),
      (''event_type'', PStr (py_str rp (py_or (oget event ''event_type'') (PStr ''unknown'')))),
      (''schema_version'', PStr ''1.0''),
      (''model_name'', PStr (py_str rp (py_or (oget det ''rule_id'') (PStr ''Unknown'')))),
      (''model_version'', PStr ''1.0''), (''mitre_tactic'', oget det ''mitre_tactic''),
      (''mitre_technique'', oget det ''mitre_technique''), (''trace_id'', PStr trace_id)]"

definition raw_alert :: "py_repr \<Rightarrow> det_env \<Rightarrow> obj \<Rightarrow> string \<Rightarrow> obj \<Rightarrow> obj result" where
  "raw_alert rp e event trace_id det =
     bind_result (py_float (py_or (oget det ''confidence'') (PFloat (Fin (9 / 10))))) (\<lambda>confidence.
       Inr (alert_fields rp e event trace_id det confidence))"

section \<open>One detection\<close>

definition enriched :: "'m libs \<Rightarrow> det_env \<Rightarrow> obj \<Rightarrow> ('s, 'm) world \<Rightarrow> obj \<times> ('s, 'm) world" where
  "enriched L e raw w =
     (case enrich (l_md5 L) (d_http e) (l_loads L) (l_repr L) (d_intel_now e) (d_intel_later e) raw (w_cache w) of
        (Inl _, cache, _) \<Rightarrow> (raw, w\<lparr>w_cache := cache\<rparr>)
      | (Inr alert, cache, _) \<Rightarrow> (alert, w\<lparr>w_cache := cache\<rparr>))"

definition publish :: "obj \<Rightarrow> ('s, 'm) world \<Rightarrow> ('s, 'm) world" where
  "publish alert w = w\<lparr>w_alerts := w_alerts w @ [alert]\<rparr>"

definition undo :: "'s redis_ops \<Rightarrow> corr_env \<Rightarrow> obj \<Rightarrow> ('s, 'm) world \<Rightarrow> ('s, 'm) world" where
  "undo R ce alert w = w\<lparr>w_corr := rollback_alert_seen R ce alert (w_corr w)\<rparr>"

text \<open>The incident of a correlated alert; an error from its send, after the rollback.\<close>

definition emit_incident ::
  "'s redis_ops \<Rightarrow> det_env \<Rightarrow> obj \<Rightarrow> obj \<Rightarrow> ('s, 'm) world \<Rightarrow> exc option \<times> ('s, 'm) world" where
  "emit_incident R e alert incident w =
     (case d_incident e of
        Sent \<Rightarrow> (None, w\<lparr>w_incidents := w_incidents w @ [incident]\<rparr>)
      | TimedOut delivered \<Rightarrow>
          (Some TimeoutError, undo R (d_undo e) alert
             (if delivered then w\<lparr>w_incidents := w_incidents w @ [incident]\<rparr> else w))
      | SendFailed x \<Rightarrow> (Some x, undo R (d_undo e) alert w))"

definition correlate_and_emit ::
  "'s redis_ops \<Rightarrow> det_env \<Rightarrow> obj \<Rightarrow> ('s, 'm) world \<Rightarrow> exc option \<times> ('s, 'm) world" where
  "correlate_and_emit R e alert w =
     (case add_alert R (d_corr e) alert (w_corr w) of
        (Inl x, c) \<Rightarrow> (Some x, w\<lparr>w_corr := c\<rparr>)
      | (Inr None, c) \<Rightarrow> (None, w\<lparr>w_corr := c\<rparr>)
      | (Inr (Some incident), c) \<Rightarrow>
          if incident = [] then (None, w\<lparr>w_corr := c\<rparr>) else emit_incident R e alert incident (w\<lparr>w_corr := c\<rparr>))"

definition run_late :: "'s redis_ops \<Rightarrow> det_env \<Rightarrow> obj \<Rightarrow> ('s, 'm) world \<Rightarrow> ('s, 'm) world" where
  "run_late R e alert w = w\<lparr>w_corr := snd (add_alert R (d_corr e) alert (w_corr w))\<rparr>"

text \<open>The handlers after correlation: a timeout compensates a second time, then every failure goes to
  the dead letters.\<close>

definition after_publish ::
  "'s redis_ops \<Rightarrow> 'm libs \<Rightarrow> det_env \<Rightarrow> obj \<Rightarrow> obj \<Rightarrow> ('s, 'm) world \<Rightarrow> ('s, 'm) world" where
  "after_publish R L e event alert w =
     (let timeout = (\<lambda>w. send_dlq_safely e event alert ''Timeout during correlation or incident send''
                            (undo R (d_undo2 e) alert w)) in
      case d_thread e of
        InTime \<Rightarrow>
          (case correlate_and_emit R e alert w of
             (None, w1) \<Rightarrow> w1
           | (Some x, w1) \<Rightarrow>
               if x = TimeoutError then timeout w1
               else if x = RedisError then send_dlq_safely e event alert (''RedisUnavailable: '' @ l_exc L x) w1
               else send_dlq_safely e event alert (l_exc L x) w1)
      | LateBefore \<Rightarrow> timeout (run_late R e alert w)
      | LateAfter \<Rightarrow> run_late R e alert (timeout w)
      | Cancelled \<Rightarrow> timeout w)"

definition deliver ::
  "'s redis_ops \<Rightarrow> 'm libs \<Rightarrow> det_env \<Rightarrow> obj \<Rightarrow> obj \<Rightarrow> ('s, 'm) world \<Rightarrow> ('s, 'm) world" where
  "deliver R L e event alert w =
     (if \<not> validate_alert (l_date_time L) alert
      then send_dlq_safely e event alert (''SchemaValidationError: '' @ d_schema_error e) w
      else (case d_publish e of
              Sent \<Rightarrow> after_publish R L e event alert (publish alert w)
            | TimedOut delivered \<Rightarrow>
                send_dlq_safely e event alert ''Timeout during alert Kafka publish'' (if delivered then publish alert w else w)
            | SendFailed x \<Rightarrow> send_dlq_safely e event alert (''KafkaPublishError: '' @ l_exc L x) w))"

definition process_detection ::
  "'s redis_ops \<Rightarrow> 'm libs \<Rightarrow> obj \<Rightarrow> string \<Rightarrow> ('s, 'm) world \<Rightarrow> obj \<times> det_env \<Rightarrow> ('s, 'm) world" where
  "process_detection R L event trace_id w de =
     (case de of (det, e) \<Rightarrow>
        (case raw_alert (l_repr L) e event trace_id det of
           Inl x \<Rightarrow> send_dlq_safely e event [(''detection'', PStr (py_str (l_repr L) (PDict det)))]
                      (''DetectionLoopError: '' @ l_exc L x) w
         | Inr raw \<Rightarrow> (case enriched L e raw w of (alert, w1) \<Rightarrow> deliver R L e event alert w1)))"

section \<open>One event\<close>

text \<open>An event whose features cannot be extracted is skipped. The outcomes of the detections come as
  a function of their position.\<close>

definition process_event ::
  "'s redis_ops \<Rightarrow> 'm libs \<Rightarrow> inference_outcome \<Rightarrow> string \<Rightarrow> (nat \<Rightarrow> det_env) \<Rightarrow> obj \<Rightarrow> ('s, 'm) world \<Rightarrow> ('s, 'm) world" where
  "process_event R L io fresh env event w =
     (case extract_features event of
        Inl _ \<Rightarrow> w
      | Inr features \<Rightarrow>
          (case detections_of L io event features (w_engine w) of (detections, en) \<Rightarrow>
             foldl (process_detection R L event (event_trace_id (l_repr L) fresh event)) (w\<lparr>w_engine := en\<rparr>)
               (zip detections (map env [0..<length detections]))))"

section \<open>What a step adds\<close>

text \<open>\<open>dead w a\<close>: the alert is among the dead letters, at the broker or on the disk, marked for replay.\<close>

definition dead :: "('s, 'm) world \<Rightarrow> obj \<Rightarrow> bool" where
  "dead w a \<longleftrightarrow> (\<exists>p\<in>set (w_dlq w @ w_disk w). oget p ''alert'' = PDict (dset ''is_replay'' (PBool True) a))"

text \<open>What a step appended to a list that only grows, and the dead letters it wrote.\<close>

definition newly :: "'a list \<Rightarrow> 'a list \<Rightarrow> 'a list" where
  "newly xs ys = drop (length xs) ys"

definition newly_dead :: "('s, 'm) world \<Rightarrow> ('s, 'm) world \<Rightarrow> obj \<Rightarrow> bool" where
  "newly_dead w w' a \<longleftrightarrow> (\<exists>p\<in>set (newly (w_dlq w) (w_dlq w') @ newly (w_disk w) (w_disk w')).
     oget p ''alert'' = PDict (dset ''is_replay'' (PBool True) a))"

definition dead_letters_work :: "det_env \<Rightarrow> bool" where
  "dead_letters_work e \<longleftrightarrow> d_dead_letter e = Sent \<or> d_disk_ok e"

definition world_grows :: "('s, 'm) world \<Rightarrow> ('s, 'm) world \<Rightarrow> bool" where
  "world_grows w w' \<longleftrightarrow> prefix (w_alerts w) (w_alerts w') \<and> prefix (w_dlq w) (w_dlq w') \<and> prefix (w_disk w) (w_disk w')"

lemma world_grows_refl [simp]: "world_grows w w"
  and world_grows_trans: "world_grows w w1 \<Longrightarrow> world_grows w1 w2 \<Longrightarrow> world_grows w w2"
  unfolding world_grows_def by (auto intro: prefix_order.trans)

lemma dead_grows: "dead w a \<Longrightarrow> world_grows w w' \<Longrightarrow> dead w' a"
  unfolding dead_def world_grows_def by (auto dest: set_mono_prefix)

lemma newly_later: "prefix ys zs \<Longrightarrow> set (newly xs ys) \<subseteq> set (newly xs zs)"
  by (auto simp: newly_def prefix_def)

lemma newly_earlier: "prefix xs ys \<Longrightarrow> set (newly ys zs) \<subseteq> set (newly xs zs)"
  unfolding newly_def by (intro set_drop_subset_set_drop) (auto simp: prefix_def)

lemma newly_appended [simp]: "newly xs (xs @ ys) = ys" "newly xs xs = []"
  by (simp_all add: newly_def)

lemma newly_dead_dead: "newly_dead w w' a \<Longrightarrow> dead w' a"
  unfolding newly_dead_def dead_def newly_def by (auto dest: in_set_dropD)

lemma newly_dead_later: "newly_dead w w1 a \<Longrightarrow> world_grows w1 w2 \<Longrightarrow> newly_dead w w2 a"
  unfolding newly_dead_def world_grows_def set_append by (meson UnE UnI1 UnI2 newly_later subsetD)

lemma newly_dead_earlier: "newly_dead w1 w2 a \<Longrightarrow> world_grows w w1 \<Longrightarrow> newly_dead w w2 a"
  unfolding newly_dead_def world_grows_def set_append by (meson UnE UnI1 UnI2 newly_earlier subsetD)

lemma undo_fields [simp]:
  "w_alerts (undo R ce alert w) = w_alerts w" "w_dlq (undo R ce alert w) = w_dlq w" "w_disk (undo R ce alert w) = w_disk w"
  "w_corr (undo R ce alert w) = rollback_alert_seen R ce alert (w_corr w)"
  by (simp_all add: undo_def)

lemma run_late_fields [simp]:
  "w_alerts (run_late R e alert w) = w_alerts w" "w_dlq (run_late R e alert w) = w_dlq w"
  "w_disk (run_late R e alert w) = w_disk w"
  by (simp_all add: run_late_def)

lemma send_dlq_fields [simp]:
  "w_alerts (send_dlq_safely e event a m w) = w_alerts w" "w_corr (send_dlq_safely e event a m w) = w_corr w"
  by (simp_all add: send_dlq_safely_def write_local_dlq_fallback_def Let_def split: send_outcome.splits)

lemma send_dlq_grows [simp]: "world_grows w (send_dlq_safely e event a m w)"
  by (auto simp: world_grows_def send_dlq_safely_def write_local_dlq_fallback_def Let_def split: send_outcome.splits)

lemma send_dlq_dead: "dead_letters_work e \<Longrightarrow> newly_dead w (send_dlq_safely e event a m w) a"
  by (auto simp: newly_dead_def dead_letters_work_def send_dlq_safely_def write_local_dlq_fallback_def Let_def dlq_payload_def
      oget_def dget_or_def split: send_outcome.splits)

lemma emit_incident_fields:
  "emit_incident R e alert inc w = (r, w') \<Longrightarrow> w_alerts w' = w_alerts w \<and> w_dlq w' = w_dlq w \<and> w_disk w' = w_disk w"
  by (auto simp: emit_incident_def split: send_outcome.splits if_splits)

lemma correlate_fields:
  "correlate_and_emit R e alert w = (r, w') \<Longrightarrow> w_alerts w' = w_alerts w \<and> w_dlq w' = w_dlq w \<and> w_disk w' = w_disk w"
  by (auto simp: correlate_and_emit_def dest: emit_incident_fields split: prod.splits sum.splits option.splits if_splits)

lemma same_grows: "w_alerts w' = w_alerts w \<and> w_dlq w' = w_dlq w \<and> w_disk w' = w_disk w \<Longrightarrow> world_grows w w'"
  by (simp add: world_grows_def)

lemma after_publish_grows: "world_grows w (after_publish R L e event alert w)"
proof -
  have late: "world_grows w (send_dlq_safely e event alert m (undo R ce alert w1))" if "world_grows w w1" for m ce w1
    using that world_grows_trans [OF that world_grows_trans [OF same_grows send_dlq_grows]] by simp
  have run: "world_grows w (run_late R e alert w1)" if "world_grows w w1" for w1
    by (rule world_grows_trans [OF that same_grows]) simp
  show ?thesis
  proof (cases "d_thread e")
    case InTime
    obtain r w1 where c: "correlate_and_emit R e alert w = (r, w1)" by (cases "correlate_and_emit R e alert w")
    have "world_grows w w1" using same_grows [OF correlate_fields [OF c]] .
    then show ?thesis
      using late world_grows_trans [OF _ send_dlq_grows] by (auto simp: after_publish_def InTime c Let_def split: option.splits)
  qed (use late run in \<open>auto simp: after_publish_def Let_def\<close>)
qed

lemma after_publish_alerts: "w_alerts (after_publish R L e event alert w) = w_alerts w"
  by (auto simp: after_publish_def Let_def dest: correlate_fields split: thread_outcome.splits prod.splits option.splits)

lemma publish_fields [simp]:
  "w_alerts (publish alert w) = w_alerts w @ [alert]" "w_dlq (publish alert w) = w_dlq w"
  "w_disk (publish alert w) = w_disk w" "w_corr (publish alert w) = w_corr w"
  by (simp_all add: publish_def)

lemma publish_grows [simp]: "world_grows w (publish alert w)"
  by (simp add: world_grows_def)

lemma deliver_cases:
  obtains m where "deliver R L e event alert w = send_dlq_safely e event alert m w"
    | "validate_alert (l_date_time L) alert" "deliver R L e event alert w = after_publish R L e event alert (publish alert w)"
    | m where "validate_alert (l_date_time L) alert" "deliver R L e event alert w = send_dlq_safely e event alert m (publish alert w)"
proof (cases "validate_alert (l_date_time L) alert")
  case False
  then have "deliver R L e event alert w = send_dlq_safely e event alert (''SchemaValidationError: '' @ d_schema_error e) w"
    by (simp only: deliver_def if_True not_False_eq_True)
  then show ?thesis by (rule that(1))
next
  case True
  note valid = this
  have d: "deliver R L e event alert w = (case d_publish e of
      Sent \<Rightarrow> after_publish R L e event alert (publish alert w)
    | TimedOut delivered \<Rightarrow>
        send_dlq_safely e event alert ''Timeout during alert Kafka publish'' (if delivered then publish alert w else w)
    | SendFailed x \<Rightarrow> send_dlq_safely e event alert (''KafkaPublishError: '' @ l_exc L x) w)"
    using valid by (simp only: deliver_def not_True_eq_False if_False)
  show ?thesis
  proof (cases "d_publish e")
    case Sent
    then show ?thesis using d by (intro that(2) valid) simp
  next
    case (TimedOut delivered)
    show ?thesis
    proof (cases delivered)
      case True
      then show ?thesis using d TimedOut by (intro that(3) [OF valid]) simp
    next
      case False
      then show ?thesis using d TimedOut by (intro that(1)) simp
    qed
  next
    case (SendFailed x)
    then show ?thesis using d by (intro that(1)) (simp only: send_outcome.case)
  qed
qed

text \<open>What delivering an alert does: it world_grows the record, publishes at most this alert and only a valid
  one, touches the correlator only after publishing it, and leaves it published or dead-lettered.\<close>

lemma deliver_facts:
  fixes R L e event alert and w :: "('s, 'm) world"
  defines "w' \<equiv> deliver R L e event alert w"
  shows "world_grows w w'"
    and "w_alerts w' = w_alerts w \<and> w_corr w' = w_corr w \<or> w_alerts w' = w_alerts w @ [alert] \<and> validate_alert (l_date_time L) alert"
    and "dead_letters_work e \<Longrightarrow> alert \<in> set (newly (w_alerts w) (w_alerts w')) \<or> newly_dead w w' alert"
proof -
  note cases = deliver_cases [of R L e event alert w, folded w'_def]
  show "world_grows w w'"
    by (rule cases) (use world_grows_trans [OF publish_grows after_publish_grows] world_grows_trans [OF publish_grows send_dlq_grows] in auto)
  show "w_alerts w' = w_alerts w \<and> w_corr w' = w_corr w \<or> w_alerts w' = w_alerts w @ [alert] \<and> validate_alert (l_date_time L) alert"
    by (rule cases) (auto simp: after_publish_alerts)
  show "alert \<in> set (newly (w_alerts w) (w_alerts w')) \<or> newly_dead w w' alert" if "dead_letters_work e"
    by (rule cases) (use send_dlq_dead [OF that] in \<open>auto simp: after_publish_alerts\<close>)
qed

section \<open>A detection\<close>

text \<open>An alert tells of a detection: it carries its class, its severity, its rule and an id, or, when the
  alert could not even be built, the detection itself.\<close>

definition tells :: "py_repr \<Rightarrow> obj \<Rightarrow> obj \<Rightarrow> bool" where
  "tells rp det a \<longleftrightarrow> a = [(''detection'', PStr (py_str rp (PDict det)))] \<or>
     oget a ''threat_class'' = oget det ''threat_class'' \<and> oget a ''severity'' = oget det ''severity'' \<and>
     oget a ''model_name'' = PStr (py_str rp (py_or (oget det ''rule_id'') (PStr ''Unknown''))) \<and>
     (\<exists>i. oget a ''alert_id'' = PStr (''ALT-'' @ i))"

text \<open>Between two worlds a detection is accounted for: an alert that tells of it was published, or written
  as a dead letter, by the steps between them.\<close>

definition accounted :: "py_repr \<Rightarrow> ('s, 'm) world \<Rightarrow> ('s, 'm) world \<Rightarrow> obj \<Rightarrow> bool" where
  "accounted rp w w' det \<longleftrightarrow>
     (\<exists>a. (a \<in> set (newly (w_alerts w) (w_alerts w')) \<or> newly_dead w w' a) \<and> tells rp det a)"

definition publishes :: "('m libs) \<Rightarrow> ('s, 'm) world \<Rightarrow> ('s, 'm) world \<Rightarrow> bool" where
  "publishes L w w' \<longleftrightarrow> (\<exists>new. w_alerts w' = w_alerts w @ new \<and> list_all (validate_alert (l_date_time L)) new \<and>
     (new = [] \<longrightarrow> w_corr w' = w_corr w))"

lemma accounted_later: "accounted rp w w1 det \<Longrightarrow> world_grows w1 w2 \<Longrightarrow> accounted rp w w2 det"
  unfolding accounted_def using newly_dead_later by (metis world_grows_def newly_later subsetD)

lemma accounted_earlier: "accounted rp w1 w2 det \<Longrightarrow> world_grows w w1 \<Longrightarrow> accounted rp w w2 det"
  unfolding accounted_def using newly_dead_earlier by (metis world_grows_def newly_earlier subsetD)

lemma publishes_refl [simp]: "publishes L w w"
  by (simp add: publishes_def)

lemma publishes_trans: "publishes L w w1 \<Longrightarrow> publishes L w1 w2 \<Longrightarrow> publishes L w w2"
  unfolding publishes_def by force

lemma alert_fields_tell: "tells rp det (alert_fields rp e event tid det c)"
  unfolding tells_def by (rule disjI2) (simp add: alert_fields_def oget_def dget_or_def)

lemma raw_alert_tells:
  assumes "raw_alert rp e event tid det = Inr a"
  shows "tells rp det a" "a \<noteq> [(''detection'', PStr t)]"
proof -
  obtain c where a: "a = alert_fields rp e event tid det c"
    using assms by (auto simp: raw_alert_def bind_result_def split: sum.splits)
  show "tells rp det a" unfolding a by (rule alert_fields_tell)
  show "a \<noteq> [(''detection'', PStr t)]" unfolding a alert_fields_def by simp
qed

lemma enriched_facts:
  assumes "enriched L e raw w = (alert, w')"
  shows "w_alerts w' = w_alerts w" "w_dlq w' = w_dlq w" "w_disk w' = w_disk w" "w_corr w' = w_corr w"
    and "tells rp det raw \<Longrightarrow> raw \<noteq> [(''detection'', PStr (py_str rp (PDict det)))] \<Longrightarrow> tells rp det alert"
proof -
  show "w_alerts w' = w_alerts w" "w_dlq w' = w_dlq w" "w_disk w' = w_disk w" "w_corr w' = w_corr w"
    using assms by (auto simp: enriched_def split: prod.splits sum.splits)
  have "alert = raw \<or> (\<exists>v. alert = dset ''evidence'' v raw)"
    using assms enrich_alert_cases by (fastforce simp: enriched_def split: prod.splits sum.splits)
  then show "tells rp det raw \<Longrightarrow> raw \<noteq> [(''detection'', PStr (py_str rp (PDict det)))] \<Longrightarrow> tells rp det alert"
    by (auto simp: tells_def oget_def dget_or_def)
qed

lemma process_detection_facts:
  fixes R L event tid det e and w :: "('s, 'm) world"
  defines "w' \<equiv> process_detection R L event tid w (det, e)"
  shows "world_grows w w'" "publishes L w w'" "dead_letters_work e \<Longrightarrow> accounted (l_repr L) w w' det"
proof -
  let ?lit = "[(''detection'', PStr (py_str (l_repr L) (PDict det)))]"
  consider (bad) m where "w' = send_dlq_safely e event ?lit m w"
    | (ok) raw alert w1 where "raw_alert (l_repr L) e event tid det = Inr raw" "enriched L e raw w = (alert, w1)"
        "w' = deliver R L e event alert w1"
  proof (cases "raw_alert (l_repr L) e event tid det")
    case (Inl x)
    then show ?thesis by (intro that(1)) (simp only: w'_def process_detection_def prod.case sum.case)
  next
    case (Inr raw)
    obtain alert w1 where "enriched L e raw w = (alert, w1)" by (cases "enriched L e raw w")
    with Inr show ?thesis by (intro that(2)) (simp_all only: w'_def process_detection_def prod.case sum.case)
  qed
  then have "world_grows w w' \<and> publishes L w w' \<and> (dead_letters_work e \<longrightarrow> accounted (l_repr L) w w' det)"
  proof cases
    case bad
    have "accounted (l_repr L) w w' det" if "dead_letters_work e"
      using send_dlq_dead [OF that, of w event ?lit m] unfolding accounted_def bad tells_def by blast
    then show ?thesis by (simp add: bad publishes_def)
  next
    case ok
    note en = enriched_facts [OF ok(2)]
    have "raw \<noteq> ?lit" using ok(1) by (rule raw_alert_tells(2))
    then have tells: "tells (l_repr L) det alert" using en(5) raw_alert_tells(1) [OF ok(1)] by blast
    have "world_grows w w1" by (rule same_grows) (simp add: en)
    moreover note d = deliver_facts [where w = w1 and R = R and L = L and e = e and event = event and alert = alert, folded ok(3)]
    moreover have "publishes L w w'" using d(2) en by (auto simp: publishes_def)
    moreover have "accounted (l_repr L) w w' det" if "dead_letters_work e"
      using accounted_earlier [of _ w1 w'] d(3) [OF that] tells \<open>world_grows w w1\<close> unfolding accounted_def by blast
    ultimately show ?thesis using world_grows_trans by blast
  qed
  then show "world_grows w w'" "publishes L w w'" "dead_letters_work e \<Longrightarrow> accounted (l_repr L) w w' det" by blast+
qed

lemma detections_fold:
  fixes w :: "('s, 'm) world"
  assumes "\<forall>(det, e)\<in>set des. dead_letters_work e"
  shows "world_grows w (foldl (process_detection R L event tid) w des) \<and>
    (\<forall>(det, e)\<in>set des. accounted (l_repr L) w (foldl (process_detection R L event tid) w des) det)"
  using assms
proof (induction des arbitrary: w)
  case (Cons de des)
  obtain det e where de: "de = (det, e)" by (cases de)
  let ?w = "process_detection R L event tid w (det, e)"
  note f = process_detection_facts [where w = w and R = R and L = L and event = event and tid = tid and det = det and e = e]
  have "\<forall>(det, e)\<in>set des. dead_letters_work e" using Cons.prems by simp
  from Cons.IH [OF this, of ?w] have rest: "world_grows ?w (foldl (process_detection R L event tid) ?w des)"
    "\<forall>(det, e)\<in>set des. accounted (l_repr L) ?w (foldl (process_detection R L event tid) ?w des) det" by blast+
  have "accounted (l_repr L) w ?w det" using f(3) Cons.prems by (simp add: de)
  from accounted_later [OF this rest(1)] have "accounted (l_repr L) w (foldl (process_detection R L event tid) ?w des) det" .
  moreover have "\<forall>(det, e)\<in>set des. accounted (l_repr L) w (foldl (process_detection R L event tid) ?w des) det"
    using rest(2) accounted_earlier [OF _ f(1)] by blast
  ultimately show ?case using world_grows_trans [OF f(1) rest(1)] by (simp add: de)
qed simp

lemma publishes_fold: "publishes L w (foldl (process_detection R L event tid) w des)"
proof (induction des arbitrary: w)
  case (Cons de des)
  show ?case using publishes_trans [OF process_detection_facts(2) Cons.IH] by (cases de) simp
qed simp

section \<open>Properties of the stream processor\<close>

lemma event_accounted:
  assumes "extract_features event = Inr features"
    and "detections_of L io event features (w_engine w) = (detections, en)"
    and "\<forall>i. dead_letters_work (env i)" and "det \<in> set detections"
  shows "accounted (l_repr L) w (process_event R L io fresh env event w) det"
proof -
  let ?des = "zip detections (map env [0..<length detections])"
  have "dead_letters_work e" if "(det, e) \<in> set ?des" for det e
    using set_zip_rightD [OF that] assms(3) by auto
  then have "\<forall>(det, e)\<in>set ?des. dead_letters_work e" by blast
  note f = conjunct2 [OF detections_fold [OF this, of "w\<lparr>w_engine := en\<rparr>" R L event "event_trace_id (l_repr L) fresh event"]]
  have "det \<in> fst ` set ?des" using assms(4) by (simp add: set_map [symmetric] del: set_map)
  then obtain e where "(det, e) \<in> set ?des" by force
  with f have "accounted (l_repr L) (w\<lparr>w_engine := en\<rparr>) (process_event R L io fresh env event w) det"
    using assms(1,2) by (auto simp: process_event_def)
  then show ?thesis by (rule accounted_earlier) (simp add: world_grows_def)
qed

text \<open>C3. No detection is silently dropped: once the features of an event are extracted, every detection
  of the rules and the network ends in a published alert or in a dead letter marked for replay, which
  carries its class, its severity and its rule, whatever the broker, Redis, the intelligence host and
  the schema gate do, as long as a dead letter reaches the broker or the disk.\<close>

theorem every_detection_accounted:
  assumes "extract_features event = Inr features"
    and "detections_of L io event features (w_engine w) = (detections, en)"
    and "\<forall>i. dead_letters_work (env i)" and "det \<in> set detections"
  shows "accounted (l_repr L) w (process_event R L io fresh env event w) det"
  by (rule event_accounted [OF assms])

text \<open>Publish before correlate: an event only appends to the published alerts, every alert it
  publishes has passed the schema, and the correlator and its Redis state change only when an alert
  has been published.\<close>

theorem correlation_only_after_publish:
  "\<exists>new. w_alerts (process_event R L io fresh env event w) = w_alerts w @ new \<and>
     list_all (validate_alert (l_date_time L)) new \<and>
     (if new = [] then w_corr (process_event R L io fresh env event w) = w_corr w else True)"
proof (cases "extract_features event")
  case (Inr features)
  obtain ds en where d: "detections_of L io event features (w_engine w) = (ds, en)"
    by (cases "detections_of L io event features (w_engine w)")
  let ?w = "process_event R L io fresh env event w"
  have "publishes L (w\<lparr>w_engine := en\<rparr>) ?w"
    using publishes_fold by (simp add: process_event_def Inr d)
  then obtain new where "w_alerts ?w = w_alerts w @ new" "list_all (validate_alert (l_date_time L)) new"
    "new = [] \<longrightarrow> w_corr ?w = w_corr w" by (auto simp: publishes_def)
  then show ?thesis by (intro exI [of _ new]) simp
qed (simp add: process_event_def)

text \<open>C12. A failed incident leaves no trace: when the send of the incident of a fresh alert raises, or is
  not acknowledged in its three seconds and the handler rolls back a second time, the correlator's Redis
  is as it was before the alert, up to the cleared severity tracker, and the alert is kept as a dead letter
  marked for replay. The conditions: the alert is fresh (neither its id nor the alert itself is on record)
  and the evidence list and the record of seen ids have room (100 and 5000), so that the correlation evicted
  nothing; the correlation and the first rollback ran; a dead letter reaches the broker or the disk.
  The second rollback may run or fail.\<close>

theorem failed_incident_compensated:
  assumes "redis R view" "store_ok (view (c_store (w_corr w)))" "source_key (e_repr (d_corr e)) alert = Some src"
    and "e_lua (d_corr e) = LuaRan" "e_lua (d_undo e) \<noteq> LuaFailed"
    and "e_repr (d_undo e) = e_repr (d_corr e)" "e_repr (d_undo2 e) = e_repr (d_corr e)"
    and "fst (check_redis_master (d_corr e) (w_corr w)) = Inr True"
    and "py_str (e_repr (d_corr e)) (dget_or alert ''alert_id'' (PStr [])) = i" "py_strip i = i"
    and "zscore_list i (rzsets (view (c_store (w_corr w))) (seen_key (alerts_key src))) = None"
    and "alert \<notin> set (rlists (view (c_store (w_corr w))) (alerts_key src))"
    and "length (rlists (view (c_store (w_corr w))) (alerts_key src)) < 100"
    and "length (rzsets (view (c_store (w_corr w))) (seen_key (alerts_key src))) < 5000"
    and "validate_alert (l_date_time L) alert" "d_publish e = Sent" "d_thread e = InTime"
    and "fst (add_alert R (d_corr e) alert (w_corr w)) = Inr (Some incident)" "incident \<noteq> []"
    and "d_incident e \<noteq> Sent" "dead_letters_work e"
  shows "view (c_store (w_corr (deliver R L e event alert w))) =
      without_dedup (dedup_key src (safe_threat (alert_threat (e_repr (d_corr e)) alert))) (view (c_store (w_corr w))) \<and>
    dead (deliver R L e event alert w) alert"
proof -
  obtain c where c: "add_alert R (d_corr e) alert (w_corr w) = (Inr (Some incident), c)"
    using assms(18) by (cases "add_alert R (d_corr e) alert (w_corr w)") simp
  obtain x w1 where ce: "correlate_and_emit R e alert (publish alert w) = (Some x, w1)"
    and w1: "w_corr w1 = rollback_alert_seen R (d_undo e) alert c"
    using c assms(19,20) by (cases "d_incident e") (simp_all add: correlate_and_emit_def emit_incident_def)
  obtain m w2 where d: "deliver R L e event alert w = send_dlq_safely e event alert m w2"
    and w2: "w2 = w1 \<or> w2 = undo R (d_undo2 e) alert w1"
    using assms(15-17) ce by (cases "x = TimeoutError"; cases "x = RedisError") (simp_all add: deliver_def after_publish_def)
  have "c = snd (add_alert R (d_corr e) alert (w_corr w))" using c by simp
  then have once: "view (c_store (w_corr w1)) =
      without_dedup (dedup_key src (safe_threat (alert_threat (e_repr (d_corr e)) alert))) (view (c_store (w_corr w)))"
    using rollback_restores [OF assms(1-6,8-11,13,14)] w1 by simp
  then have "view (c_store (rollback_alert_seen R (d_undo2 e) alert (w_corr w1))) = view (c_store (w_corr w1))"
    using second_rollback [OF assms(1,2), of "d_undo2 e" alert src i] assms(3,7,9-12) by simp
  then have "view (c_store (w_corr w2)) = view (c_store (w_corr w1))" using w2 by auto
  then show ?thesis
    using once newly_dead_dead [OF send_dlq_dead [OF assms(21), of w2 event alert m]] unfolding d by simp
qed

text \<open>An event whose features cannot be extracted leaves no alert and no dead letter.\<close>

lemma unreadable_event_dropped: "extract_features event = Inl x \<Longrightarrow> process_event R L io fresh env event w = w"
  by (simp add: process_event_def)

text \<open>A correlation that outlives its wait still counts the alert, after the compensation has run.\<close>

lemma late_correlation_stays:
  assumes "validate_alert (l_date_time L) alert" "d_publish e = Sent" "d_thread e = LateAfter"
  shows "w_corr (deliver R L e event alert w) =
    snd (add_alert R (d_corr e) alert (rollback_alert_seen R (d_undo2 e) alert (w_corr w)))"
  using assms by (simp add: deliver_def after_publish_def run_late_def Let_def)

section \<open>A sample run\<close>

definition sample_libs :: "nat libs" where
  "sample_libs = \<lparr>l_md5 = (\<lambda>_. 0), l_loads = (\<lambda>_. Inl ValueError), l_repr = (\<lambda>_. ''?''), l_exc = (\<lambda>_. ''error''),
     l_date_time = (\<lambda>_. True), l_text = \<lparr>x_nfkc = (\<lambda>s. s), x_idna = (\<lambda>_. None)\<rparr>, l_forward = (\<lambda>_ _. Inl RuntimeError),
     l_fingerprints = []\<rparr>"

text \<open>Nothing works but the local disk; the incident is refused.\<close>

definition disk_only :: det_env where
  "disk_only = \<lparr>d_uuid = ''0123456789abcdef'', d_now = ''now'', d_http = (\<lambda>_. HttpFailed), d_intel_now = 0, d_intel_later = 0,
     d_schema_error = ''bad'', d_publish = SendFailed RuntimeError, d_thread = InTime, d_corr = sample_env,
     d_incident = SendFailed RuntimeError, d_undo = sample_env, d_undo2 = sample_env,
     d_dead_letter = SendFailed RuntimeError, d_disk_ok = True\<rparr>"

definition sample_world :: "rdb \<Rightarrow> (rdb, nat) world" where
  "sample_world d = \<lparr>w_corr = \<lparr>c_store = d, c_last_check = 0\<rparr>, w_cache = [], w_engine = \<lparr>en_model = None, en_count = 0, en_sha = []\<rparr>,
     w_alerts = [], w_incidents = [], w_dlq = [], w_disk = []\<rparr>"

theorem every_detection_accounted_witness:
  "\<exists>det. oget det ''rule_id'' = PStr ''RULE_RECON_PORT_SCAN'' \<and>
     accounted (l_repr sample_libs) (sample_world empty_rdb)
       (process_event mem_redis sample_libs InferenceFailed [] (\<lambda>_. disk_only) sample_scan (sample_world empty_rdb)) det"
proof -
  let ?f = "[(''duration'', PFloat (Fin 0)), (''orig_bytes'', PInt 6000000), (''resp_bytes'', PInt 0), (''bytes_per_sec'', PFloat (Fin 0))]"
  have "\<exists>ds. evaluate_rules (\<lambda>_. ''?'') [] sample_scan ?f = Inr ds \<and> rule_ids ds = [PStr ''RULE_RECON_PORT_SCAN'', PStr ''RULE_CONN_EXFIL'']"
    using conn_rules_fire [OF _ sample_scan_features, of 1 22 6000000 0 "\<lambda>_. ''?''" "[]"]
    by (simp add: sample_scan_def is_event_def conn_rule_table_def safe_int_def is_null_field_def)
  then obtain ds where f: "extract_features sample_scan = Inr ?f" "evaluate_rules (\<lambda>_. ''?'') [] sample_scan ?f = Inr ds"
      "PStr ''RULE_RECON_PORT_SCAN'' \<in> set (rule_ids ds)"
    using sample_scan_features by auto
  then obtain det where det: "det \<in> set ds" "oget det ''rule_id'' = PStr ''RULE_RECON_PORT_SCAN''"
    by (auto simp: rule_ids_def)
  have "detections_of sample_libs InferenceFailed sample_scan ?f (w_engine (sample_world empty_rdb)) = (ds, w_engine (sample_world empty_rdb))"
    using f(2) by (simp add: detections_of_def infer_dga_def sample_libs_def sample_scan_def oget_def dget_or_def)
  from every_detection_accounted [OF f(1) this _ det(1), of "\<lambda>_. disk_only"] det(2)
  show ?thesis by (auto simp: dead_letters_work_def disk_only_def)
qed

text \<open>The second alert of a source: the store counts one alert already.\<close>

definition stream_alert :: obj where
  "stream_alert = [(''timestamp'', PStr ''now''), (''alert_id'', PStr ''ALT-1''), (''event_type'', PStr ''conn''),
     (''threat_class'', PStr ''DDoS / Volumetric''), (''confidence_score'', PFloat (Fin 1)), (''severity'', PStr ''high''),
     (''source_ip'', PStr ''10.0.0.7''), (''schema_version'', PStr ''1.0'')]"

definition one_counted :: rdb where
  "one_counted = empty_rdb\<lparr>rnums := [count_key (alerts_key ''10.0.0.7'') \<mapsto> 1],
     rttl := [count_key (alerts_key ''10.0.0.7'') \<mapsto> 300]\<rparr>"

lemma sample_address: "ip_address ''10.0.0.7'' = Some (V4 (dotted 10 0 0 7))" "str_v4 (dotted 10 0 0 7) = ''10.0.0.7''"
proof -
  have ip: "join ''.'' (map str_of_nat [10, 0, 0, 7]) = ''10.0.0.7''" by code_simp
  show "ip_address ''10.0.0.7'' = Some (V4 (dotted 10 0 0 7))" "str_v4 (dotted 10 0 0 7) = ''10.0.0.7''"
    using ip_address_dotted [of 10 0 0 7] str_v4_dotted [of 10 0 0 7] unfolding ip by simp_all
qed

lemma stream_source: "source_key rp stream_alert = Some ''10.0.0.7''"
proof -
  have strip: "py_strip (py_str rp (dget_or stream_alert ''source_ip'' (PStr ''127.0.0.1''))) = ''10.0.0.7''"
    by code_simp
  show ?thesis using sample_address by (simp add: source_key_def strip)
qed

lemma stream_alert_valid: "validate_alert (\<lambda>_. True) stream_alert"
  by (simp add: validate_alert_def REQUIRED_def ALERT_SCHEMA_def stream_alert_def check_ip_address_def sample_address)

lemma one_counted_ok: "store_ok one_counted"
  by (auto simp: store_ok_def one_counted_def empty_rdb_def live_def rexists_def num_key_def count_key_def alerts_key_def split: option.splits)

lemma second_incident:
  "\<exists>inc. fst (add_alert mem_redis sample_env stream_alert \<lparr>c_store = one_counted, c_last_check = 0\<rparr>) = Inr (Some inc) \<and> inc \<noteq> []"
proof -
  have sev: "dget_or stream_alert ''severity'' x = PStr ''high''" for x by (simp add: stream_alert_def)
  have "own_keys (alerts_key ''10.0.0.7'') (dedup_key ''10.0.0.7'' t)" for t by (rule own_keys_ip)
  then have run: "fst (run_correlate mem_redis sample_env ''10.0.0.7'' stream_alert one_counted) = (2, 1, [stream_alert])"
    unfolding run_correlate_def
    by (subst correlate_mem(1) [OF own_keys_ip])
       (simp_all add: seen_before_def one_counted_def empty_rdb_def zscore_list_def count_of_def max_of_def incident_due_def own_keys_def)
  have low: "py_lower ''high'' = ''high''" by code_simp
  have risk: "calculate_risk_score [stream_alert] = Inr 75"
    by (simp add: calculate_risk_score_def alert_weight_def sev low severity_weights_def)
  have ev: "ev_alerts (gather_evidence rp ''10.0.0.7'' stream_alert [stream_alert]) = [stream_alert]" for rp
    using gather_evidence_facts(2) by simp
  have th: "ev_threats (gather_evidence rp ''10.0.0.7'' stream_alert [stream_alert]) = [PStr ''DDoS / Volumetric'']" for rp
    by (simp add: gather_evidence_def absorb_alert_def add_threat_def add_entity_def add_related_def
        add_tactic_def raise_max_sev_def Let_def stream_alert_def py_or_def)
  have env: "e_now sample_env = 100" "e_info sample_env = Inr [(''role'', PStr ''master'')]"
    "e_lua sample_env = LuaRan" "e_so sample_env = (\<lambda>xs. xs)" by (simp_all add: sample_env_def)
  show ?thesis
    using run risk stream_source [of "e_repr sample_env"] ev
    by (auto simp: add_alert_def check_redis_master_def case_prod_beta build_incident_def env Let_def th join_strs_def)
qed

theorem failed_incident_compensated_witness:
  "dead (deliver mem_redis sample_libs (disk_only\<lparr>d_publish := Sent, d_incident := TimedOut True\<rparr>) [] stream_alert (sample_world one_counted))
     stream_alert \<and>
   c_store (w_corr (deliver mem_redis sample_libs (disk_only\<lparr>d_publish := Sent, d_incident := TimedOut True\<rparr>) [] stream_alert
     (sample_world one_counted))) =
     without_dedup (dedup_key ''10.0.0.7'' (safe_threat (alert_threat (e_repr sample_env) stream_alert))) one_counted"
proof -
  let ?e = "disk_only\<lparr>d_publish := Sent, d_incident := TimedOut True\<rparr>"
  have id: "py_strip ''ALT-1'' = ''ALT-1''" by code_simp
  obtain inc where inc: "fst (add_alert mem_redis sample_env stream_alert \<lparr>c_store = one_counted, c_last_check = 0\<rparr>) = Inr (Some inc)"
    "inc \<noteq> []" using second_incident by blast
  have env: "d_corr ?e = sample_env" "d_undo ?e = sample_env" "d_undo2 ?e = sample_env" "d_publish ?e = Sent" "d_thread ?e = InTime"
    "d_incident ?e \<noteq> Sent" "dead_letters_work ?e" "l_date_time sample_libs = (\<lambda>_. True)"
    "w_corr (sample_world one_counted) = \<lparr>c_store = one_counted, c_last_check = 0\<rparr>"
    by (simp_all add: disk_only_def sample_libs_def sample_world_def dead_letters_work_def)
  have pre: "e_lua sample_env = LuaRan" "fst (check_redis_master sample_env \<lparr>c_store = one_counted, c_last_check = 0\<rparr>) = Inr True"
    "py_str (e_repr sample_env) (dget_or stream_alert ''alert_id'' (PStr [])) = ''ALT-1''"
    "zscore_list ''ALT-1'' (rzsets one_counted (seen_key (alerts_key ''10.0.0.7''))) = None"
    "rlists one_counted (alerts_key ''10.0.0.7'') = []" "rzsets one_counted (seen_key (alerts_key ''10.0.0.7'')) = []"
    by (simp_all add: sample_env_def check_redis_master_def stream_alert_def one_counted_def empty_rdb_def zscore_list_def)
  show ?thesis
    using failed_incident_compensated [OF mem.redis_axioms, of "sample_world one_counted" ?e stream_alert "''10.0.0.7''" "''ALT-1''"
        sample_libs inc "[]"]
    by (simp add: env pre one_counted_ok stream_source id stream_alert_valid inc zscore_list_def)
qed

end
