(* ===== verification/Formatters.thy ===== *)
theory Formatters
  imports PyValue
begin

text \<open>
  \<open>shared/formatters.py\<close>: escaping of attacker-influenced text for Markdown, timestamps, MITRE labels
  and the split of evidence into observed, inferred and unknown entries; and the two formatting
  facilities of Python the analyst interfaces print with, \<open>format(v, '.nf')\<close> and \<open>str.title\<close>.
  \<open>dateutil.parser.isoparse\<close> is a parameter.
\<close>

section \<open>Markdown\<close>

abbreviation backslash :: char where
  "backslash \<equiv> CHR 0x5C"

definition markdown_special :: "char \<Rightarrow> bool" where
  "markdown_special c \<longleftrightarrow> c \<in> set (backslash # ''`*_{}[]()#+-.!|>~'')"

definition escape_char :: "char \<Rightarrow> string" where
  "escape_char c = (if markdown_special c then [backslash, c] else [c])"

definition escape_markdown :: "py_repr \<Rightarrow> pyval \<Rightarrow> string" where
  "escape_markdown rp v = concat (map escape_char (py_str rp v))"

text \<open>A specification to measure the escape by: how CommonMark reads inline text that opens no raw HTML,
  autolink or character reference. A backslash before an ASCII punctuation character makes it literal;
  an unescaped punctuation character is live, that is, may be syntax. Inside a code span backslashes
  are ordinary characters and the first backtick ends the span. \<open>commonmark_syntax\<close> lists the characters
  CommonMark and its tables and strikethrough give a meaning to; it is written down from the
  specification and not from the escape's class.\<close>

datatype md_tok = Literal char | LiveMark char

definition ascii_punct :: "char \<Rightarrow> bool" where
  "ascii_punct c \<longleftrightarrow> 33 \<le> cp c \<and> cp c \<le> 126 \<and> \<not> is_ascii_alnum c"

definition commonmark_syntax :: "char list" where
  "commonmark_syntax = [CHR 0x5C, CHR 0x60, CHR ''*'', CHR ''_'', CHR ''{'', CHR ''}'', CHR ''['', CHR '']'',
     CHR ''('', CHR '')'', CHR ''#'', CHR ''+'', CHR ''-'', CHR ''.'', CHR ''!'', CHR ''|'', CHR ''>'', CHR ''~'',
     CHR ''<'', CHR ''&'']"

definition md_char :: "char \<Rightarrow> md_tok" where
  "md_char c = (if ascii_punct c then LiveMark c else Literal c)"

fun md_text :: "string \<Rightarrow> md_tok list" where
  "md_text [] = []"
| "md_text [c] = [if c = backslash then Literal c else md_char c]"
| "md_text (c # d # cs) =
     (if c = backslash then (if ascii_punct d then Literal d # md_text cs else Literal c # md_text (d # cs))
      else md_char c # md_text (d # cs))"

fun tok_text :: "md_tok \<Rightarrow> char" where
  "tok_text (Literal c) = c"
| "tok_text (LiveMark c) = c"

definition code_span :: "string \<Rightarrow> string" where
  "code_span s = takeWhile (\<lambda>c. c \<noteq> CHR 0x60) s"

definition escaped_tok :: "char \<Rightarrow> md_tok" where
  "escaped_tok c = (if markdown_special c then Literal c else md_char c)"

section \<open>Numbers and titles\<close>

definition round_half_even :: "real \<Rightarrow> int" where
  "round_half_even r =
     (let f = \<lfloor>r\<rfloor>; d = r - of_int f in if d < 1 / 2 \<or> (d = 1 / 2 \<and> even f) then f else f + 1)"

definition zero_pad :: "nat \<Rightarrow> string \<Rightarrow> string" where
  "zero_pad n s = replicate (n - length s) (CHR ''0'') @ s"

text \<open>\<open>format(r, '.nf')\<close> of a finite float: the exact value rounded half to even.\<close>

definition fixed_text :: "nat \<Rightarrow> real \<Rightarrow> string" where
  "fixed_text n r =
     (let k = nat (round_half_even (\<bar>r\<bar> * 10 ^ n))
      in (if r < 0 then ''-'' else []) @ str_of_nat (k div 10 ^ n) @
         (if n = 0 then [] else ''.'' @ zero_pad n (str_of_nat (k mod 10 ^ n))))"

fun float_fixed :: "nat \<Rightarrow> pyfloat \<Rightarrow> string" where
  "float_fixed n (Fin r) = fixed_text n r"
| "float_fixed n PosInf = ''inf''"
| "float_fixed n NegInf = ''-inf''"
| "float_fixed n NaN = ''nan''"

text \<open>A string has no format code \<open>f\<close>; the other values support no format specification.\<close>

fun py_fixed :: "nat \<Rightarrow> pyval \<Rightarrow> string result" where
  "py_fixed n (PStr s) = Inl ValueError"
| "py_fixed n PNone = Inl TypeError"
| "py_fixed n (PList xs) = Inl TypeError"
| "py_fixed n (PDict d) = Inl TypeError"
| "py_fixed n (PBytes s) = Inl TypeError"
| "py_fixed n v = bind_result (py_float v) (\<lambda>f. Inr (float_fixed n f))"

definition is_cased :: "char \<Rightarrow> bool" where
  "is_cased c \<longleftrightarrow> is_lower_az c \<or> is_upper_az c \<or> cp c \<in> {170, 181, 186} \<or>
     (192 \<le> cp c \<and> cp c \<noteq> 215 \<and> cp c \<noteq> 247)"

fun title_from :: "bool \<Rightarrow> string \<Rightarrow> string" where
  "title_from inside [] = []"
| "title_from inside (c # cs) =
     (if inside then [lower_char c] else if cp c = 223 then ''Ss'' else upper_char c) @ title_from (is_cased c) cs"

definition py_title :: "string \<Rightarrow> string" where
  "py_title = title_from False"

section \<open>Timestamps and MITRE labels\<close>

text \<open>What \<open>isoparse\<close> returns, with the offset from UTC in minutes when the text has one. The year is
  printed in four digits, as the documentation of \<open>%Y\<close> has it.\<close>

record datetime =
  dt_year :: nat
  dt_month :: nat
  dt_day :: nat
  dt_hour :: nat
  dt_minute :: nat
  dt_second :: nat
  dt_offset :: "int option"

definition strftime_utc :: "datetime \<Rightarrow> string" where
  "strftime_utc dt =
     zero_pad 4 (str_of_nat (dt_year dt)) @ ''-'' @ zero_pad 2 (str_of_nat (dt_month dt)) @ ''-'' @
     zero_pad 2 (str_of_nat (dt_day dt)) @ '' '' @ zero_pad 2 (str_of_nat (dt_hour dt)) @ '':'' @
     zero_pad 2 (str_of_nat (dt_minute dt)) @ '':'' @ zero_pad 2 (str_of_nat (dt_second dt)) @ '' UTC''"

definition format_timestamp :: "(pyval \<Rightarrow> datetime option) \<Rightarrow> pyval \<Rightarrow> string" where
  "format_timestamp isoparse iso_str =
     (if \<not> truthy iso_str then ''Unknown Time''
      else (case isoparse iso_str of Some dt \<Rightarrow> strftime_utc dt | None \<Rightarrow> ''Invalid Time''))"

definition format_mitre :: "string \<Rightarrow> string \<Rightarrow> string" where
  "format_mitre tactic technique =
     (if tactic = [] \<and> technique = [] then ''Unmapped''
      else if technique = [] then tactic
      else tactic @ '' ('' @ technique @ '')'')"

section \<open>Evidence\<close>

definition inferred_terms :: "string list" where
  "inferred_terms = [''score'', ''ml_'', ''entropy'', ''confidence'', ''latency'']"

definition evidence_unknown :: "pyval \<Rightarrow> bool" where
  "evidence_unknown v \<longleftrightarrow> v = PNone \<or> py_eq v (PStr []) \<or> py_eq v (PStr ''unknown'')"

definition evidence_inferred :: "string \<Rightarrow> bool" where
  "evidence_inferred k \<longleftrightarrow> (\<exists>term\<in>set inferred_terms. sublist term (py_lower k))"

type_synonym evidence_split = "obj \<times> obj \<times> obj"

fun categorize_step :: "evidence_split \<Rightarrow> string \<times> pyval \<Rightarrow> evidence_split" where
  "categorize_step (observed, inferred, unknown) (k, v) =
     (if evidence_unknown v then (observed, inferred, dset k v unknown)
      else if evidence_inferred k then (observed, dset k v inferred, unknown)
      else (dset k v observed, inferred, unknown))"

definition categorize_evidence :: "pyval \<Rightarrow> evidence_split" where
  "categorize_evidence evidence =
     (case evidence of
        PDict d \<Rightarrow> foldl categorize_step ([], [], []) d
      | _ \<Rightarrow> ([], [], []))"

section \<open>What escaping guarantees\<close>

lemma special_is_punct: "markdown_special c \<Longrightarrow> ascii_punct c"
  by (auto simp: markdown_special_def ascii_punct_def is_ascii_alnum_def is_decimal_def is_lower_az_def
      is_upper_az_def)

lemma md_text_ordinary: "c \<noteq> backslash \<Longrightarrow> md_text (c # s) = md_char c # md_text s"
  by (cases s) simp_all

lemma md_text_escape_char: "md_text (escape_char c @ s) = escaped_tok c # md_text s"
proof (cases "markdown_special c")
  case True
  then show ?thesis using special_is_punct by (simp add: escape_char_def escaped_tok_def)
next
  case False
  then have "c \<noteq> backslash" by (auto simp: markdown_special_def)
  with False show ?thesis by (simp add: escape_char_def escaped_tok_def md_text_ordinary)
qed

lemma md_text_escaped: "md_text (concat (map escape_char s)) = map escaped_tok s"
  by (induction s) (simp_all add: md_text_escape_char)

lemma tok_text_escaped [simp]: "tok_text (escaped_tok c) = c"
  by (simp add: escaped_tok_def md_char_def)

lemma escaped_tok_live: "escaped_tok c = LiveMark d \<Longrightarrow> d = c \<and> \<not> markdown_special c"
  by (auto simp: escaped_tok_def md_char_def split: if_splits)

lemma syntax_escaped:
  "c \<in> set commonmark_syntax \<Longrightarrow> c \<noteq> CHR ''<'' \<Longrightarrow> c \<noteq> CHR ''&'' \<Longrightarrow> markdown_special c"
  unfolding commonmark_syntax_def markdown_special_def by simp

text \<open>C31. Escaped text is inert where no angle bracket opens and no ampersand stands: a value of any type
whose printed text has neither reads back in a line of running text character for character, and no
character that CommonMark gives a meaning to is live in it, so that a crafted DNS query or fingerprint
cannot begin emphasis, a bracketed link, an image, a code span, a table cell or a strikethrough. Bare
addresses that a renderer links of itself are an extension outside this reading. The two characters
excluded are the two the escape does not cover: the lemmas that follow show an autolink and a character
reference go through.\<close>

theorem escaped_text_inert:
  assumes "CHR ''<'' \<notin> set (py_str rp v)" and "CHR ''&'' \<notin> set (py_str rp v)"
  shows "map tok_text (md_text (escape_markdown rp v)) = py_str rp v \<and>
    set (md_text (escape_markdown rp v)) \<inter> LiveMark ` set commonmark_syntax = {}"
proof -
  have read: "md_text (escape_markdown rp v) = map escaped_tok (py_str rp v)"
    by (simp add: escape_markdown_def md_text_escaped)
  have "c \<notin> set commonmark_syntax" if "LiveMark c \<in> set (md_text (escape_markdown rp v))" for c
  proof -
    from that obtain d where d: "d \<in> set (py_str rp v)" "escaped_tok d = LiveMark c" by (auto simp: read)
    with assms escaped_tok_live [OF d(2)] syntax_escaped show ?thesis by blast
  qed
  then have "set (md_text (escape_markdown rp v)) \<inter> LiveMark ` set commonmark_syntax = {}" by blast
  then show ?thesis by (simp add: read comp_def)
qed

lemma escaped_text_inert_witness:
  "map tok_text (md_text (escape_markdown (\<lambda>_. []) (PStr ''[x](http://e) *`''))) = ''[x](http://e) *`''"
  using escaped_text_inert [of "\<lambda>_. []" "PStr ''[x](http://e) *`''"] by simp

text \<open>Where the escape does not reach. The opening angle bracket and the ampersand are not in its class,
  so an autolink survives and a character reference in a value is displayed as the character it names;
  the dollar sign and the colon, which Streamlit's Markdown reads as mathematics and icons, pass too; and
  inside the backticks of the incident page the backslashes are displayed.\<close>

lemma autolink_survives:
  "escape_markdown rp (PStr ''<https://evil/>'') = ''<https://evil/'' @ [backslash] @ ''>''"
  by (simp add: escape_markdown_def escape_char_def markdown_special_def)

lemma entity_survives:
  "escape_markdown rp (PStr ''&lt;script&gt;'') = ''&lt;script&gt;''"
  "escape_markdown rp (PStr ''$x$ :skull:'') = ''$x$ :skull:''"
  by (simp_all add: escape_markdown_def escape_char_def markdown_special_def)

lemma code_span_shows_backslashes:
  "code_span (escape_markdown rp (PStr ''10.0'') @ ''`'') = ''10'' @ [backslash] @ ''.0''"
  "code_span (escape_markdown rp (PStr ''a`b'') @ ''`'') = ''a'' @ [backslash]"
  by (simp_all add: escape_markdown_def escape_char_def markdown_special_def code_span_def)

section \<open>Evidence is partitioned\<close>

definition observed_entry :: "string \<times> pyval \<Rightarrow> bool" where
  "observed_entry e \<longleftrightarrow> \<not> evidence_unknown (snd e) \<and> \<not> evidence_inferred (fst e)"

definition inferred_entry :: "string \<times> pyval \<Rightarrow> bool" where
  "inferred_entry e \<longleftrightarrow> \<not> evidence_unknown (snd e) \<and> evidence_inferred (fst e)"

definition unknown_entry :: "string \<times> pyval \<Rightarrow> bool" where
  "unknown_entry e \<longleftrightarrow> evidence_unknown (snd e)"

lemma categorize_fold:
  "distinct (dkeys (xs @ d)) \<Longrightarrow>
   foldl categorize_step (filter observed_entry xs, filter inferred_entry xs, filter unknown_entry xs) d =
     (filter observed_entry (xs @ d), filter inferred_entry (xs @ d), filter unknown_entry (xs @ d))"
proof (induction d arbitrary: xs)
  case (Cons e d)
  obtain k v where e: "e = (k, v)" by (cases e)
  have fresh: "k \<notin> set (dkeys (filter P xs))" for P using Cons.prems e by auto
  have "categorize_step (filter observed_entry xs, filter inferred_entry xs, filter unknown_entry xs) e =
      (filter observed_entry (xs @ [e]), filter inferred_entry (xs @ [e]), filter unknown_entry (xs @ [e]))"
    using fresh by (simp add: e observed_entry_def inferred_entry_def unknown_entry_def dset_new)
  with Cons.IH [of "xs @ [e]"] Cons.prems show ?case by simp
qed simp

text \<open>Evidence is partitioned: every entry of an evidence dictionary is in exactly one of the three
results, each keeps the entries' order, and the observed facts hold no entry named after a score, a
confidence, an entropy, a latency or a model.\<close>

theorem evidence_partitioned:
  assumes "distinct (dkeys d)" and "categorize_evidence (PDict d) = (observed, inferred, unknown)"
  shows "mset observed + mset inferred + mset unknown = mset d \<and>
    subseq observed d \<and> subseq inferred d \<and> subseq unknown d \<and>
    list_all (\<lambda>(k, v). \<not> evidence_inferred k \<and> \<not> evidence_unknown v) observed"
proof -
  have split: "observed = filter observed_entry d" "inferred = filter inferred_entry d" "unknown = filter unknown_entry d"
    using categorize_fold [of "[]" d] assms by (simp_all add: categorize_evidence_def)
  have "mset (filter observed_entry d) + mset (filter inferred_entry d) + mset (filter unknown_entry d) = mset d"
    by (induction d) (auto simp: observed_entry_def inferred_entry_def unknown_entry_def)
  then show ?thesis by (auto simp: split list_all_iff observed_entry_def)
qed

lemma evidence_partitioned_witness:
  "mset [(''query_len'', PInt 70)] + mset [(''ML_score'', PFloat (Fin 1))] + mset [(''ja4'', PStr ''unknown'')] =
     mset [(''ML_score'', PFloat (Fin 1)), (''query_len'', PInt 70), (''ja4'', PStr ''unknown'')]"
proof -
  let ?d = "[(''ML_score'', PFloat (Fin 1)), (''query_len'', PInt 70), (''ja4'', PStr ''unknown'')]"
  have "categorize_evidence (PDict ?d) =
      ([(''query_len'', PInt 70)], [(''ML_score'', PFloat (Fin 1))], [(''ja4'', PStr ''unknown'')])"
    by code_simp
  from evidence_partitioned [OF _ this] show ?thesis by simp
qed

lemma timestamp_offset_ignored:
  "isoparse s = Some dt \<Longrightarrow> isoparse t = Some (dt\<lparr>dt_offset := z\<rparr>) \<Longrightarrow> truthy s \<Longrightarrow> truthy t \<Longrightarrow>
   format_timestamp isoparse s = format_timestamp isoparse t"
  by (simp add: format_timestamp_def strftime_utc_def)

end
