(* ===== verification/DataAccess.thy ===== *)
theory DataAccess
  imports Formatters AlertStore Enrichment
begin

text \<open>
  \<open>shared/data_access.py\<close>: the one object through which the dashboard and the terminal console see
  the system. It polls the alert API on a thread of its own, keeps the last page of alerts, and
  groups them into incidents on demand. A poll is one step of a state machine; the server is the
  function that answers a URL. The order in which Python lists a set is a parameter.
\<close>

section \<open>Configuration and start\<close>

definition default_api_url :: string where
  "default_api_url = ''http://127.0.0.1:8000/api/v1''"

text \<open>\<open>_load_config\<close>: the message of the \<open>ConfigError\<close>, or the URL and the key.\<close>

definition load_config :: "environ \<Rightarrow> string + (string \<times> string)" where
  "load_config env =
     (case (case env ''API_URL'' of
              None \<Rightarrow> Inr default_api_url
            | Some url \<Rightarrow> if prefix ''https://'' url then Inr url
                else Inl ''API_URL must use HTTPS when explicitly set'') of
        Inl e \<Rightarrow> Inl e
      | Inr api_url \<Rightarrow>
          (let api_key = getenv_or env ''TSOC_API_KEY'' [] in
           if api_key = [] then Inl ''TSOC_API_KEY not set'' else Inr (api_url, api_key)))"

record manager =
  m_alerts :: "pyval list"
  m_stats :: obj
  m_running :: bool
  m_healthy :: bool
  m_last_event :: real
  m_config_error :: "string option"
  m_api_url :: "string option"
  m_auth :: "string option"
  m_threads :: nat

definition empty_stats :: obj where
  "empty_stats = [(''total_alerts'', PInt 0), (''critical'', PInt 0), (''high'', PInt 0),
     (''medium'', PInt 0), (''low'', PInt 0)]"

definition init_state :: "environ \<Rightarrow> manager" where
  "init_state env =
     (let m = \<lparr>m_alerts = [], m_stats = empty_stats, m_running = False, m_healthy = False,
        m_last_event = 0, m_config_error = None, m_api_url = None, m_auth = None, m_threads = 0\<rparr>
      in case load_config env of
           Inl e \<Rightarrow> m\<lparr>m_config_error := Some e\<rparr>
         | Inr (url, key) \<Rightarrow> m\<lparr>m_api_url := Some url, m_auth := Some (''Bearer '' @ key)\<rparr>)"

definition start_listeners :: "manager \<Rightarrow> manager" where
  "start_listeners m =
     (if m_config_error m \<noteq> None \<and> m_config_error m \<noteq> Some [] then m
      else if m_running m then m
      else m\<lparr>m_running := True, m_threads := Suc (m_threads m)\<rparr>)"

section \<open>Polling\<close>

text \<open>One turn of the \<open>_poll_api\<close> loop. \<open>None\<close> is an exception; what was assigned before it stays.\<close>

definition endpoint :: "manager \<Rightarrow> string \<Rightarrow> string" where
  "endpoint m path = (case m_api_url m of Some url \<Rightarrow> url | None \<Rightarrow> ''None'') @ path"

definition poll_alerts :: "(string \<Rightarrow> http_reply) \<Rightarrow> real \<Rightarrow> manager \<Rightarrow> manager option" where
  "poll_alerts http now m =
     (case http (endpoint m ''/alerts?limit=100'') of
        HttpFailed \<Rightarrow> None
      | HttpBody code body \<Rightarrow>
          if code = 200 then
            (case body of
               Inl _ \<Rightarrow> None
             | Inr (PList data) \<Rightarrow> Some (m\<lparr>m_alerts := data, m_healthy := True, m_last_event := now\<rparr>)
             | Inr _ \<Rightarrow> Some m)
          else Some (m\<lparr>m_healthy := False\<rparr>))"

definition poll_stats :: "(string \<Rightarrow> http_reply) \<Rightarrow> manager \<Rightarrow> manager option" where
  "poll_stats http m =
     (case http (endpoint m ''/stats'') of
        HttpFailed \<Rightarrow> None
      | HttpBody code body \<Rightarrow>
          if code = 200 then
            (case body of
               Inl _ \<Rightarrow> None
             | Inr (PDict data) \<Rightarrow> Some (m\<lparr>m_stats := data\<rparr>)
             | Inr _ \<Rightarrow> Some m)
          else Some m)"

definition poll_once :: "(string \<Rightarrow> http_reply) \<Rightarrow> real \<Rightarrow> manager \<Rightarrow> manager" where
  "poll_once http now m =
     (case poll_alerts http now m of
        None \<Rightarrow> m\<lparr>m_healthy := False\<rparr>
      | Some m1 \<Rightarrow> (case poll_stats http m1 of None \<Rightarrow> m1\<lparr>m_healthy := False\<rparr> | Some m2 \<Rightarrow> m2))"

section \<open>Incidents\<close>

definition severity_scores :: "(string, real) pydict" where
  "severity_scores = [(''critical'', 100), (''high'', 75), (''medium'', 50), (''low'', 25)]"

record agg =
  g_id :: string
  g_created :: pyval
  g_severity :: pyval
  g_threats :: "pyval list"
  g_entities :: "pyval list"
  g_related :: "pyval list"
  g_max :: real
  g_count :: nat

record incident =
  i_id :: string
  i_created :: pyval
  i_severity :: pyval
  i_risk :: real
  i_threats :: "pyval list"
  i_entities :: "pyval list"
  i_related :: "pyval list"
  i_summary :: string
  i_status :: string
  i_tactics :: "string list"
  i_techniques :: "string list"

definition alert_source :: "obj \<Rightarrow> pyval" where
  "alert_source a = py_or (oget a ''source_ip'') (PStr ''127.0.0.1'')"

definition incident_id :: "string \<Rightarrow> string" where
  "incident_id src = ''INC-'' @ replace_all ''.'' ''-'' src"

text \<open>\<open>now\<close> is the clock's text at the first alert of each source.\<close>

definition new_agg :: "(string \<Rightarrow> string) \<Rightarrow> string \<Rightarrow> obj \<Rightarrow> agg result" where
  "new_agg now src a =
     bind_result (py_add (dget_or a ''destination_ip'' (PStr [])) [PStr src]) (\<lambda>entities.
       Inr \<lparr>g_id = incident_id src, g_created = dget_or a ''timestamp'' (PStr (now src)),
         g_severity = dget_or a ''severity'' (PStr ''low''), g_threats = [], g_entities = entities,
         g_related = [], g_max = 0, g_count = 0\<rparr>)"

definition note_truthy :: "pyval \<Rightarrow> pyval list \<Rightarrow> pyval list result" where
  "note_truthy v xs = (if truthy v then py_add v xs else Inr xs)"

definition alert_sev :: "py_repr \<Rightarrow> obj \<Rightarrow> string" where
  "alert_sev rp a = py_lower (py_str rp (dget_or a ''severity'' (PStr ''low'')))"

definition sev_points :: "string \<Rightarrow> real" where
  "sev_points sev = dget_or severity_scores sev 25"

definition raise_severity :: "string \<Rightarrow> agg \<Rightarrow> agg" where
  "raise_severity sev g =
     (let score = sev_points sev in
      if score > g_max g then g\<lparr>g_max := score, g_severity := PStr sev\<rparr> else g)"

definition agg_alert :: "py_repr \<Rightarrow> obj \<Rightarrow> agg \<Rightarrow> agg result" where
  "agg_alert rp a g =
     bind_result (note_truthy (oget a ''threat_class'') (g_threats g)) (\<lambda>threats.
     bind_result (note_truthy (oget a ''destination_ip'') (g_entities g)) (\<lambda>entities.
       Inr (raise_severity (alert_sev rp a)
         (g\<lparr>g_count := Suc (g_count g), g_threats := threats, g_entities := entities,
            g_related := (if truthy (oget a ''alert_id'') then g_related g @ [oget a ''alert_id''] else g_related g)\<rparr>))))"

text \<open>A non-object has no \<open>get\<close>; an unhashable source cannot be looked up, and only a string has the
  \<open>replace\<close> its incident id needs.\<close>

fun incident_step ::
  "py_repr \<Rightarrow> (string \<Rightarrow> string) \<Rightarrow> (string, agg) pydict \<Rightarrow> pyval \<Rightarrow> (string, agg) pydict result" where
  "incident_step rp now by_src (PDict a) =
     (case alert_source a of
        PStr src \<Rightarrow>
          bind_result (case dget by_src src of Some g \<Rightarrow> Inr g | None \<Rightarrow> new_agg now src a) (\<lambda>g.
          bind_result (agg_alert rp a g) (\<lambda>g1. Inr (dset src g1 by_src)))
      | PList _ \<Rightarrow> Inl TypeError
      | PDict _ \<Rightarrow> Inl TypeError
      | PBytes _ \<Rightarrow> Inl TypeError
      | _ \<Rightarrow> Inl AttributeError)"
| "incident_step rp now by_src _ = Inl AttributeError"

fun incidents_by_src ::
  "py_repr \<Rightarrow> (string \<Rightarrow> string) \<Rightarrow> (string, agg) pydict \<Rightarrow> pyval list \<Rightarrow> (string, agg) pydict result" where
  "incidents_by_src rp now by_src [] = Inr by_src"
| "incidents_by_src rp now by_src (a # as) =
     bind_result (incident_step rp now by_src a) (\<lambda>by_src1. incidents_by_src rp now by_src1 as)"

definition volume_bonus :: "nat \<Rightarrow> real" where
  "volume_bonus n = min 20 ((real n - 1) * 5)"

definition summary_text :: "nat \<Rightarrow> nat \<Rightarrow> string \<Rightarrow> string" where
  "summary_text n k src =
     ''Aggregated '' @ str_of_nat n @ '' alert(s) across '' @ str_of_nat k @
     '' threat class(es) involving '' @ src"

definition format_incident :: "(pyval list \<Rightarrow> pyval list) \<Rightarrow> string \<times> agg \<Rightarrow> incident" where
  "format_incident ord e =
     (case e of (src, g) \<Rightarrow>
        let risk = min 100 (g_max g + volume_bonus (g_count g));
            threats = (if g_threats g \<noteq> [] then ord (g_threats g) else [PStr ''Unclassified Threat'']);
            entities = filter truthy (ord (g_entities g))
        in \<lparr>i_id = g_id g, i_created = g_created g, i_severity = g_severity g, i_risk = risk,
            i_threats = threats, i_entities = (if entities \<noteq> [] then entities else [PStr src]),
            i_related = g_related g, i_summary = summary_text (g_count g) (length threats) src,
            i_status = ''active'', i_tactics = [''Command and Control'', ''Initial Access''],
            i_techniques = [''T1071'', ''T1132'']\<rparr>)"

definition get_incidents ::
  "py_repr \<Rightarrow> (pyval list \<Rightarrow> pyval list) \<Rightarrow> (string \<Rightarrow> string) \<Rightarrow> manager \<Rightarrow> incident list result" where
  "get_incidents rp ord now m =
     (if m_alerts m = [] then Inr [] else
      bind_result (incidents_by_src rp now [] (m_alerts m)) (\<lambda>by_src. Inr (map (format_incident ord) by_src)))"

section \<open>Alerts and status\<close>

text \<open>\<open>dict(a)\<close> of a value that is not an object is left to \<open>as_dict\<close>.\<close>

definition alert_item :: "(pyval \<Rightarrow> obj result) \<Rightarrow> (string \<Rightarrow> pyval result) \<Rightarrow> pyval \<Rightarrow> obj result" where
  "alert_item as_dict loads a =
     bind_result (case a of PDict d \<Rightarrow> Inr d | v \<Rightarrow> as_dict v) (\<lambda>item.
       Inr (case oget item ''evidence'' of
              PStr s \<Rightarrow> (case loads s of Inr v \<Rightarrow> dset ''evidence'' v item | Inl _ \<Rightarrow> item)
            | _ \<Rightarrow> item))"

definition manager_alerts ::
  "(pyval \<Rightarrow> obj result) \<Rightarrow> (string \<Rightarrow> pyval result) \<Rightarrow> manager \<Rightarrow> obj list result" where
  "manager_alerts as_dict loads m = map_result (alert_item as_dict loads) (m_alerts m)"

record manager_status =
  st_healthy :: bool
  st_last_event :: real
  st_incidents :: nat
  st_alerts :: nat
  st_stats :: obj

definition status_of :: "manager \<Rightarrow> manager_status" where
  "status_of m = \<lparr>st_healthy = m_healthy m, st_last_event = m_last_event m,
     st_incidents = length (m_alerts m), st_alerts = length (m_alerts m), st_stats = m_stats m\<rparr>"

section \<open>Grouping by source\<close>

text \<open>What the API serves: objects whose addresses and threat class are strings or null.\<close>

definition feed_alert :: "obj \<Rightarrow> bool" where
  "feed_alert a \<longleftrightarrow> (\<forall>k\<in>set [''source_ip'', ''destination_ip'', ''threat_class'']. text_or_null (oget a k))"

definition src_of :: "obj \<Rightarrow> string" where
  "src_of a = (case alert_source a of PStr s \<Rightarrow> s | _ \<Rightarrow> [])"

lemma text_or_null_cases:
  assumes "text_or_null v" obtains "v = PNone" | s where "v = PStr s"
  using assms by (cases v) (auto simp: text_or_null_def)

lemma py_eq_PNone_text: "text_or_null x \<Longrightarrow> py_eq x PNone \<longleftrightarrow> x = PNone"
  by (erule text_or_null_cases) simp_all

lemma py_add_text:
  assumes "text_or_null v" "\<forall>x\<in>set xs. text_or_null x"
  shows "py_add v xs = Inr (add_new v xs)"
  using assms(1)
proof (cases rule: text_or_null_cases)
  case 1
  have "py_in PNone xs \<longleftrightarrow> PNone \<in> set xs" using assms(2) by (auto simp: py_in_def py_eq_PNone_text)
  with 1 show ?thesis by (simp add: py_add_def hashable_def add_new_def)
qed (simp add: add_new_def)

definition note_new :: "pyval \<Rightarrow> pyval list \<Rightarrow> pyval list" where
  "note_new v xs = (if truthy v then add_new v xs else xs)"

lemma note_truthy_text: "text_or_null v \<Longrightarrow> note_truthy v xs = Inr (note_new v xs)"
  by (erule text_or_null_cases) (simp_all add: note_truthy_def note_new_def add_new_def)

lemma foldl_note_new: "foldl (\<lambda>xs a. note_new (f a) xs) xs as = foldl (\<lambda>xs v. add_new v xs) xs (filter truthy (map f as))"
  by (induction as arbitrary: xs) (simp_all add: note_new_def)

definition first_agg :: "(string \<Rightarrow> string) \<Rightarrow> obj \<Rightarrow> agg" where
  "first_agg now a = \<lparr>g_id = incident_id (src_of a), g_created = dget_or a ''timestamp'' (PStr (now (src_of a))),
     g_severity = dget_or a ''severity'' (PStr ''low''), g_threats = [],
     g_entities = uniq [PStr (src_of a), dget_or a ''destination_ip'' (PStr [])],
     g_related = [], g_max = 0, g_count = 0\<rparr>"

definition next_agg :: "py_repr \<Rightarrow> agg \<Rightarrow> obj \<Rightarrow> agg" where
  "next_agg rp g a = raise_severity (alert_sev rp a)
     (g\<lparr>g_count := Suc (g_count g), g_threats := note_new (oget a ''threat_class'') (g_threats g),
        g_entities := note_new (oget a ''destination_ip'') (g_entities g),
        g_related := (if truthy (oget a ''alert_id'') then g_related g @ [oget a ''alert_id''] else g_related g)\<rparr>)"

lemma feed_alertD:
  assumes "feed_alert a"
  shows "alert_source a = PStr (src_of a)" "text_or_null (oget a ''destination_ip'')"
    "text_or_null (oget a ''threat_class'')" "text_or_null (dget_or a ''destination_ip'' (PStr []))"
proof -
  have src: "text_or_null (oget a ''source_ip'')" and dst: "text_or_null (oget a ''destination_ip'')"
    and thr: "text_or_null (oget a ''threat_class'')" using assms by (simp_all add: feed_alert_def)
  show "alert_source a = PStr (src_of a)"
    using src by (cases rule: text_or_null_cases) (auto simp: alert_source_def src_of_def py_or_def)
  show "text_or_null (oget a ''destination_ip'')" by (fact dst)
  show "text_or_null (oget a ''threat_class'')" by (fact thr)
  show "text_or_null (dget_or a ''destination_ip'' (PStr []))"
    using dst by (auto simp: oget_def dget_or_def text_or_null_def split: option.splits)
qed

lemma new_agg_feed:
  assumes "feed_alert a"
  shows "new_agg now (src_of a) a = Inr (first_agg now a)"
proof -
  have "py_add (dget_or a ''destination_ip'' (PStr [])) [PStr (src_of a)] =
      Inr (add_new (dget_or a ''destination_ip'' (PStr [])) [PStr (src_of a)])"
    using feed_alertD(4) [OF assms] by (intro py_add_text) (simp_all add: text_or_null_def)
  then show ?thesis by (simp add: new_agg_def first_agg_def uniq_def add_new_def)
qed

lemma agg_alert_feed: "feed_alert a \<Longrightarrow> agg_alert rp a g = Inr (next_agg rp g a)"
  by (simp add: agg_alert_def next_agg_def note_truthy_text feed_alertD)

lemma incident_step_feed:
  "feed_alert a \<Longrightarrow>
   incident_step rp now ds (PDict a) = Inr (group_step src_of (first_agg now) (next_agg rp) ds a)"
  by (simp add: feed_alertD new_agg_feed agg_alert_feed group_step_def split: option.split)

lemma incidents_by_src_feed:
  "\<forall>a\<in>set as. feed_alert a \<Longrightarrow>
   incidents_by_src rp now ds (map PDict as) = Inr (foldl (group_step src_of (first_agg now) (next_agg rp)) ds as)"
  by (induction as arbitrary: ds) (simp_all add: incident_step_feed del: incident_step.simps)

text \<open>The reference: the incident of a source, computed from the list of its alerts.\<close>

definition group_incident ::
  "py_repr \<Rightarrow> (pyval list \<Rightarrow> pyval list) \<Rightarrow> (string \<Rightarrow> string) \<Rightarrow> string \<Rightarrow> obj list \<Rightarrow> incident" where
  "group_incident rp ord now src grp =
     (let sevs = map (alert_sev rp) grp; worst = Max (set (map sev_points sevs));
          classes = uniq (filter truthy (map (\<lambda>a. oget a ''threat_class'') grp));
          threats = (if classes \<noteq> [] then ord classes else [PStr ''Unclassified Threat'']);
          ends = PStr src # dget_or (hd grp) ''destination_ip'' (PStr []) #
            filter truthy (map (\<lambda>a. oget a ''destination_ip'') grp);
          entities = filter truthy (ord (uniq ends))
      in \<lparr>i_id = incident_id src, i_created = dget_or (hd grp) ''timestamp'' (PStr (now src)),
          i_severity = PStr (hd (filter (\<lambda>s. sev_points s = worst) sevs)),
          i_risk = min 100 (worst + volume_bonus (length grp)),
          i_threats = threats, i_entities = (if entities \<noteq> [] then entities else [PStr src]),
          i_related = filter truthy (map (\<lambda>a. oget a ''alert_id'') grp),
          i_summary = summary_text (length grp) (length threats) src, i_status = ''active'',
          i_tactics = [''Command and Control'', ''Initial Access''], i_techniques = [''T1071'', ''T1132'']\<rparr>)"

lemma sev_points_ge: "25 \<le> sev_points s"
  by (simp add: sev_points_def severity_scores_def)

lemma next_agg_simps [simp]:
  "g_id (next_agg rp g a) = g_id g" "g_created (next_agg rp g a) = g_created g"
  "g_count (next_agg rp g a) = Suc (g_count g)"
  "g_threats (next_agg rp g a) = note_new (oget a ''threat_class'') (g_threats g)"
  "g_entities (next_agg rp g a) = note_new (oget a ''destination_ip'') (g_entities g)"
  "g_related (next_agg rp g a) = g_related g @ filter truthy [oget a ''alert_id'']"
  "g_max (next_agg rp g a) = max (g_max g) (sev_points (alert_sev rp a))"
  "g_severity (next_agg rp g a) =
     (if sev_points (alert_sev rp a) > g_max g then PStr (alert_sev rp a) else g_severity g)"
  by (simp_all add: next_agg_def raise_severity_def Let_def)

lemma fold_agg_fields:
  "g_id (foldl (next_agg rp) g as) = g_id g"
  "g_created (foldl (next_agg rp) g as) = g_created g"
  "g_count (foldl (next_agg rp) g as) = g_count g + length as"
  "g_threats (foldl (next_agg rp) g as) = foldl (\<lambda>xs a. note_new (oget a ''threat_class'') xs) (g_threats g) as"
  "g_entities (foldl (next_agg rp) g as) = foldl (\<lambda>xs a. note_new (oget a ''destination_ip'') xs) (g_entities g) as"
  "g_related (foldl (next_agg rp) g as) = g_related g @ filter truthy (map (\<lambda>a. oget a ''alert_id'') as)"
  by (induction as arbitrary: g) simp_all

lemma fold_agg_severity:
  fixes rp
  assumes "as \<noteq> []" "g_max g = 0"
  defines "worst \<equiv> Max (set (map (\<lambda>a. sev_points (alert_sev rp a)) as))"
  shows "g_max (foldl (next_agg rp) g as) = worst \<and>
    g_severity (foldl (next_agg rp) g as) = PStr (hd (filter (\<lambda>s. sev_points s = worst) (map (alert_sev rp) as)))"
  using assms(1) unfolding worst_def
proof (induction as rule: rev_nonempty_induct)
  case (single a)
  have "0 < sev_points (alert_sev rp a)" using sev_points_ge [of "alert_sev rp a"] by simp
  then show ?case using assms(2) by simp
next
  case (snoc a as)
  let ?pt = "\<lambda>a. sev_points (alert_sev rp a)" and ?p = "sev_points (alert_sev rp a)"
  let ?M = "Max (set (map ?pt as))"
  have M: "Max (set (map ?pt (as @ [a]))) = max ?M ?p"
    using snoc.hyps by (simp add: Max_insert max.commute)
  have mem: "?M \<in> set (map ?pt as)" using snoc.hyps by (intro Max_in) simp_all
  show ?case
  proof (cases "?p > ?M")
    case True
    have "\<forall>b\<in>set as. ?pt b < ?p" using True snoc.hyps by (simp add: Max_less_iff)
    then have none: "filter (\<lambda>s. sev_points s = ?p) (map (alert_sev rp) as) = []"
      by (auto simp: filter_empty_conv)
    show ?thesis unfolding M using True snoc.IH none by (simp add: max_def)
  next
    case False
    then have "max ?M ?p = ?M" by simp
    moreover have "filter (\<lambda>s. sev_points s = ?M) (map (alert_sev rp) as) \<noteq> []"
      using mem by (auto simp: filter_empty_conv)
    ultimately show ?thesis unfolding M using False snoc.IH by simp
  qed
qed

lemma fold_add_new: "foldl (\<lambda>xs v. add_new v xs) [] ys = uniq ys"
  by (simp add: uniq_def)

lemma uniq_cons2: "foldl (\<lambda>xs v. add_new v xs) (uniq xs) ys = uniq (xs @ ys)"
  by (simp add: uniq_def)

lemma format_group:
  assumes "grp \<noteq> []" "src_of (hd grp) = src"
  shows "format_incident ord (src, foldl (next_agg rp) (first_agg now (hd grp)) grp) = group_incident rp ord now src grp"
proof -
  let ?g = "foldl (next_agg rp) (first_agg now (hd grp)) grp"
  let ?worst = "Max (set (map sev_points (map (alert_sev rp) grp)))"
  have sev: "g_max ?g = ?worst" "g_severity ?g = PStr (hd (filter (\<lambda>s. sev_points s = ?worst) (map (alert_sev rp) grp)))"
    using fold_agg_severity [OF assms(1), of "first_agg now (hd grp)" rp]
    by (simp_all add: first_agg_def image_image)
  have rest: "g_id ?g = incident_id src" "g_created ?g = dget_or (hd grp) ''timestamp'' (PStr (now src))"
      "g_count ?g = length grp" "g_threats ?g = uniq (filter truthy (map (\<lambda>a. oget a ''threat_class'') grp))"
      "g_entities ?g = uniq (PStr src # dget_or (hd grp) ''destination_ip'' (PStr []) #
         filter truthy (map (\<lambda>a. oget a ''destination_ip'') grp))"
      "g_related ?g = filter truthy (map (\<lambda>a. oget a ''alert_id'') grp)"
    using assms(2) by (simp_all add: fold_agg_fields foldl_note_new uniq_cons2 fold_add_new first_agg_def)
  show ?thesis
    unfolding format_incident_def group_incident_def Let_def prod.case sev rest by (rule refl)
qed

lemma group_nonempty: "k \<in> set (map key as) \<Longrightarrow> filter (\<lambda>a. key a = k) as \<noteq> [] \<and> key (hd (filter (\<lambda>a. key a = k) as)) = k"
proof -
  assume "k \<in> set (map key as)"
  then have "filter (\<lambda>a. key a = k) as \<noteq> []" by (auto simp: filter_empty_conv)
  then show ?thesis using hd_in_set by fastforce
qed

lemma incidents_by_grouping:
  assumes "m_alerts m = map PDict as" "\<forall>a\<in>set as. feed_alert a"
  shows "get_incidents rp ord now m =
    Inr (map (\<lambda>src. group_incident rp ord now src (filter (\<lambda>a. src_of a = src) as)) (uniq (map src_of as)))"
proof -
  have "get_incidents rp ord now m =
      Inr (map (format_incident ord) (foldl (group_step src_of (first_agg now) (next_agg rp)) [] as))"
    using assms by (simp add: get_incidents_def incidents_by_src_feed)
  also have "map (format_incident ord) (foldl (group_step src_of (first_agg now) (next_agg rp)) [] as) =
      map (\<lambda>src. group_incident rp ord now src (filter (\<lambda>a. src_of a = src) as)) (uniq (map src_of as))"
    using group_nonempty [of _ src_of as]
    by (simp add: groups_eq Let_def format_group del: set_map filter_empty_conv)
  finally show ?thesis .
qed

text \<open>C21. The dashboard's incidents are the groups of its alerts: for every page the API can serve, the
one-pass aggregation returns, for each source address in the order of its first alert, the incident
computed from the list of that source's alerts: the worst severity among them, the risk
\<open>min 100 (worst + min 20 (5 (n - 1)))\<close>, their threat classes, entities and ids.\<close>

theorem incidents_are_groups:
  assumes "m_alerts m = map PDict as" "\<forall>a\<in>set as. feed_alert a"
  shows "get_incidents rp ord now m =
    Inr (map (\<lambda>src. group_incident rp ord now src (filter (\<lambda>a. src_of a = src) as)) (uniq (map src_of as)))"
  using assms by (rule incidents_by_grouping)

definition sample_feed :: "obj list" where
  "sample_feed =
     [[(''alert_id'', PStr ''A1''), (''source_ip'', PStr ''10.0.0.5''), (''severity'', PStr ''high'')],
      [(''alert_id'', PStr ''A2''), (''source_ip'', PNone), (''severity'', PStr ''LOW'')],
      [(''alert_id'', PStr ''A3''), (''source_ip'', PStr ''10.0.0.5''), (''severity'', PStr ''CRITICAL'')]]"

definition sample_manager :: manager where
  "sample_manager = (init_state (\<lambda>_. None))\<lparr>m_alerts := map PDict sample_feed\<rparr>"

lemma sample_feed_ok: "\<forall>a\<in>set sample_feed. feed_alert a"
  by (simp add: sample_feed_def feed_alert_def text_or_null_def)

lemma sample_manager_alerts: "m_alerts sample_manager = map PDict sample_feed"
  by (simp add: sample_manager_def)

lemma sample_sources: "uniq (map src_of sample_feed) = [''10.0.0.5'', ''127.0.0.1'']"
  by (simp add: sample_feed_def src_of_def alert_source_def py_or_def uniq_def add_new_def)

lemma incidents_are_groups_witness:
  "get_incidents (\<lambda>_. []) id (\<lambda>_. []) sample_manager =
     Inr (map (\<lambda>src. group_incident (\<lambda>_. []) id (\<lambda>_. []) src (filter (\<lambda>a. src_of a = src) sample_feed))
       [''10.0.0.5'', ''127.0.0.1''])"
proof -
  show ?thesis using incidents_are_groups [OF sample_manager_alerts sample_feed_ok] by (simp add: sample_sources)
qed

section \<open>What the incidents account for\<close>

lemma group_incident_related: "i_related (group_incident rp ord now src grp) = filter truthy (map (\<lambda>a. oget a ''alert_id'') grp)"
  by (simp add: group_incident_def Let_def)

lemma group_incident_risk:
  assumes "grp \<noteq> []"
  shows "25 \<le> i_risk (group_incident rp ord now src grp)" "i_risk (group_incident rp ord now src grp) \<le> 100"
proof -
  let ?worst = "Max (set (map sev_points (map (alert_sev rp) grp)))"
  have risk: "i_risk (group_incident rp ord now src grp) = min 100 (?worst + volume_bonus (length grp))"
    by (simp add: group_incident_def Let_def image_image)
  have "?worst \<in> set (map sev_points (map (alert_sev rp) grp))" using assms by (intro Max_in) simp_all
  then have "25 \<le> ?worst" using sev_points_ge by auto
  moreover have "0 \<le> volume_bonus (length grp)" using assms by (cases grp) (simp_all add: volume_bonus_def)
  ultimately show "25 \<le> i_risk (group_incident rp ord now src grp)" unfolding risk by simp
  show "i_risk (group_incident rp ord now src grp) \<le> 100" unfolding risk by simp
qed

lemma concat_filter_map: "filter P (map f (concat xss)) = concat (map (\<lambda>xs. filter P (map f xs)) xss)"
  by (induction xss) simp_all

lemma get_incidents_related:
  assumes "m_alerts m = map PDict as" "\<forall>a\<in>set as. feed_alert a" "get_incidents rp ord now m = Inr incs"
  shows "mset (concat (map i_related incs)) = mset (filter truthy (map (\<lambda>a. oget a ''alert_id'') as))"
proof -
  let ?h = "\<lambda>src. filter (\<lambda>a. src_of a = src) as" and ?srcs = "uniq (map src_of as)"
  let ?ids = "\<lambda>xs. filter truthy (map (\<lambda>a. oget a ''alert_id'') xs)"
  have incs: "incs = map (\<lambda>src. group_incident rp ord now src (?h src)) ?srcs"
    using assms(3) unfolding incidents_by_grouping [OF assms(1,2)] sum.inject by (rule sym)
  have "map i_related incs = map ?ids (map ?h ?srcs)"
    unfolding incs map_map comp_def group_incident_related by (rule refl)
  then have "concat (map i_related incs) = ?ids (concat (map ?h ?srcs))"
    by (simp only: concat_filter_map)
  moreover have "mset (concat (map ?h ?srcs)) = mset as"
    by (rule concat_groups_mset) simp_all
  then have "mset (?ids (concat (map ?h ?srcs))) = mset (?ids as)" unfolding mset_filter mset_map by simp
  ultimately show ?thesis by (simp only:)
qed

text \<open>No alert is lost or counted twice on the way to the analyst: over every page the API can serve,
the incidents together list each alert id exactly as often as the page does, and every incident's risk
is between 25 and 100.\<close>

theorem incidents_account_for_alerts:
  assumes "m_alerts m = map PDict as" "\<forall>a\<in>set as. feed_alert a"
  shows "\<exists>incs. get_incidents rp ord now m = Inr incs \<and>
    mset (concat (map i_related incs)) = mset (filter truthy (map (\<lambda>a. oget a ''alert_id'') as)) \<and>
    list_all (\<lambda>i. 25 \<le> i_risk i \<and> i_risk i \<le> 100) incs"
proof -
  note incs = incidents_by_grouping [OF assms, of rp ord now]
  have "list_all (\<lambda>i. 25 \<le> i_risk i \<and> i_risk i \<le> 100)
      (map (\<lambda>src. group_incident rp ord now src (filter (\<lambda>a. src_of a = src) as)) (uniq (map src_of as)))"
    using group_nonempty [of _ src_of as] group_incident_risk by (auto simp: list_all_iff)
  with incs get_incidents_related [OF assms incs] show ?thesis by blast
qed

lemma incidents_account_for_alerts_witness:
  "\<exists>incs. get_incidents (\<lambda>_. []) id (\<lambda>_. []) sample_manager = Inr incs \<and>
    mset (concat (map i_related incs)) = {#PStr ''A1'', PStr ''A2'', PStr ''A3''#} \<and>
    list_all (\<lambda>i. 25 \<le> i_risk i \<and> i_risk i \<le> 100) incs"
  using incidents_account_for_alerts [OF sample_manager_alerts sample_feed_ok, of "\<lambda>_. []" id "\<lambda>_. []"]
  by (simp add: sample_feed_def)

text \<open>Incident ids: the dots of a source become dashes, so two sources can only share an id when one
  of them has a dash of its own.\<close>

lemma incident_id_inj:
  assumes "CHR ''-'' \<notin> set s" "CHR ''-'' \<notin> set t" "incident_id s = incident_id t"
  shows "s = t"
proof -
  have "map (\<lambda>c. if c = CHR ''.'' then CHR ''-'' else c) s = map (\<lambda>c. if c = CHR ''.'' then CHR ''-'' else c) t"
    using assms(3) by (simp add: incident_id_def replace_all_char)
  moreover have "inj_on (\<lambda>c. if c = CHR ''.'' then CHR ''-'' else c) (set s \<union> set t)"
    using assms(1,2) by (auto simp: inj_on_def)
  ultimately show ?thesis by (metis inj_on_map_eq_map)
qed

lemma incident_ids_collide: "incident_id ''fe80::1%a.b'' = incident_id ''fe80::1%a-b''"
  by (simp add: incident_id_def replace_all_char)

lemma group_ids:
  "map i_id (map (\<lambda>src. group_incident rp ord now src (h src)) srcs) = map incident_id srcs"
  by (simp add: group_incident_def Let_def)

lemma incident_ids_distinct:
  assumes "m_alerts m = map PDict as" "\<forall>a\<in>set as. feed_alert a \<and> CHR ''-'' \<notin> set (src_of a)"
    and "get_incidents rp ord now m = Inr incs"
  shows "distinct (map i_id incs)"
proof -
  have "incs = map (\<lambda>src. group_incident rp ord now src (filter (\<lambda>a. src_of a = src) as)) (uniq (map src_of as))"
    using assms incidents_by_grouping [of m as rp ord now] by simp
  then have "map i_id incs = map incident_id (uniq (map src_of as))" by (simp only: group_ids)
  moreover have "inj_on incident_id (set (uniq (map src_of as)))"
    using assms(2) incident_id_inj by (auto simp: inj_on_def)
  ultimately show ?thesis by (simp add: distinct_map)
qed

section \<open>The poller\<close>

datatype manager_event = Start | Poll "string \<Rightarrow> http_reply" real

fun manager_step :: "manager \<Rightarrow> manager_event \<Rightarrow> manager" where
  "manager_step m Start = start_listeners m"
| "manager_step m (Poll http now) = (if m_running m then poll_once http now m else m)"

text \<open>The requests of a step: the URL and the authorization header of each.\<close>

fun step_requests :: "manager \<Rightarrow> manager_event \<Rightarrow> (string \<times> string option) list" where
  "step_requests m Start = []"
| "step_requests m (Poll http now) =
     (if m_running m then
        (endpoint m ''/alerts?limit=100'', m_auth m) #
        (case poll_alerts http now m of None \<Rightarrow> [] | Some m1 \<Rightarrow> [(endpoint m1 ''/stats'', m_auth m1)])
      else [])"

lemma poll_alerts_keeps:
  "poll_alerts http now m = Some m1 \<Longrightarrow>
   m_api_url m1 = m_api_url m \<and> m_auth m1 = m_auth m \<and> m_config_error m1 = m_config_error m \<and>
   m_running m1 = m_running m \<and> m_threads m1 = m_threads m"
  by (auto simp: poll_alerts_def split: http_reply.splits if_splits sum.splits pyval.splits)

lemma poll_stats_keeps:
  "poll_stats http m = Some m1 \<Longrightarrow>
   m_api_url m1 = m_api_url m \<and> m_auth m1 = m_auth m \<and> m_config_error m1 = m_config_error m \<and>
   m_running m1 = m_running m \<and> m_threads m1 = m_threads m \<and> m_alerts m1 = m_alerts m \<and> m_healthy m1 = m_healthy m"
  by (auto simp: poll_stats_def split: http_reply.splits if_splits sum.splits pyval.splits)

lemma poll_once_keeps:
  "m_api_url (poll_once http now m) = m_api_url m \<and> m_auth (poll_once http now m) = m_auth m \<and>
   m_config_error (poll_once http now m) = m_config_error m \<and> m_running (poll_once http now m) = m_running m \<and>
   m_threads (poll_once http now m) = m_threads m"
  using poll_alerts_keeps [of http now m] poll_stats_keeps [of http]
  by (auto simp: poll_once_def split: option.splits)

definition manager_ok :: "environ \<Rightarrow> manager \<Rightarrow> bool" where
  "manager_ok env m \<longleftrightarrow>
     m_api_url m = m_api_url (init_state env) \<and> m_auth m = m_auth (init_state env) \<and>
     m_config_error m = m_config_error (init_state env) \<and>
     (m_running m \<longrightarrow> m_config_error m = None) \<and> m_threads m = (if m_running m then 1 else 0)"

lemma config_error_nonempty: "m_config_error (init_state env) \<noteq> Some []"
  by (auto simp: init_state_def load_config_def Let_def split: sum.splits option.splits if_splits)

lemma manager_ok_init: "manager_ok env (init_state env)"
  by (simp add: manager_ok_def init_state_def Let_def split: sum.splits)

lemma manager_ok_step:
  assumes "manager_ok env m" shows "manager_ok env (manager_step m ev)"
proof (cases ev)
  case Start
  with assms config_error_nonempty [of env] show ?thesis
    by (auto simp: manager_ok_def start_listeners_def)
next
  case (Poll http now)
  with assms poll_once_keeps [of http now m] show ?thesis by (auto simp: manager_ok_def)
qed

interpretation poller: machine manager_step "manager_ok env" for env
  by unfold_locales (rule manager_ok_step)

lemma init_url_safe:
  assumes "m_config_error (init_state env) = None"
  shows "\<exists>url key. m_api_url (init_state env) = Some url \<and> (prefix ''https://'' url \<or> url = default_api_url) \<and>
    env ''TSOC_API_KEY'' = Some key \<and> key \<noteq> [] \<and> m_auth (init_state env) = Some (''Bearer '' @ key)"
  using assms by (auto simp: init_state_def load_config_def getenv_or_def Let_def split: sum.splits option.splits if_splits)

text \<open>C22. The API key leaves the process only over TLS or to the loopback default. Whatever the
environment, the callers of \<open>start_listeners\<close> and the server do, every request the poller makes carries
the configured, non-empty key and goes to an \<open>https://\<close> URL or to 127.0.0.1; without a valid
configuration no request is made at all, and at most one polling thread ever runs. A request here is a
call of \<open>session.get\<close>; the requests that \<open>requests.Session\<close> adds on a redirect are that library's and are
not modelled.\<close>

theorem api_key_confined:
  assumes "(url, auth) \<in> set (step_requests (foldl manager_step (init_state env) evs) ev)"
  shows "(prefix ''https://'' url \<or> prefix ''http://127.0.0.1:8000/'' url) \<and>
    (\<exists>key. env ''TSOC_API_KEY'' = Some key \<and> key \<noteq> [] \<and> auth = Some (''Bearer '' @ key)) \<and>
    m_threads (foldl manager_step (init_state env) evs) = 1"
proof -
  let ?m = "foldl manager_step (init_state env) evs"
  have ok: "manager_ok env ?m" by (rule poller.run_inv) (rule manager_ok_init)
  obtain http now where ev: "ev = Poll http now" using assms by (cases ev) simp_all
  with assms have run: "m_running ?m" by (auto split: if_splits)
  with ok have "m_config_error (init_state env) = None" unfolding manager_ok_def by metis
  from init_url_safe [OF this] obtain base key where base: "m_api_url (init_state env) = Some base"
      "prefix ''https://'' base \<or> base = default_api_url"
      and key: "env ''TSOC_API_KEY'' = Some key" "key \<noteq> []" "m_auth (init_state env) = Some (''Bearer '' @ key)"
    by blast
  have m: "m_api_url ?m = Some base" "m_auth ?m = Some (''Bearer '' @ key)" "m_threads ?m = 1"
    using ok run base(1) key(3) by (simp_all add: manager_ok_def)
  have "\<exists>p. url = base @ p" "auth = Some (''Bearer '' @ key)"
    using assms run m poll_alerts_keeps [of http now ?m]
    by (auto simp: ev endpoint_def split: option.splits)
  then show ?thesis using base(2) key m(3) by (auto simp: default_api_url_def prefix_def)
qed

lemma api_key_confined_witness:
  "(''https://tsoc/alerts?limit=100'', Some ''Bearer k'') \<in>
     set (step_requests (foldl manager_step (init_state ([''API_URL'' \<mapsto> ''https://tsoc'', ''TSOC_API_KEY'' \<mapsto> ''k''])) [Start])
       (Poll (\<lambda>_. HttpFailed) 1)) \<and> prefix ''https://'' ''https://tsoc/alerts?limit=100''"
proof -
  have "(''https://tsoc/alerts?limit=100'', Some ''Bearer k'') \<in>
     set (step_requests (foldl manager_step (init_state ([''API_URL'' \<mapsto> ''https://tsoc'', ''TSOC_API_KEY'' \<mapsto> ''k''])) [Start])
       (Poll (\<lambda>_. HttpFailed) 1))" (is ?m)
    by (simp add: init_state_def load_config_def getenv_or_def start_listeners_def endpoint_def)
  with api_key_confined [OF this] show ?thesis by simp
qed

definition page_of :: "http_reply \<Rightarrow> pyval list option" where
  "page_of r =
     (case r of
        HttpFailed \<Rightarrow> None
      | HttpBody code body \<Rightarrow>
          if code = 200 then (case body of Inr (PList data) \<Rightarrow> Some data | _ \<Rightarrow> None) else None)"

definition raises :: "http_reply \<Rightarrow> bool" where
  "raises r \<longleftrightarrow> r = HttpFailed \<or> (\<exists>e. r = HttpBody 200 (Inl e))"

lemma http_reply_cases:
  obtains "r = HttpFailed" | code body where "r = HttpBody code body" "code \<noteq> 200"
    | e where "r = HttpBody 200 (Inl e)" | xs where "r = HttpBody 200 (Inr (PList xs))"
    | v where "r = HttpBody 200 (Inr v)" "\<not> is_list v"
proof (cases r)
  case (HttpBody code body)
  show ?thesis
  proof (cases body)
    case (Inr v)
    with HttpBody that(2,4,5) show ?thesis by (cases v; cases "code = 200") auto
  qed (use HttpBody that in auto)
qed (use that in auto)

lemma poll_alerts_None: "poll_alerts http now m = None \<longleftrightarrow> raises (http (endpoint m ''/alerts?limit=100''))"
  by (cases rule: http_reply_cases [of "http (endpoint m ''/alerts?limit=100'')"])
    (auto simp: poll_alerts_def raises_def split: pyval.split)

lemma poll_stats_None: "poll_stats http m = None \<longleftrightarrow> raises (http (endpoint m ''/stats''))"
  by (cases rule: http_reply_cases [of "http (endpoint m ''/stats'')"])
    (auto simp: poll_stats_def raises_def split: pyval.split)

lemma poll_alerts_Some:
  assumes "poll_alerts http now m = Some m1" and r: "http (endpoint m ''/alerts?limit=100'') = r"
  shows "(m_healthy m1 \<longleftrightarrow> (\<exists>v. r = HttpBody 200 (Inr v) \<and> (is_list v \<or> m_healthy m))) \<and>
    m_alerts m1 = (case page_of r of None \<Rightarrow> m_alerts m | Some data \<Rightarrow> data)"
  using assms(1) unfolding poll_alerts_def r
proof (cases rule: http_reply_cases [of r])
  case (5 v)
  assume "(case r of HttpFailed \<Rightarrow> None
    | HttpBody code body \<Rightarrow> if code = 200 then (case body of Inl _ \<Rightarrow> None
        | Inr (PList data) \<Rightarrow> Some (m\<lparr>m_alerts := data, m_healthy := True, m_last_event := now\<rparr>) | Inr _ \<Rightarrow> Some m)
      else Some (m\<lparr>m_healthy := False\<rparr>)) = Some m1"
  with 5 have "m1 = m" by (cases v) simp_all
  with 5 show ?thesis by (cases v) (simp_all add: page_of_def)
qed (auto simp: page_of_def)

lemma poll_once_parts:
  assumes "poll_alerts http now m = Some m1"
  shows "m_healthy (poll_once http now m) \<longleftrightarrow> \<not> raises (http (endpoint m ''/stats'')) \<and> m_healthy m1"
    and "m_alerts (poll_once http now m) = m_alerts m1"
proof -
  have url: "endpoint m1 p = endpoint m p" for p using poll_alerts_keeps [OF assms] by (simp add: endpoint_def)
  show "m_healthy (poll_once http now m) \<longleftrightarrow> \<not> raises (http (endpoint m ''/stats'')) \<and> m_healthy m1"
    using poll_stats_None [of http m1] poll_stats_keeps [of http m1]
    by (cases "poll_stats http m1") (simp_all add: poll_once_def assms url)
  show "m_alerts (poll_once http now m) = m_alerts m1"
    using poll_stats_keeps [of http m1] by (cases "poll_stats http m1") (simp_all add: poll_once_def assms)
qed

text \<open>What a poll does to the dashboard's health light and to its alerts, exactly: the light is on after
a poll when neither request raised, the alert request was answered 200, and its body was a list or
the light was already on; the alerts are replaced when and only when that body was a list, so a
failing backend leaves the last known page on the screen.\<close>

theorem poll_outcome:
  "(m_healthy (poll_once http now m) \<longleftrightarrow>
      \<not> raises (http (endpoint m ''/stats'')) \<and>
      (\<exists>v. http (endpoint m ''/alerts?limit=100'') = HttpBody 200 (Inr v) \<and> (is_list v \<or> m_healthy m))) \<and>
   m_alerts (poll_once http now m) =
     (case page_of (http (endpoint m ''/alerts?limit=100'')) of None \<Rightarrow> m_alerts m | Some data \<Rightarrow> data)"
proof (cases "poll_alerts http now m")
  case None
  define r where "r = http (endpoint m ''/alerts?limit=100'')"
  have "raises r" using None by (simp only: poll_alerts_None r_def)
  then have "\<nexists>v. r = HttpBody 200 (Inr v) \<and> (is_list v \<or> m_healthy m)" "page_of r = None"
    by (auto simp: raises_def page_of_def)
  then show ?thesis by (simp add: poll_once_def None flip: r_def)
next
  case (Some m1)
  from poll_alerts_Some [OF Some refl] poll_once_parts [OF Some] show ?thesis by (simp only:)
qed

text \<open>A 200 answer whose body is no list leaves a stale light on.\<close>

lemma stale_health:
  assumes "m_healthy m" "http (endpoint m ''/alerts?limit=100'') = HttpBody 200 (Inr (PDict [(''detail'', PStr ''busy'')]))"
    and "http (endpoint m ''/stats'') = HttpBody 500 (Inr PNone)"
  shows "m_healthy (poll_once http now m)"
  using assms poll_outcome [of http now m] by (simp add: raises_def)

text \<open>The number of alerts is reported as the number of incidents.\<close>

lemma status_counts_alerts:
  assumes "get_incidents rp ord now sample_manager = Inr incs"
  shows "length incs = 2 \<and> st_incidents (status_of sample_manager) = 3"
proof -
  have "incs = map (\<lambda>src. group_incident rp ord now src (filter (\<lambda>a. src_of a = src) sample_feed)) (uniq (map src_of sample_feed))"
    using assms unfolding incidents_by_grouping [OF sample_manager_alerts sample_feed_ok] sum.inject by (rule sym)
  then have "length incs = length (uniq (map src_of sample_feed))" by (simp only: length_map)
  then show ?thesis by (simp add: sample_sources status_of_def sample_manager_alerts) (simp add: sample_feed_def)
qed

section \<open>From the table to the analyst\<close>

lemma alert_response_oget: "k \<in> set response_fields \<Longrightarrow> oget (alert_response r) k = oget (snd r) k"
proof -
  assume k: "k \<in> set response_fields"
  then have "k \<noteq> ''id''" by (auto simp: response_fields_def optional_strings_def)
  with k show ?thesis
    by (simp add: alert_response_def oget_def dget_or_def map_of_map_restrict restrict_map_def)
qed

lemma feed_fields: "set [''source_ip'', ''destination_ip'', ''threat_class''] \<subseteq> set response_fields - {''confidence_score''}"
  by (simp add: response_fields_def optional_strings_def)

lemma rows_typed_feed:
  assumes "rows_typed db" "r \<in> set (db_rows db)" shows "feed_alert (alert_response r)"
  unfolding feed_alert_def
proof
  fix k assume k: "k \<in> set [''source_ip'', ''destination_ip'', ''threat_class'']"
  with feed_fields have f: "k \<in> set response_fields - {''confidence_score''}" by blast
  then have "oget (alert_response r) k = oget (snd r) k" by (intro alert_response_oget) blast
  moreover have "text_or_null (oget (snd r) k)" using assms f unfolding rows_typed_def by blast
  ultimately show "text_or_null (oget (alert_response r) k)" by simp
qed

lemma payloads_rows_typed:
  assumes "rows_typed db" "\<forall>d\<in>set ds. \<exists>raw. alert_payload as_float raw = Some d"
  shows "rows_typed (foldl (\<lambda>db d. upsert_alert d db) db ds)"
  using assms
proof (induction ds arbitrary: db)
  case (Cons d ds)
  from Cons.prems(2) obtain raw where "alert_payload as_float raw = Some d" by auto
  with Cons.prems(1) have "rows_typed (upsert_alert d db)" by (rule upsert_rows_typed)
  with Cons.IH Cons.prems(2) show ?case by simp
qed simp

text \<open>C16. What was stored reaches the analyst. Take any table that validated payloads wrote, and the page of
it the API serves to the poller: after the poll the incidents are computed without an exception, and
together they list the alert ids of the page, each exactly once per row.\<close>

theorem dashboard_shows_page:
  assumes "\<forall>d\<in>set ds. \<exists>raw. alert_payload as_float raw = Some d"
    and "get_alerts 0 100 (foldl (\<lambda>db d. upsert_alert d db) \<lparr>db_rows = [], db_next = 1\<rparr> ds) = Inr page"
    and "http (endpoint m ''/alerts?limit=100'') = HttpBody 200 (Inr (PList (map (\<lambda>r. PDict (alert_response r)) page)))"
  shows "\<exists>incs. get_incidents rp ord now (poll_once http time m) = Inr incs \<and>
    mset (concat (map i_related incs)) = mset (filter truthy (map row_alert_id page))"
proof -
  let ?db = "foldl (\<lambda>db d. upsert_alert d db) \<lparr>db_rows = [], db_next = 1\<rparr> ds"
  have "rows_typed ?db" using assms(1) by (intro payloads_rows_typed) (simp_all add: rows_typed_def)
  moreover have "set page \<subseteq> set (db_rows ?db)"
    using assms(2) by (auto simp: get_alerts_def dest: in_set_takeD)
  ultimately have feed: "\<forall>a\<in>set (map alert_response page). feed_alert a" using rows_typed_feed by fastforce
  have alerts: "m_alerts (poll_once http time m) = map PDict (map alert_response page)"
    using conjunct2 [OF poll_outcome [of http time m]] unfolding assms(3) by (simp add: page_of_def)
  have ids: "map (\<lambda>a. oget a ''alert_id'') (map alert_response page) = map row_alert_id page"
    by (simp add: alert_response_oget response_fields_def row_alert_id_def)
  note incs = incidents_by_grouping [OF alerts feed, of rp ord now]
  from get_incidents_related [OF alerts feed incs] incs show ?thesis unfolding ids by blast
qed

lemma dashboard_shows_page_witness:
  "\<exists>d incs. alert_payload (\<lambda>_. Some (Fin 1)) sample_payload = Some d \<and>
    get_incidents (\<lambda>_. []) id (\<lambda>_. []) (poll_once (\<lambda>_. HttpBody 200 (Inr (PList [PDict (alert_response (1, d))]))) 5
      (init_state (\<lambda>_. None))) = Inr incs \<and> mset (concat (map i_related incs)) = {#PStr ''A''#}"
proof -
  obtain d where d: "alert_payload (\<lambda>_. Some (Fin 1)) sample_payload = Some d"
    by (simp add: alert_payload_def payload_fields_def optional_strings_def field_value_def required_strings_def
        sample_payload_def)
  have "Some (oget d ''alert_id'') = Some (PStr ''A'')"
    using alert_payload_fields(2) [OF d, of "''alert_id''"]
    by (simp add: payload_fields_def field_value_def required_strings_def sample_payload_def)
  then have row: "row_alert_id (1, d) = PStr ''A''" by (simp add: row_alert_id_def)
  have page: "get_alerts 0 100 (foldl (\<lambda>db d. upsert_alert d db) \<lparr>db_rows = [], db_next = 1\<rparr> [d]) = Inr [(1, d)]"
    by (simp add: get_alerts_def upsert_alert_def)
  have "\<forall>d\<in>set [d]. \<exists>raw. alert_payload (\<lambda>_. Some (Fin 1)) raw = Some d" using d by auto
  from dashboard_shows_page [OF this page, of "\<lambda>_. HttpBody 200 (Inr (PList [PDict (alert_response (1, d))]))"
      "init_state (\<lambda>_. None)" "\<lambda>_. []" id "\<lambda>_. []" 5] d row
  show ?thesis by (simp only: list.map refl) auto
qed

end
