(* ===== verification/Console.thy ===== *)
theory Console
  imports DataAccess
begin

text \<open>
  \<open>terminal/tsoc_console.py\<close>: the live queue of incidents and the detail pane of the terminal
  console, as a state machine whose events are the timer, the key bindings and the selection of a
  row. \<open>rich.markup.escape\<close> is the parameter \<open>esc\<close>; a \<open>DataTable\<close> refuses a key it already has. Each
  event carries the stream manager it sees, which the polling thread changes between events.
\<close>

section \<open>State\<close>

record queue_row =
  q_sev :: string
  q_risk :: string
  q_threat :: string
  q_target :: string
  q_key :: string

record console =
  c_live :: bool
  c_sub_title :: string
  c_queue :: "queue_row list"
  c_detail :: string
  c_notes :: "string list"

definition mounted_console :: console where
  "mounted_console = \<lparr>c_live = True, c_sub_title = ''[LIVE] | DIODE: ONE-WAY | SENSOR: HEALTHY'', c_queue = [],
     c_detail = ''Select an incident to view details.'', c_notes = []\<rparr>"

definition action_toggle_pause :: "console \<Rightarrow> console" where
  "action_toggle_pause c =
     (let live = \<not> c_live c
      in c\<lparr>c_live := live, c_sub_title := (if live then ''[LIVE] | DIODE: ONE-WAY'' else ''[PAUSED]'')\<rparr>)"

definition notify :: "string \<Rightarrow> console \<Rightarrow> console" where
  "notify s c = c\<lparr>c_notes := c_notes c @ [s]\<rparr>"

definition action_acknowledge :: "console \<Rightarrow> console" where
  "action_acknowledge = notify ''Action 'Acknowledge' is simulated (Read-Only Mode active).''"

section \<open>The queue\<close>

text \<open>The libraries and the clock an event handler sees.\<close>

record view_libs =
  v_repr :: py_repr
  v_set_order :: "pyval list \<Rightarrow> pyval list"
  v_line_order :: "string list \<Rightarrow> string list"
  v_now :: "string \<Rightarrow> string"
  v_escape :: "string \<Rightarrow> string"
  v_isoparse :: "pyval \<Rightarrow> datetime option"
  v_as_dict :: "pyval \<Rightarrow> obj result"
  v_loads :: "string \<Rightarrow> pyval result"

definition first_of :: "pyval list \<Rightarrow> pyval result" where
  "first_of xs = (case xs of [] \<Rightarrow> Inl (OtherError ''IndexError'') | x # _ \<Rightarrow> Inr x)"

definition upper_of :: "pyval \<Rightarrow> string result" where
  "upper_of v = (case v of PStr s \<Rightarrow> Inr (py_upper s) | _ \<Rightarrow> Inl AttributeError)"

definition shorten_target :: "string \<Rightarrow> string" where
  "shorten_target target = (if length target > 15 then take 12 target @ ''...'' else target)"

definition queue_row_of :: "view_libs \<Rightarrow> incident \<Rightarrow> queue_row result" where
  "queue_row_of V inc =
     bind_result (upper_of (i_severity inc)) (\<lambda>sev.
     bind_result (first_of (i_threats inc)) (\<lambda>threat.
     bind_result (first_of (i_entities inc)) (\<lambda>target.
       Inr \<lparr>q_sev = ''['' @ py_lower sev @ '']'' @ sev @ ''[/]'', q_risk = fixed_text 0 (i_risk inc),
         q_threat = v_escape V (py_str (v_repr V) threat),
         q_target = shorten_target (v_escape V (py_str (v_repr V) target)), q_key = i_id inc\<rparr>)))"

text \<open>Rows are added one by one: what was added before an exception stays in the table.\<close>

fun add_rows :: "view_libs \<Rightarrow> incident list \<Rightarrow> queue_row list \<Rightarrow> exc option \<times> queue_row list" where
  "add_rows V [] rows = (None, rows)"
| "add_rows V (inc # incs) rows =
     (case queue_row_of V inc of
        Inl e \<Rightarrow> (Some e, rows)
      | Inr row \<Rightarrow>
          if q_key row \<in> q_key ` set rows then (Some (OtherError ''DuplicateKey''), rows)
          else add_rows V incs (rows @ [row]))"

definition by_risk :: "incident list \<Rightarrow> incident list" where
  "by_risk = sort_key (\<lambda>i. - i_risk i)"

definition update_queue :: "view_libs \<Rightarrow> manager \<Rightarrow> bool \<Rightarrow> console \<Rightarrow> exc option \<times> console" where
  "update_queue V m force c =
     (if \<not> c_live c \<and> \<not> force then (None, c)
      else
        (case get_incidents (v_repr V) (v_set_order V) (v_now V) m of
           Inl e \<Rightarrow> (Some e, c)
         | Inr incidents \<Rightarrow>
             (case add_rows V (by_risk incidents) [] of (err, rows) \<Rightarrow> (err, c\<lparr>c_queue := rows\<rparr>))))"

section \<open>The detail pane\<close>

text \<open>\<open>a.get('confidence_score', 0) * 100\<close>: a string or a list is repeated, which no format accepts.\<close>

fun times_100 :: "pyval \<Rightarrow> pyval result" where
  "times_100 PNone = Inl TypeError"
| "times_100 (PDict d) = Inl TypeError"
| "times_100 (PBool b) = Inr (PInt (if b then 100 else 0))"
| "times_100 (PInt i) = Inr (PInt (i * 100))"
| "times_100 (PFloat (Fin r)) = Inr (PFloat (to_float (r * 100)))"
| "times_100 v = Inr v"

text \<open>\<open>escape\<close> accepts a string only.\<close>

definition escape_value :: "view_libs \<Rightarrow> pyval \<Rightarrow> string result" where
  "escape_value V v = (case v of PStr s \<Rightarrow> Inr (v_escape V s) | _ \<Rightarrow> Inl TypeError)"

datatype fact = Observed string | Inferred string

definition evidence_fact :: "view_libs \<Rightarrow> pyval \<Rightarrow> string \<times> pyval \<Rightarrow> fact result" where
  "evidence_fact V t e =
     (case e of (k, v) \<Rightarrow>
        if k = ''inference_latency_ms'' then
          bind_result (py_fixed 1 v) (\<lambda>ms.
            Inr (Inferred (''- Model inference took '' @ ms @ ''ms for '' @ py_str (v_repr V) t)))
        else if k = ''shannon_entropy'' then
          bind_result (py_fixed 2 v) (\<lambda>h. Inr (Observed (''- DNS query Shannon Entropy measured at '' @ h)))
        else Inr (Observed (''- '' @ v_escape V (py_title (replace_all ''_'' '' '' k)) @ '': '' @
               v_escape V (py_str (v_repr V) v))))"

definition model_fact :: "view_libs \<Rightarrow> pyval \<Rightarrow> obj \<Rightarrow> fact list result" where
  "model_fact V t a =
     (if truthy (oget a ''model_name'') then
        bind_result (escape_value V t) (\<lambda>threat.
        bind_result (times_100 (dget_or a ''confidence_score'' (PInt 0))) (\<lambda>c.
        bind_result (py_fixed 0 c) (\<lambda>conf.
          Inr [Inferred (''- '' @ v_escape V (py_str (v_repr V) (oget a ''model_name'')) @ '' flagged '' @ threat @
                 '' (Conf: '' @ conf @ ''%)'')])))
      else Inr [])"

definition alert_facts :: "view_libs \<Rightarrow> obj \<Rightarrow> fact list result" where
  "alert_facts V a =
     (let t = dget_or a ''threat_class'' (PStr ''Threat'') in
      case dget_or a ''evidence'' (PDict []) of
        PDict evidence \<Rightarrow>
          bind_result (map_result (evidence_fact V t) evidence) (\<lambda>facts.
          bind_result (model_fact V t a) (\<lambda>flagged. Inr (facts @ flagged)))
      | _ \<Rightarrow> Inl AttributeError)"

definition observed_lines :: "fact list \<Rightarrow> string list" where
  "observed_lines fs = concat (map (\<lambda>f. case f of Observed s \<Rightarrow> [s] | Inferred _ \<Rightarrow> []) fs)"

definition inferred_lines :: "fact list \<Rightarrow> string list" where
  "inferred_lines fs = concat (map (\<lambda>f. case f of Observed _ \<Rightarrow> [] | Inferred s \<Rightarrow> [s]) fs)"

abbreviation newline :: string where
  "newline \<equiv> [CHR 0x0A]"

definition lines_or :: "view_libs \<Rightarrow> string list \<Rightarrow> string \<Rightarrow> string" where
  "lines_or V ls none = (if ls \<noteq> [] then join newline (v_line_order V (uniq ls)) else none)"

definition detail_lines :: "view_libs \<Rightarrow> incident \<Rightarrow> string \<Rightarrow> fact list \<Rightarrow> string list" where
  "detail_lines V inc severity facts =
     [[], ''[b]Incident:[/] '' @ i_id inc, ''[b]Status:[/] '' @ py_upper (i_status inc),
      ''[b]Severity:[/] '' @ severity, ''[b]Risk Score:[/] '' @ fixed_text 1 (i_risk inc),
      ''[b]First seen:[/] '' @ format_timestamp (v_isoparse V) (i_created inc), [],
      ''[b]Automated Summary:[/]'', v_escape V (i_summary inc), [],
      ''[b][#00bcd4]Observed Facts:[/#00bcd4][/]'',
      lines_or V (observed_lines facts) ''- No raw metadata facts extracted.'', [],
      ''[b][#ff9800]Inferred ML Findings:[/#ff9800][/]'',
      lines_or V (inferred_lines facts) ''- Rule-based heuristic, no ML models triggered.'', [],
      ''[b][#9e9e9e]Unknowns:[/#9e9e9e][/]'',
      ''- Payload contents were not inspected (Data Diode boundary).'',
      ''- Endpoint process identity is unavailable.'', [],
      ''[b]ATT&CK Mappings:[/]'', v_escape V (join '', '' (i_tactics inc)),
      ''[b]Related Alerts:[/] '' @ str_of_nat (length (i_related inc)), ''        '']"

definition detail_text :: "view_libs \<Rightarrow> incident \<Rightarrow> obj list \<Rightarrow> string result" where
  "detail_text V inc all_alerts =
     (let related = filter (\<lambda>a. py_in (oget a ''alert_id'') (i_related inc)) all_alerts in
      bind_result (map_result (alert_facts V) related) (\<lambda>facts.
      bind_result (upper_of (i_severity inc)) (\<lambda>severity.
        Inr (join newline (detail_lines V inc severity (concat facts))))))"

definition open_detail :: "string \<Rightarrow> console \<Rightarrow> console" where
  "open_detail content c =
     (let c1 = c\<lparr>c_detail := content\<rparr>
      in if c_live c1 then notify ''Paused live updates for investigation.'' (action_toggle_pause c1) else c1)"

definition row_selected :: "view_libs \<Rightarrow> manager \<Rightarrow> string \<Rightarrow> console \<Rightarrow> exc option \<times> console" where
  "row_selected V m key c =
     (case get_incidents (v_repr V) (v_set_order V) (v_now V) m of
        Inl e \<Rightarrow> (Some e, c)
      | Inr incidents \<Rightarrow>
          (case manager_alerts (v_as_dict V) (v_loads V) m of
             Inl e \<Rightarrow> (Some e, c)
           | Inr all_alerts \<Rightarrow>
               (case find (\<lambda>i. i_id i = key) incidents of
                  None \<Rightarrow> (None, c)
                | Some inc \<Rightarrow>
                    (case detail_text V inc all_alerts of
                       Inl e \<Rightarrow> (Some e, c)
                     | Inr content \<Rightarrow> (None, open_detail content c)))))"

section \<open>The machine\<close>

datatype console_event = Tick manager | Refresh manager | TogglePause | Acknowledge | RowSelected manager string

fun handle :: "view_libs \<Rightarrow> console_event \<Rightarrow> console \<Rightarrow> exc option \<times> console" where
  "handle V (Tick m) c = update_queue V m False c"
| "handle V (Refresh m) c = update_queue V m True c"
| "handle V TogglePause c = (None, action_toggle_pause c)"
| "handle V Acknowledge c = (None, action_acknowledge c)"
| "handle V (RowSelected m key) c = row_selected V m key c"

definition console_step :: "view_libs \<Rightarrow> console \<Rightarrow> console_event \<Rightarrow> console" where
  "console_step V c ev = snd (handle V ev c)"

section \<open>The queue is the incidents, worst first\<close>

definition row_of :: "view_libs \<Rightarrow> incident \<Rightarrow> queue_row" where
  "row_of V inc = (case queue_row_of V inc of Inr row \<Rightarrow> row)"

lemma queue_row_key: "queue_row_of V inc = Inr row \<Longrightarrow> q_key row = i_id inc"
  by (auto simp: queue_row_of_def result_simps)

lemma add_rows_ok:
  assumes "\<forall>inc\<in>set incs. \<exists>row. queue_row_of V inc = Inr row" "distinct (map q_key rows @ map i_id incs)"
  shows "add_rows V incs rows = (None, rows @ map (row_of V) incs)"
  using assms
proof (induction incs arbitrary: rows)
  case (Cons inc incs)
  from Cons.prems(1) obtain row where row: "queue_row_of V inc = Inr row" by auto
  have key: "q_key row = i_id inc" by (rule queue_row_key [OF row])
  from Cons.prems(2) key have "q_key row \<notin> q_key ` set rows" by auto
  moreover have "add_rows V incs (rows @ [row]) = (None, (rows @ [row]) @ map (row_of V) incs)"
    using Cons.prems key by (intro Cons.IH) auto
  moreover have "row_of V inc = row" by (simp add: row_of_def row)
  ultimately show ?case by (simp add: row)
qed simp

lemma group_incident_id: "i_id (group_incident rp ord now src grp) = incident_id src"
  by (simp add: group_incident_def Let_def)

lemma group_incident_severity: "\<exists>s. i_severity (group_incident rp ord now src grp) = PStr s"
  by (simp add: group_incident_def Let_def)

lemma group_incident_row:
  assumes "grp \<noteq> []" "\<forall>xs. mset (v_set_order V xs) = mset xs"
  shows "\<exists>row. queue_row_of V (group_incident (v_repr V) (v_set_order V) now src grp) = Inr row"
proof -
  let ?i = "group_incident (v_repr V) (v_set_order V) now src grp"
  obtain s where sev: "i_severity ?i = PStr s" using group_incident_severity by blast
  have "v_set_order V xs \<noteq> []" if "xs \<noteq> []" for xs
    using that assms(2) by (metis mset_zero_iff)
  then have "i_threats ?i \<noteq> []" by (simp add: group_incident_def Let_def)
  moreover have "i_entities ?i \<noteq> []" by (simp add: group_incident_def Let_def)
  ultimately obtain t ts e es where "i_threats ?i = t # ts" "i_entities ?i = e # es" by (metis neq_Nil_conv)
  with sev show ?thesis by (simp add: queue_row_of_def upper_of_def first_of_def)
qed

lemma by_risk_sorted: "sorted_wrt (\<lambda>i j. i_risk i \<ge> i_risk j) (by_risk incs)"
proof -
  have "sorted_wrt (\<lambda>i j. - i_risk i \<le> - i_risk j) (by_risk incs)"
    using sorted_sort_key [of "\<lambda>i. - i_risk i" incs] by (simp add: by_risk_def sorted_map)
  then show ?thesis by (rule sorted_wrt_mono_rel [rotated]) simp
qed

lemma incidents_rows:
  assumes "m_alerts m = map PDict as" "\<forall>a\<in>set as. feed_alert a" "\<forall>xs. mset (v_set_order V xs) = mset xs"
    and "get_incidents (v_repr V) (v_set_order V) now m = Inr incs"
  shows "\<forall>inc\<in>set incs. \<exists>row. queue_row_of V inc = Inr row"
proof -
  have incs: "incs = map (\<lambda>src. group_incident (v_repr V) (v_set_order V) now src (filter (\<lambda>a. src_of a = src) as))
      (uniq (map src_of as))"
    using assms(4) unfolding incidents_by_grouping [OF assms(1,2)] sum.inject by (rule sym)
  show ?thesis unfolding incs
    using group_incident_row [OF _ assms(3)] group_nonempty [of _ src_of as] by fastforce
qed

text \<open>C25. The analyst's queue: for every page the API can serve whose sources are free of dashes, a refresh
raises nothing and shows exactly the incidents, one row each under distinct keys, ordered from the
highest risk to the lowest.\<close>

theorem queue_shows_incidents:
  assumes "m_alerts m = map PDict as" "\<forall>a\<in>set as. feed_alert a \<and> CHR ''-'' \<notin> set (src_of a)"
    and "\<forall>xs. mset (v_set_order V xs) = mset xs"
  shows "\<exists>incs sorted. get_incidents (v_repr V) (v_set_order V) (v_now V) m = Inr incs \<and>
    update_queue V m True c = (None, c\<lparr>c_queue := map (row_of V) sorted\<rparr>) \<and>
    mset sorted = mset incs \<and> sorted_wrt (\<lambda>i j. i_risk i \<ge> i_risk j) sorted \<and>
    map q_key (map (row_of V) sorted) = map i_id sorted \<and> distinct (map i_id sorted)"
proof -
  have feed: "\<forall>a\<in>set as. feed_alert a" using assms(2) by blast
  obtain incs where incs: "get_incidents (v_repr V) (v_set_order V) (v_now V) m = Inr incs"
    using incidents_by_grouping [OF assms(1) feed] by blast
  have rows: "\<forall>inc\<in>set (by_risk incs). \<exists>row. queue_row_of V inc = Inr row"
    using incidents_rows [OF assms(1) feed assms(3) incs] by (simp add: by_risk_def)
  have perm: "mset (by_risk incs) = mset incs" by (simp add: by_risk_def)
  have dist: "distinct (map i_id (by_risk incs))"
    using incident_ids_distinct [OF assms(1,2) incs] perm
    by (metis mset_map mset_eq_imp_distinct_iff)
  have "add_rows V (by_risk incs) [] = (None, [] @ map (row_of V) (by_risk incs))"
    using rows dist by (intro add_rows_ok) simp_all
  then have "update_queue V m True c = (None, c\<lparr>c_queue := map (row_of V) (by_risk incs)\<rparr>)"
    by (simp add: update_queue_def incs)
  moreover have "map q_key (map (row_of V) (by_risk incs)) = map i_id (by_risk incs)"
    using rows queue_row_key by (fastforce simp: row_of_def)
  ultimately show ?thesis using incs perm dist by_risk_sorted by blast
qed

definition sample_view :: view_libs where
  "sample_view = \<lparr>v_repr = (\<lambda>_. []), v_set_order = id, v_line_order = id, v_now = (\<lambda>_. []), v_escape = id,
     v_isoparse = (\<lambda>_. None), v_as_dict = (\<lambda>_. Inl TypeError), v_loads = (\<lambda>_. Inl ValueError)\<rparr>"

lemma queue_shows_incidents_witness:
  "\<exists>incs sorted. get_incidents (v_repr sample_view) (v_set_order sample_view) (v_now sample_view) sample_manager = Inr incs \<and>
    update_queue sample_view sample_manager True mounted_console =
      (None, mounted_console\<lparr>c_queue := map (row_of sample_view) sorted\<rparr>) \<and> mset sorted = mset incs"
proof -
  have "\<forall>a\<in>set sample_feed. feed_alert a \<and> CHR ''-'' \<notin> set (src_of a)"
    using sample_feed_ok by (auto simp: sample_feed_def src_of_def alert_source_def py_or_def)
  moreover have "\<forall>xs. mset (v_set_order sample_view xs) = mset xs" by (simp add: sample_view_def)
  ultimately show ?thesis
    using queue_shows_incidents [OF sample_manager_alerts, of sample_view mounted_console] by blast
qed

section \<open>Pausing\<close>

definition title_ok :: "console \<Rightarrow> bool" where
  "title_ok c \<longleftrightarrow> (prefix ''[LIVE]'' (c_sub_title c) \<longleftrightarrow> c_live c)"

lemma toggle_title: "title_ok (action_toggle_pause c)"
  by (simp add: title_ok_def action_toggle_pause_def Let_def)

lemma row_selected_cases:
  obtains e where "row_selected V m key c = (e, c)"
    | incs inc d where "get_incidents (v_repr V) (v_set_order V) (v_now V) m = Inr incs" "inc \<in> set incs" "i_id inc = key"
      "row_selected V m key c = (None, open_detail d c)"
proof (cases "get_incidents (v_repr V) (v_set_order V) (v_now V) m")
  case (Inl e)
  then show ?thesis using that(1) by (simp add: row_selected_def)
next
  case incs: (Inr incs)
  show ?thesis
  proof (cases "manager_alerts (v_as_dict V) (v_loads V) m")
    case (Inl e)
    with incs show ?thesis using that(1) by (simp add: row_selected_def)
  next
    case alerts: (Inr all_alerts)
    show ?thesis
    proof (cases "find (\<lambda>i. i_id i = key) incs")
      case None
      with incs alerts show ?thesis using that(1) by (simp add: row_selected_def)
    next
      case (Some inc)
      then have "inc \<in> set incs" "i_id inc = key" by (auto simp: find_Some_iff)
      with incs alerts Some that show ?thesis
        by (cases "detail_text V inc all_alerts") (auto simp: row_selected_def)
    qed
  qed
qed

lemma open_detail_simps [simp]:
  "\<not> c_live (open_detail d c)" "c_queue (open_detail d c) = c_queue c" "title_ok c \<Longrightarrow> title_ok (open_detail d c)"
  using toggle_title [of "c\<lparr>c_detail := d\<rparr>"]
  by (simp_all add: open_detail_def Let_def notify_def title_ok_def action_toggle_pause_def)

lemma update_queue_frame:
  "c_live (snd (update_queue V m force c)) = c_live c \<and> c_sub_title (snd (update_queue V m force c)) = c_sub_title c"
  by (auto simp: update_queue_def split: sum.splits prod.splits)

lemma title_ok_step: "title_ok c \<Longrightarrow> title_ok (console_step V c ev)"
proof (cases ev)
  case (RowSelected m key)
  assume "title_ok c"
  then show ?thesis
    by (cases rule: row_selected_cases [of V m key c]) (simp_all add: RowSelected console_step_def)
qed (simp_all add: console_step_def toggle_title,
     simp_all add: title_ok_def update_queue_frame action_acknowledge_def notify_def)

interpretation titled: machine "console_step V" title_ok for V
  by unfold_locales (rule title_ok_step)

text \<open>The title bar tells the truth: after any events it says \<open>[LIVE]\<close> exactly when the queue is live.\<close>

lemma title_tells_live: "title_ok (foldl (console_step V) mounted_console evs)"
  by (rule titled.run_inv) (simp add: title_ok_def mounted_console_def)

definition undisturbing :: "console_event \<Rightarrow> bool" where
  "undisturbing ev \<longleftrightarrow> (case ev of TogglePause \<Rightarrow> False | Refresh _ \<Rightarrow> False | _ \<Rightarrow> True)"

lemma paused_step:
  assumes "\<not> c_live c" "undisturbing ev"
  shows "\<not> c_live (console_step V c ev) \<and> c_queue (console_step V c ev) = c_queue c"
proof (cases ev)
  case (RowSelected m key)
  with assms(1) show ?thesis
    by (cases rule: row_selected_cases [of V m key c]) (simp_all add: console_step_def)
qed (use assms in \<open>simp_all add: console_step_def undisturbing_def update_queue_def action_acknowledge_def notify_def\<close>)

lemma paused_run:
  "\<not> c_live c \<Longrightarrow> \<forall>ev\<in>set evs. undisturbing ev \<Longrightarrow>
   \<not> c_live (foldl (console_step V) c evs) \<and> c_queue (foldl (console_step V) c evs) = c_queue c"
  by (induction evs arbitrary: c) (simp_all add: paused_step)

text \<open>C24. An investigation is not disturbed: once the selection of a row has opened an incident, the console
is paused and neither the timer nor further selections nor acknowledgements change the queue, however
the alerts change underneath, until the analyst resumes or refreshes.\<close>

theorem investigation_frozen:
  assumes "row_selected V m key c = (None, c1)" "c1 \<noteq> c" "\<forall>ev\<in>set evs. undisturbing ev"
  shows "\<not> c_live (foldl (console_step V) c1 evs) \<and> c_queue (foldl (console_step V) c1 evs) = c_queue c \<and>
    (\<exists>inc\<in>set (case get_incidents (v_repr V) (v_set_order V) (v_now V) m of Inr incs \<Rightarrow> incs | Inl _ \<Rightarrow> []). i_id inc = key)"
proof (cases rule: row_selected_cases [of V m key c])
  case (1 e)
  with assms(1,2) show ?thesis by simp
next
  case (2 incs inc d)
  with assms(1) have "c1 = open_detail d c" by simp
  with 2(1-3) paused_run [of c1 evs V] assms(3) show ?thesis by auto
qed

lemma row_selected_opens:
  assumes "get_incidents (v_repr V) (v_set_order V) (v_now V) m = Inr incs"
    and "manager_alerts (v_as_dict V) (v_loads V) m = Inr all_alerts"
    and "find (\<lambda>i. i_id i = key) incs = Some inc" "i_severity inc = PStr s"
    and "\<forall>a\<in>set all_alerts. alert_facts V a = Inr (fs a)"
  shows "\<exists>d. row_selected V m key c = (None, open_detail d c)"
proof -
  let ?related = "filter (\<lambda>a. py_in (oget a ''alert_id'') (i_related inc)) all_alerts"
  have "map_result (alert_facts V) ?related = Inr (map fs ?related)"
    using assms(5) by (intro map_result_Inr) auto
  then have "\<exists>d. detail_text V inc all_alerts = Inr d"
    by (simp add: detail_text_def Let_def assms(4) upper_of_def)
  with assms(1-3) show ?thesis by (auto simp: row_selected_def)
qed

lemma sample_selected: "\<exists>d. row_selected sample_view sample_manager ''INC-10-0-0-5'' mounted_console = (None, open_detail d mounted_console)"
proof -
  let ?inc = "\<lambda>src. group_incident (v_repr sample_view) (v_set_order sample_view) (v_now sample_view) src
      (filter (\<lambda>a. src_of a = src) sample_feed)"
  have "get_incidents (v_repr sample_view) (v_set_order sample_view) (v_now sample_view) sample_manager =
      Inr [?inc ''10.0.0.5'', ?inc ''127.0.0.1'']"
    using incidents_by_grouping [OF sample_manager_alerts sample_feed_ok] by (simp add: sample_sources)
  moreover have "manager_alerts (v_as_dict sample_view) (v_loads sample_view) sample_manager = Inr sample_feed"
    by (simp add: manager_alerts_def sample_manager_alerts sample_feed_def alert_item_def)
  moreover have "find (\<lambda>i. i_id i = ''INC-10-0-0-5'') [?inc ''10.0.0.5'', ?inc ''127.0.0.1''] = Some (?inc ''10.0.0.5'')"
    by (simp add: group_incident_id incident_id_def replace_all_char)
  moreover obtain s where "i_severity (?inc ''10.0.0.5'') = PStr s" using group_incident_severity by blast
  moreover have "\<forall>a\<in>set sample_feed. alert_facts sample_view a = Inr []"
    by (simp add: sample_feed_def alert_facts_def model_fact_def)
  ultimately show ?thesis by (rule row_selected_opens)
qed

lemma investigation_frozen_witness:
  "\<exists>d. row_selected sample_view sample_manager ''INC-10-0-0-5'' mounted_console = (None, open_detail d mounted_console) \<and>
    c_queue (foldl (console_step sample_view) (open_detail d mounted_console) [Tick sample_manager, Acknowledge]) = []"
proof -
  obtain d where d: "row_selected sample_view sample_manager ''INC-10-0-0-5'' mounted_console = (None, open_detail d mounted_console)"
    using sample_selected by blast
  have "open_detail d mounted_console \<noteq> mounted_console"
    using open_detail_simps(1) [of d mounted_console] by (auto simp: mounted_console_def simp del: open_detail_simps)
  from investigation_frozen [OF d this, of "[Tick sample_manager, Acknowledge]"] d show ?thesis
    by (auto simp: undisturbing_def mounted_console_def)
qed

text \<open>A poll that brings two sources with the same id makes the refresh raise, after the rows of the old
  queue were cleared.\<close>

lemma colliding_ids_raise:
  assumes "queue_row_of V i = Inr r" "queue_row_of V j = Inr r'" "i_id i = i_id j"
  shows "add_rows V [i, j] [] = (Some (OtherError ''DuplicateKey''), [r])"
  using assms queue_row_key [OF assms(1)] queue_row_key [OF assms(2)] by simp

text \<open>The threat class reaches the pane unescaped in the latency line, although the next line escapes it.\<close>

lemma latency_line_unescaped:
  "py_fixed 1 v = Inr ms \<Longrightarrow>
   evidence_fact V (PStr t) (''inference_latency_ms'', v) = Inr (Inferred (''- Model inference took '' @ ms @ ''ms for '' @ t))"
  by (simp add: evidence_fact_def)

end
