(* ===== verification/Dashboard.thy ===== *)
theory Dashboard
  imports DataAccess "HOL-Library.List_Lexorder" "HOL-Library.Char_ord"
begin

text \<open>
  The decisions of the Streamlit pages: which state a page shows, the key figures, origins and incident
  queue of the overview, the evidence lines of the incident page, the search of the investigation page,
  the relationship graph and the gauges of the health page. Layout and drawing are not modelled.
\<close>

section \<open>Entering a page\<close>

text \<open>Every page starts the listeners, reads the status, and stops when the backend is not confirmed;
  the incident pages also stop when there is nothing to show.\<close>

datatype 'a page = BrokerUnavailable | NoAlerts | PageError exc | Shown 'a

definition incident_page ::
  "py_repr \<Rightarrow> (pyval list \<Rightarrow> pyval list) \<Rightarrow> (string \<Rightarrow> string) \<Rightarrow> (incident list \<Rightarrow> 'a) \<Rightarrow> manager \<Rightarrow> 'a page \<times> manager" where
  "incident_page rp ord now body m =
     (let m1 = start_listeners m; status = status_of m1
      in (if \<not> st_healthy status then BrokerUnavailable
          else (case get_incidents rp ord now m1 of
                  Inl e \<Rightarrow> PageError e
                | Inr incidents \<Rightarrow> if incidents = [] then NoAlerts else Shown (body incidents)), m1))"

section \<open>Overview\<close>

record overview =
  o_critical :: nat
  o_high :: nat
  o_total :: nat
  o_average :: string

definition overview_of :: "incident list \<Rightarrow> overview" where
  "overview_of incidents =
     \<lparr>o_critical = length (filter (\<lambda>i. py_eq (i_severity i) (PStr ''critical'')) incidents),
      o_high = length (filter (\<lambda>i. py_eq (i_severity i) (PStr ''high'')) incidents),
      o_total = length incidents,
      o_average = fixed_text 1 (sum_list (map i_risk incidents) / real (length incidents))\<rparr>"

text \<open>The bar chart: how many incidents list an address among their entities, the ten most frequent ones;
  \<open>ord\<close> is the order pandas lists equal counts in.\<close>

definition top_counts :: "('a list \<Rightarrow> 'a list) \<Rightarrow> nat \<Rightarrow> 'a list \<Rightarrow> ('a \<times> nat) list" where
  "top_counts ord n xs = take n (sort_key (\<lambda>(x, w). - int w) (map (\<lambda>x. (x, count_list xs x)) (ord (uniq xs))))"

definition top_origins :: "(pyval list \<Rightarrow> pyval list) \<Rightarrow> incident list \<Rightarrow> (pyval \<times> nat) list" where
  "top_origins ord incidents = top_counts ord 10 (concat (map i_entities incidents))"

text \<open>The incident queue.\<close>

record queue_line =
  ql_created :: string
  ql_id :: string
  ql_severity :: pyval
  ql_risk :: real
  ql_threats :: string
  ql_entities :: string

definition join_texts :: "pyval list \<Rightarrow> string result" where
  "join_texts xs =
     bind_result (map_result (\<lambda>x. case x of PStr s \<Rightarrow> Inr s | _ \<Rightarrow> Inl TypeError) xs) (\<lambda>ss. Inr (join '', '' ss))"

definition queue_line_of :: "(pyval \<Rightarrow> datetime option) \<Rightarrow> incident \<Rightarrow> queue_line result" where
  "queue_line_of isoparse i =
     bind_result (join_texts (i_threats i)) (\<lambda>threats.
     bind_result (join_texts (i_entities i)) (\<lambda>entities.
       Inr \<lparr>ql_created = format_timestamp isoparse (i_created i), ql_id = i_id i, ql_severity = i_severity i, ql_risk = i_risk i,
             ql_threats = threats, ql_entities = entities\<rparr>))"

definition descending_by :: "('a \<Rightarrow> 'k::linorder) \<Rightarrow> 'a list \<Rightarrow> 'a list" where
  "descending_by k xs = rev (sort_key k (rev xs))"

definition overview_queue :: "(pyval \<Rightarrow> datetime option) \<Rightarrow> incident list \<Rightarrow> queue_line list result" where
  "overview_queue isoparse incidents =
     bind_result (map_result (queue_line_of isoparse) incidents) (\<lambda>rows.
       Inr (descending_by ql_risk (descending_by ql_created rows)))"

section \<open>Incidents\<close>

definition incident_option :: "py_repr \<Rightarrow> incident \<Rightarrow> string result" where
  "incident_option rp row =
     (let threat = (case i_threats row of t # _ \<Rightarrow> t | [] \<Rightarrow> PStr ''Unknown'') in
      case i_severity row of
        PStr s \<Rightarrow> Inr (py_upper s @ '' ('' @ fixed_text 0 (i_risk row) @ '') - '' @ py_str rp threat)
      | _ \<Rightarrow> Inl AttributeError)"

text \<open>\<open>set(ids)\<close> hashes the ids; \<open>a['alert_id']\<close> raises when the alert has none.\<close>

fun related_alerts :: "pyval list \<Rightarrow> obj list \<Rightarrow> obj list result" where
  "related_alerts ids [] = Inr []"
| "related_alerts ids (a # as) =
     (case dget a ''alert_id'' of
        None \<Rightarrow> Inl KeyError
      | Some i \<Rightarrow>
          if \<not> hashable i then Inl TypeError
          else bind_result (related_alerts ids as) (\<lambda>rest. Inr (if py_in i ids then a # rest else rest)))"

definition evidence_line :: "py_repr \<Rightarrow> string \<times> pyval \<Rightarrow> string" where
  "evidence_line rp e = (case e of (k, v) \<Rightarrow> ''- **'' @ k @ ''**: `'' @ escape_markdown rp v @ ''`'')"

definition evidence_columns :: "py_repr \<Rightarrow> obj \<Rightarrow> string list \<times> string list" where
  "evidence_columns rp a =
     (case categorize_evidence (dget_or a ''evidence'' (PDict [])) of
        (observed, inferred, unknown) \<Rightarrow> (map (evidence_line rp) observed, map (evidence_line rp) inferred))"

section \<open>Investigate\<close>

text \<open>The data frame has a column when some alert has the key; comparing a missing column raises.\<close>

definition search_columns :: "string list" where
  "search_columns = [''source_ip'', ''destination_ip'', ''alert_id'', ''flow_id'']"

definition search_alerts :: "string \<Rightarrow> obj list \<Rightarrow> obj list result" where
  "search_alerts search_term alerts =
     (if \<forall>a\<in>set alerts. a = [] then Inr []
      else if \<exists>c\<in>set search_columns. \<forall>a\<in>set alerts. dget a c = None then Inl KeyError
      else Inr (filter (\<lambda>a. \<exists>c\<in>set search_columns. py_eq (oget a c) (PStr search_term)) alerts))"

section \<open>Health\<close>

record health =
  h_incident_pct :: real
  h_alert_pct :: real
  h_lag :: string

definition buffer_pct :: "nat \<Rightarrow> real \<Rightarrow> real" where
  "buffer_pct n cap = min 100 (real n / cap * 100)"

definition lag_status :: "real \<Rightarrow> real \<Rightarrow> string" where
  "lag_status now last_event =
     (let since = now - last_event in
      if last_event = 0 then ''WAITING FOR TELEMETRY''
      else if since > 60 then ''STALE ('' @ fixed_text 1 since @ ''s ago)''
      else ''LIVE ('' @ fixed_text 1 since @ ''s ago)'')"

definition health_of :: "real \<Rightarrow> manager_status \<Rightarrow> health" where
  "health_of now status =
     \<lparr>h_incident_pct = buffer_pct (st_incidents status) 200, h_alert_pct = buffer_pct (st_alerts status) 1000,
      h_lag = lag_status now (st_last_event status)\<rparr>"

definition health_page :: "real \<Rightarrow> manager \<Rightarrow> health page \<times> manager" where
  "health_page now m =
     (let m1 = start_listeners m; status = status_of m1
      in (if \<not> st_healthy status then BrokerUnavailable else Shown (health_of now status), m1))"

text \<open>The start page starts the poller and shows one line on the backend.\<close>

definition home_page :: "manager \<Rightarrow> string page \<times> manager" where
  "home_page m =
     (let m1 = start_listeners m; status = status_of m1
      in (if \<not> st_healthy status then BrokerUnavailable
          else Shown ''System Health: ONLINE | Inference Engine: ACTIVE | Select a module from the sidebar.'', m1))"

section \<open>Network\<close>

text \<open>The columns are those of the API's answer: the confidence is a number or null, the addresses are text
  or null. \<open>groupby\<close> drops nulls; \<open>ord\<close> is the order pandas lists groups of equal weight in.\<close>

definition confident :: "real \<Rightarrow> obj \<Rightarrow> bool" where
  "confident min_confidence a =
     (case oget a ''confidence_score'' of PFloat (Fin r) \<Rightarrow> min_confidence \<le> r | PFloat PosInf \<Rightarrow> True | _ \<Rightarrow> False)"

definition link_pairs :: "obj list \<Rightarrow> (pyval \<times> pyval) list" where
  "link_pairs alerts =
     filter (\<lambda>(s, d). s \<noteq> PNone \<and> d \<noteq> PNone) (map (\<lambda>a. (oget a ''source_ip'', oget a ''destination_ip'')) alerts)"

definition relationships ::
  "((pyval \<times> pyval) list \<Rightarrow> (pyval \<times> pyval) list) \<Rightarrow> nat \<Rightarrow> (pyval \<times> pyval) list \<Rightarrow> ((pyval \<times> pyval) \<times> nat) list" where
  "relationships ord max_nodes pairs = top_counts ord max_nodes pairs"

definition index_of :: "'a \<Rightarrow> 'a list \<Rightarrow> nat" where
  "index_of x xs = length (takeWhile (\<lambda>y. y \<noteq> x) xs)"

record graph =
  g_labels :: "pyval list"
  g_links :: "(nat \<times> nat \<times> nat) list"

definition sankey :: "((pyval \<times> pyval) \<times> nat) list \<Rightarrow> graph" where
  "sankey rel =
     (let all_nodes = uniq (map (fst \<circ> fst) rel @ map (snd \<circ> fst) rel) in
      \<lparr>g_labels = all_nodes, g_links = map (\<lambda>((s, d), w). (index_of s all_nodes, index_of d all_nodes, w)) rel\<rparr>)"

text \<open>\<open>None\<close> for the notice that no connection meets the filter.\<close>

definition network_page ::
  "(pyval \<Rightarrow> obj result) \<Rightarrow> (string \<Rightarrow> pyval result) \<Rightarrow> ((pyval \<times> pyval) list \<Rightarrow> (pyval \<times> pyval) list) \<Rightarrow>
   real \<Rightarrow> nat \<Rightarrow> manager \<Rightarrow> graph option page \<times> manager" where
  "network_page as_dict loads ord min_confidence max_nodes m =
     (let m1 = start_listeners m; status = status_of m1
      in (if \<not> st_healthy status then BrokerUnavailable
          else (case manager_alerts as_dict loads m1 of
                  Inl e \<Rightarrow> PageError e
                | Inr alerts \<Rightarrow>
                    if alerts = [] then NoAlerts
                    else (let filtered = filter (confident min_confidence) alerts in
                          Shown (if filtered = [] then None
                                 else Some (sankey (relationships ord max_nodes (link_pairs filtered)))))), m1))"

section \<open>What the pages show\<close>

lemma gauges_in_range:
  "0 \<le> h_incident_pct (health_of now s) \<and> h_incident_pct (health_of now s) \<le> 100 \<and>
   0 \<le> h_alert_pct (health_of now s) \<and> h_alert_pct (health_of now s) \<le> 100"
  by (simp add: health_of_def buffer_pct_def)

lemma kpis_consistent: "o_critical (overview_of incs) + o_high (overview_of incs) \<le> o_total (overview_of incs)"
proof (induction incs)
  case (Cons i incs)
  then show ?case by (cases "i_severity i = PStr ''critical''") (auto simp: overview_of_def)
qed (simp add: overview_of_def)

text \<open>The pages the API can serve: an unhealthy backend never shows stale incidents as current, and a
  healthy one with alerts always shows every alert.\<close>

lemma incident_page_feed:
  assumes "m_alerts m = map PDict as" "\<forall>a\<in>set as. feed_alert a"
  shows "fst (incident_page rp ord now (\<lambda>incs. mset (concat (map i_related incs))) m) =
    (if \<not> m_healthy m then BrokerUnavailable else if as = [] then NoAlerts
     else Shown (mset (filter truthy (map (\<lambda>a. oget a ''alert_id'') as))))"
proof -
  have start: "m_alerts (start_listeners m) = map PDict as" "m_healthy (start_listeners m) = m_healthy m"
    using assms(1) by (simp_all add: start_listeners_def)
  note incs = incidents_by_grouping [OF start(1) assms(2), of rp ord now]
  have empty: "uniq (map src_of as) = [] \<longleftrightarrow> as = []"
    by (metis list.map_disc_iff set_empty set_uniq)
  show ?thesis using get_incidents_related [OF start(1) assms(2) incs] empty
    by (simp add: incident_page_def Let_def incs status_of_def start(2))
qed

lemma search_is_exact:
  "search_alerts t as = Inr hits \<Longrightarrow>
   set hits = {a \<in> set as. PStr t \<in> {oget a ''source_ip'', oget a ''destination_ip'', oget a ''alert_id'', oget a ''flow_id''}}"
  by (auto simp: search_alerts_def search_columns_def split: if_splits)

lemma nth_index_of: "x \<in> set xs \<Longrightarrow> index_of x xs < length xs \<and> xs ! index_of x xs = x"
  by (induction xs) (auto simp: index_of_def)

lemma top_counts_weight:
  assumes "(x, w) \<in> set (top_counts ord n xs)" "set (ord (uniq xs)) \<subseteq> set xs"
  shows "x \<in> set xs \<and> w = count_list xs x \<and> 0 < w"
proof -
  have "x \<in> set xs" "w = count_list xs x" using assms by (auto simp: top_counts_def dest!: in_set_takeD)
  moreover from this(1) have "count_list xs x \<noteq> 0" by (simp add: count_list_0_iff)
  ultimately show ?thesis by simp
qed

text \<open>Every link of the graph joins two of its labels, stands for a pair of addresses of the feed and carries
  the number of its alerts.\<close>

lemma network_links:
  assumes "g = sankey (relationships ord n pairs)" "(i, j, w) \<in> set (g_links g)" "set (ord (uniq pairs)) \<subseteq> set pairs"
  shows "i < length (g_labels g) \<and> j < length (g_labels g) \<and>
    (g_labels g ! i, g_labels g ! j) \<in> set pairs \<and> w = count_list pairs (g_labels g ! i, g_labels g ! j)"
proof -
  let ?rel = "relationships ord n pairs"
  obtain s d where sd: "((s, d), w) \<in> set ?rel" "i = index_of s (g_labels g)" "j = index_of d (g_labels g)"
    using assms(1,2) by (auto simp: sankey_def Let_def)
  then have "s \<in> set (g_labels g)" "d \<in> set (g_labels g)"
    using assms(1) by (force simp: sankey_def Let_def)+
  then show ?thesis
    using sd(2,3) nth_index_of [of s "g_labels g"] nth_index_of [of d "g_labels g"] top_counts_weight [OF sd(1) [unfolded relationships_def] assms(3)] by simp
qed

lemma network_size:
  "length (g_links (sankey (relationships ord n pairs))) \<le> n \<and> length (g_labels (sankey (relationships ord n pairs))) \<le> 2 * n"
proof -
  let ?rel = "relationships ord n pairs"
  have rel: "length ?rel \<le> n" by (simp add: relationships_def top_counts_def)
  let ?all = "map (fst \<circ> fst) ?rel @ map (snd \<circ> fst) ?rel"
  have "length (uniq ?all) = card (set ?all)" by (metis distinct_card distinct_uniq set_uniq)
  also have "\<dots> \<le> length ?all" by (rule card_length)
  finally show ?thesis using rel by (simp add: sankey_def Let_def)
qed

text \<open>The slider is labelled \<open>Max Nodes to Render\<close>, but it limits the links: ten links may have twenty nodes.\<close>

definition far_pairs :: "(pyval \<times> pyval) list" where
  "far_pairs = map (\<lambda>i. (PStr [char_of (65 + i)], PStr [char_of (97 + i)])) [0 :: nat..<10]"

lemma more_nodes_than_max: "length (g_labels (sankey (relationships (\<lambda>xs. xs) 10 far_pairs))) = 20"
  by code_simp

text \<open>The incident queue shows every incident once, the highest risk first.\<close>

lemma mset_descending_by [simp]: "mset (descending_by k xs) = mset xs"
  by (simp add: descending_by_def)

lemma sorted_descending_by: "sorted_wrt (\<lambda>a b. k b \<le> k a) (descending_by k xs)"
proof -
  have "sorted_wrt (\<lambda>a b. k a \<le> k b) (sort_key k (rev xs))" using sorted_sort_key [of k "rev xs"] by (simp add: sorted_wrt_map)
  then show ?thesis by (simp add: descending_by_def sorted_wrt_rev)
qed

lemma queue_line_id: "queue_line_of isoparse i = Inr r \<Longrightarrow> ql_id r = i_id i \<and> ql_risk r = i_risk i"
  by (auto simp: queue_line_of_def result_simps)

lemma overview_queue_complete:
  assumes "overview_queue isoparse incs = Inr rows"
  shows "mset (map (\<lambda>r. (ql_id r, ql_risk r)) rows) = mset (map (\<lambda>i. (i_id i, i_risk i)) incs)"
    and "sorted_wrt (\<lambda>a b. ql_risk b \<le> ql_risk a) rows"
proof -
  obtain rs where rs: "map_result (queue_line_of isoparse) incs = Inr rs" "rows = descending_by ql_risk (descending_by ql_created rs)"
    using assms by (auto simp: overview_queue_def result_simps)
  have "map (\<lambda>r. (ql_id r, ql_risk r)) rs = map (\<lambda>i. (i_id i, i_risk i)) incs"
    using rs(1) by (induction incs arbitrary: rs) (auto simp: result_simps dest!: queue_line_id)
  then have "mset (map (\<lambda>r. (ql_id r, ql_risk r)) rs) = mset (map (\<lambda>i. (i_id i, i_risk i)) incs)" by simp
  then show "mset (map (\<lambda>r. (ql_id r, ql_risk r)) rows) = mset (map (\<lambda>i. (i_id i, i_risk i)) incs)"
    by (simp add: rs(2))
  show "sorted_wrt (\<lambda>a b. ql_risk b \<le> ql_risk a) rows" unfolding rs(2) by (rule sorted_descending_by)
qed

text \<open>The column \<open>First Seen\<close> shows \<open>created_timestamp\<close>, which is taken from the first alert of the page; the page
  is newest first, so it is the time of the latest alert of the source.\<close>

lemma created_is_latest:
  assumes "m_alerts m = map PDict (map alert_response page)" "\<forall>a\<in>set (map alert_response page). feed_alert a"
    and "descending page" "get_incidents rp ord now m = Inr incs" "inc \<in> set incs"
  shows "\<exists>src r. r \<in> set page \<and> src_of (alert_response r) = src \<and> i_id inc = incident_id src \<and>
    i_created inc = dget_or (alert_response r) ''timestamp'' (PStr (now src)) \<and>
    (\<forall>r'\<in>set page. src_of (alert_response r') = src \<longrightarrow> fst r' \<le> fst r)"
proof -
  let ?as = "map alert_response page"
  obtain src where src: "src \<in> set (map src_of ?as)"
    "inc = group_incident rp ord now src (filter (\<lambda>a. src_of a = src) ?as)"
    using incidents_by_grouping [OF assms(1,2), of rp ord now] assms(4,5) by auto
  let ?rows = "filter (\<lambda>r. src_of (alert_response r) = src) page"
  have rows: "filter (\<lambda>a. src_of a = src) ?as = map alert_response ?rows" by (simp add: filter_map comp_def)
  obtain r rest where r: "?rows = r # rest" using src(1) by (cases ?rows) (auto simp: filter_empty_conv)
  have "sorted_wrt (\<lambda>r s. fst s < fst r) ?rows" using assms(3) by (simp add: sorted_wrt_filter)
  then have "\<forall>r'\<in>set ?rows. fst r' \<le> fst r" unfolding r by auto
  moreover have "r \<in> set ?rows" unfolding r by simp
  moreover have "i_id inc = incident_id src" "i_created inc = dget_or (alert_response r) ''timestamp'' (PStr (now src))"
    unfolding src(2) rows r by (simp_all add: group_incident_def Let_def)
  ultimately show ?thesis by (intro exI [of _ src] exI [of _ r]) auto
qed

text \<open>The chart of attacker origins counts every entity of an incident, the attacked host like the attacker.\<close>

lemma origins_count_targets:
  "i_entities inc = [PStr src, PStr dst] \<Longrightarrow> src \<noteq> dst \<Longrightarrow>
   set (top_origins (\<lambda>xs. xs) [inc]) = {(PStr src, 1), (PStr dst, 1)}"
  by (simp add: top_origins_def top_counts_def uniq_def add_new_def)

end
