(* ===== verification/Incidents.thy ===== *)
theory Incidents
  imports Dashboard
begin

text \<open>
  The incident page (\<open>dashboard/pages/2_Incidents.py\<close>): the selectbox over the incidents sorted by risk, the
  lookup by label behind its texts, and the detail pane of the selected incident with its signals.
  \<open>by_score\<close> is the order \<open>sort_values\<close> returns: its default algorithm is not stable.
\<close>

section \<open>The selectbox\<close>

text \<open>\<open>by_id.loc[id]\<close> is a row when the label is unique and a frame otherwise, whose column has no truth value.\<close>

definition format_option :: "py_repr \<Rightarrow> incident list \<Rightarrow> string \<Rightarrow> string result" where
  "format_option rp df key =
     (case filter (\<lambda>i. i_id i = key) df of
        [] \<Rightarrow> Inl KeyError
      | [row] \<Rightarrow> incident_option rp row
      | _ \<Rightarrow> Inl ValueError)"

section \<open>The detail pane\<close>

record signal_view =
  sv_title :: string
  sv_observed :: "string list"
  sv_inferred :: "string list"

definition signal_title :: "py_repr \<Rightarrow> (pyval \<Rightarrow> datetime option) \<Rightarrow> obj \<Rightarrow> string result" where
  "signal_title rp isoparse a =
     (let model_name = py_or (oget a ''model_name'') (PStr ''rule-based'') in
      case (dget a ''timestamp'', dget a ''threat_class'') of
        (Some ts, Some threat) \<Rightarrow>
          Inr (format_timestamp isoparse ts @ '' | '' @ py_str rp threat @ '' ('' @ py_str rp model_name @ '')'')
      | _ \<Rightarrow> Inl KeyError)"

definition signal_of :: "py_repr \<Rightarrow> (pyval \<Rightarrow> datetime option) \<Rightarrow> obj \<Rightarrow> signal_view result" where
  "signal_of rp isoparse a =
     bind_result (signal_title rp isoparse a) (\<lambda>title.
       Inr (case evidence_columns rp a of (observed, inferred) \<Rightarrow>
         \<lparr>sv_title = title, sv_observed = observed, sv_inferred = inferred\<rparr>))"

text \<open>An empty list of signals is the notice that they have rotated out of the buffer.\<close>

definition related_signals ::
  "py_repr \<Rightarrow> (pyval \<Rightarrow> datetime option) \<Rightarrow> (pyval \<Rightarrow> obj result) \<Rightarrow> (string \<Rightarrow> pyval result) \<Rightarrow> manager \<Rightarrow> incident \<Rightarrow>
   signal_view list result" where
  "related_signals rp isoparse as_dict loads m inc =
     bind_result (manager_alerts as_dict loads m) (\<lambda>alerts.
       if \<exists>i\<in>set (i_related inc). \<not> hashable i then Inl TypeError
       else bind_result (related_alerts (i_related inc) alerts) (map_result (signal_of rp isoparse)))"

record detail_view =
  dv_header :: string
  dv_metrics :: "string list"
  dv_entities :: string
  dv_summary :: string
  dv_signals :: "signal_view list"
  dv_mappings :: "string list"

definition incident_detail ::
  "py_repr \<Rightarrow> (pyval \<Rightarrow> datetime option) \<Rightarrow> (pyval \<Rightarrow> obj result) \<Rightarrow> (string \<Rightarrow> pyval result) \<Rightarrow> manager \<Rightarrow> incident \<Rightarrow>
   detail_view result" where
  "incident_detail rp isoparse as_dict loads m inc =
     (case i_severity inc of
        PStr severity \<Rightarrow>
          bind_result (join_texts (i_entities inc)) (\<lambda>entities.
          bind_result (related_signals rp isoparse as_dict loads m inc) (\<lambda>signals.
            Inr \<lparr>dv_header = (case i_threats inc of t # _ \<Rightarrow> py_str rp t | [] \<Rightarrow> ''Unknown Threat''),
                 dv_metrics = [py_str rp (PFloat (Fin (i_risk inc))) @ ''/100'', py_upper severity,
                   format_timestamp isoparse (i_created inc), py_upper (i_status inc)],
                 dv_entities = ''**Affected Entities:** `'' @ entities @ ''`'',
                 dv_summary = ''**Automated Summary**'' @ [CHR 0x0A] @ ''> '' @ i_summary inc,
                 dv_signals = signals,
                 dv_mappings = map (\<lambda>t. ''- **Tactic:** '' @ t) (i_tactics inc) @
                   map (\<lambda>t. ''- **Technique:** `'' @ t @ ''`'') (i_techniques inc)\<rparr>))
      | _ \<Rightarrow> Inl AttributeError)"

text \<open>The body of the page: every option is formatted on every run, then the incident at the selected position
  is looked up by its id. \<open>k\<close> is the position the analyst picked.\<close>

definition incident_screen ::
  "py_repr \<Rightarrow> (incident list \<Rightarrow> incident list) \<Rightarrow> (pyval \<Rightarrow> datetime option) \<Rightarrow> (pyval \<Rightarrow> obj result) \<Rightarrow>
   (string \<Rightarrow> pyval result) \<Rightarrow> nat \<Rightarrow> manager \<Rightarrow> incident list \<Rightarrow> (string list \<times> detail_view option) result" where
  "incident_screen rp by_score isoparse as_dict loads k m incidents =
     (let df = by_score incidents; options = map i_id df in
      bind_result (map_result (format_option rp df) options) (\<lambda>labels.
        case (case drop k options of [] \<Rightarrow> None | selected # _ \<Rightarrow> find (\<lambda>i. i_id i = selected) df) of
          None \<Rightarrow> Inr (labels, None)
        | Some inc \<Rightarrow>
            bind_result (incident_detail rp isoparse as_dict loads m inc) (\<lambda>d. Inr (labels, Some d))))"

section \<open>What the analyst sees\<close>

text \<open>Two incidents under one id: every option is formatted, so the page shows nothing at all.\<close>

lemma format_option_unique:
  assumes "distinct (map i_id df)" "inc \<in> set df"
  shows "format_option rp df (i_id inc) = incident_option rp inc"
proof -
  have "filter (\<lambda>i. i_id i = i_id inc) df = [inc]"
    using assms by (induction df) (auto simp: filter_empty_conv image_iff)
  then show ?thesis by (simp add: format_option_def)
qed

lemma map_result_fails: "x \<in> set xs \<Longrightarrow> f x = Inl e \<Longrightarrow> \<exists>e. map_result f xs = Inl e"
  by (induction xs) (auto simp: bind_result_def split: sum.split)

lemma repeated_key:
  "\<not> distinct (map f xs) \<Longrightarrow> \<exists>x\<in>set xs. \<exists>a b r. filter (\<lambda>y. f y = f x) xs = a # b # r"
proof (induction xs)
  case (Cons x xs)
  show ?case
  proof (cases "f x \<in> set (map f xs)")
    case True
    then obtain b r where "filter (\<lambda>y. f y = f x) xs = b # r" by (cases "filter (\<lambda>y. f y = f x) xs") (auto simp: filter_empty_conv)
    then show ?thesis by (intro bexI [of _ x]) simp_all
  next
    case False
    with Cons obtain y a b r where "y \<in> set xs" "filter (\<lambda>z. f z = f y) xs = a # b # r" by auto
    with False show ?thesis by (intro bexI [of _ y]) (auto simp: image_iff)
  qed
qed simp

lemma map_result_total:
  "\<forall>x\<in>set xs. \<exists>y. f x = Inr y \<Longrightarrow> \<exists>ys. map_result f xs = Inr ys \<and> list_all2 (\<lambda>x y. f x = Inr y) xs ys"
  by (induction xs) auto

lemma find_unique: "distinct (map f xs) \<Longrightarrow> x \<in> set xs \<Longrightarrow> find (\<lambda>y. f y = f x) xs = Some x"
  by (induction xs) auto

lemma duplicate_id_blanks_page:
  assumes "\<not> distinct (map i_id incs)" "mset (by_score incs) = mset incs"
  shows "\<exists>e. incident_screen rp by_score isoparse as_dict loads k m incs = Inl e"
proof -
  have "\<not> distinct (map i_id (by_score incs))"
    using assms by (metis mset_map mset_eq_imp_distinct_iff)
  from repeated_key [OF this] obtain x a b r
    where x: "x \<in> set (by_score incs)" "filter (\<lambda>i. i_id i = i_id x) (by_score incs) = a # b # r" by blast
  then have "format_option rp (by_score incs) (i_id x) = Inl ValueError" by (simp add: format_option_def)
  with x(1) show ?thesis
    using map_result_fails [of "i_id x" "map i_id (by_score incs)" "format_option rp (by_score incs)"]
    by (auto simp: incident_screen_def Let_def)
qed

text \<open>An alert as the API serves it: the id is text, the keys the page reads are there.\<close>

definition full_alert :: "obj \<Rightarrow> bool" where
  "full_alert a \<longleftrightarrow> feed_alert a \<and> dget a ''timestamp'' \<noteq> None \<and> dget a ''threat_class'' \<noteq> None \<and>
     (\<exists>s. dget a ''alert_id'' = Some (PStr s) \<and> s \<noteq> [])"

lemma alert_item_keeps:
  "\<exists>item. alert_item as_dict loads (PDict a) = Inr item \<and> (\<forall>k. k \<noteq> ''evidence'' \<longrightarrow> dget item k = dget a k)"
  by (auto simp: alert_item_def split: pyval.split sum.split)

definition same_alert :: "obj \<Rightarrow> obj \<Rightarrow> bool" where
  "same_alert a item \<longleftrightarrow> (\<forall>k. k \<noteq> ''evidence'' \<longrightarrow> dget item k = dget a k)"

lemma manager_alerts_same:
  "m_alerts m = map PDict as \<Longrightarrow> \<exists>items. manager_alerts as_dict loads m = Inr items \<and> list_all2 same_alert as items"
proof -
  have "\<exists>items. map_result (alert_item as_dict loads) (map PDict as) = Inr items \<and> list_all2 same_alert as items"
  proof (induction as)
    case (Cons a as)
    then show ?case using alert_item_keeps [of as_dict loads a] by (force simp: same_alert_def)
  qed simp
  then show "m_alerts m = map PDict as \<Longrightarrow> ?thesis" by (simp add: manager_alerts_def)
qed

lemma same_alert_title: "same_alert a item \<Longrightarrow> signal_title rp isoparse item = signal_title rp isoparse a"
  by (simp add: same_alert_def signal_title_def oget_def dget_or_def)

lemma signals_of_items:
  assumes "list_all2 same_alert as items" "\<forall>a\<in>set as. full_alert a"
  shows "\<exists>signals. bind_result (related_alerts ids items) (map_result (signal_of rp isoparse)) = Inr signals \<and>
    map (\<lambda>s. Inr (sv_title s)) signals =
      map (signal_title rp isoparse) (filter (\<lambda>a. py_in (oget a ''alert_id'') ids) as)"
  using assms
proof (induction rule: list_all2_induct)
  case (Cons a as item items)
  then obtain signals where IH: "bind_result (related_alerts ids items) (map_result (signal_of rp isoparse)) = Inr signals"
    "map (\<lambda>s. Inr (sv_title s)) signals = map (signal_title rp isoparse) (filter (\<lambda>a. py_in (oget a ''alert_id'') ids) as)" by auto
  from Cons.prems obtain s ts tc where keys: "dget a ''alert_id'' = Some (PStr s)" "dget a ''timestamp'' = Some ts" "dget a ''threat_class'' = Some tc"
    by (auto simp: full_alert_def)
  then have item: "dget item ''alert_id'' = Some (PStr s)" "oget a ''alert_id'' = PStr s" using Cons.hyps(1) by (simp_all add: same_alert_def oget_def dget_or_def)
  obtain title where title: "signal_title rp isoparse a = Inr title" using keys by (simp add: signal_title_def)
  obtain rest where rest: "related_alerts ids items = Inr rest" using IH(1) by (auto simp: result_simps)
  have view: "\<exists>v. signal_of rp isoparse item = Inr v \<and> sv_title v = title"
    using title same_alert_title [OF Cons.hyps(1), of rp isoparse] by (simp add: signal_of_def split: prod.split)
  show ?case using IH rest title item view by (auto simp: hashable_def)
qed simp

lemma join_texts_ok: "list_all is_str xs \<Longrightarrow> \<exists>s. join_texts xs = Inr s"
proof -
  assume "list_all is_str xs"
  then have "\<exists>ss. map_result (\<lambda>x. case x of PStr s \<Rightarrow> Inr s | _ \<Rightarrow> Inl TypeError) xs = Inr ss"
    by (induction xs) (auto split: pyval.splits)
  then show ?thesis by (auto simp: join_texts_def)
qed

lemma group_entities_text:
  assumes "grp \<noteq> []" "\<forall>a\<in>set grp. feed_alert a" "\<And>xs. mset (ord xs) = mset xs"
  shows "list_all is_str (i_entities (group_incident rp ord now src grp))"
proof -
  have set_ord: "set (ord xs) = set xs" for xs by (metis assms(3) set_mset_mset)
  have str: "is_str v" if "text_or_null v" "truthy v" for v using that by (auto simp: text_or_null_def)
  have "hd grp \<in> set grp" using assms(1) by simp
  with assms(2) have "text_or_null (dget_or (hd grp) ''destination_ip'' (PStr []))" using feed_alertD(4) by blast
  moreover have "\<forall>a\<in>set grp. text_or_null (oget a ''destination_ip'')" using assms(2) feed_alertD(2) by blast
  ultimately show ?thesis by (auto simp: group_incident_def Let_def set_ord list_all_iff intro: str)
qed

lemma detail_of_incident:
  assumes "m_alerts m = map PDict as" "\<forall>a\<in>set as. full_alert a" "\<And>xs. mset (ord xs) = mset xs"
    and "inc = group_incident rp ord now src (filter (\<lambda>a. src_of a = src) as)" "src \<in> set (map src_of as)"
    and "distinct (map (\<lambda>a. oget a ''alert_id'') as)"
  shows "\<exists>d. incident_detail rp isoparse as_dict loads m inc = Inr d \<and> dv_summary d = ''**Automated Summary**'' @ [CHR 0x0A] @ ''> '' @ i_summary inc \<and>
    map (\<lambda>s. Inr (sv_title s)) (dv_signals d) = map (signal_title rp isoparse) (filter (\<lambda>a. src_of a = src) as)"
proof -
  let ?grp = "filter (\<lambda>a. src_of a = src) as"
  have grp: "?grp \<noteq> []" using assms(5) by (auto simp: filter_empty_conv)
  have feed: "\<forall>a\<in>set ?grp. feed_alert a" using assms(2) by (simp add: full_alert_def)
  have ids: "\<exists>s. oget a ''alert_id'' = PStr s \<and> s \<noteq> []" if "a \<in> set as" for a
    using that assms(2) by (auto simp: full_alert_def oget_def dget_or_def)
  have related: "i_related inc = map (\<lambda>a. oget a ''alert_id'') ?grp"
    unfolding assms(4) group_incident_related by (rule filter_True) (use ids in force)
  have mine: "py_in (oget a ''alert_id'') (i_related inc) \<longleftrightarrow> src_of a = src" if a: "a \<in> set as" for a
  proof -
    obtain s where s: "oget a ''alert_id'' = PStr s" using ids [OF a] by blast
    have "b = a" if "b \<in> set as" "oget b ''alert_id'' = oget a ''alert_id''" for b
      using that a assms(6) by (metis distinct_map inj_onD)
    then have "oget a ''alert_id'' \<in> set (i_related inc) \<longleftrightarrow> src_of a = src"
      using a unfolding related set_map by (auto simp: image_iff)
    then show ?thesis by (simp add: s)
  qed
  have hash: "\<forall>i\<in>set (i_related inc). hashable i"
    unfolding related by (auto simp: hashable_def dest!: ids)
  obtain items where items: "manager_alerts as_dict loads m = Inr items" "list_all2 same_alert as items"
    using manager_alerts_same [OF assms(1)] by blast
  obtain signals where signals: "related_signals rp isoparse as_dict loads m inc = Inr signals"
    "map (\<lambda>s. Inr (sv_title s)) signals = map (signal_title rp isoparse) (filter (\<lambda>a. py_in (oget a ''alert_id'') (i_related inc)) as)"
    using signals_of_items [OF items(2) assms(2), of "i_related inc" rp isoparse] hash
    by (auto simp: related_signals_def items(1))
  obtain sev where "i_severity inc = PStr sev" by (simp add: assms(4) group_incident_def Let_def)
  moreover obtain es where "join_texts (i_entities inc) = Inr es"
    using join_texts_ok [OF group_entities_text [OF grp feed assms(3)]] unfolding assms(4) by blast
  moreover have "filter (\<lambda>a. py_in (oget a ''alert_id'') (i_related inc)) as = ?grp" by (rule filter_cong) (simp_all add: mine)
  ultimately show ?thesis using signals by (simp add: incident_detail_def)
qed

text \<open>C26. Whatever incident an analyst picks, the page shows that incident: its option is labelled with its
  own text; the incident is the group of a source that sent alerts of the page; and the signals are the
  alerts of exactly that source, at least one, each once and in the page's order, however the incidents and
  the sets are ordered. It holds for every page of the API whose alerts have distinct ids and sources free of
  dashes.\<close>

theorem every_incident_opens:
  assumes "m_alerts m = map PDict as" "\<forall>a\<in>set as. full_alert a \<and> CHR ''-'' \<notin> set (src_of a)"
    and "distinct (map (\<lambda>a. oget a ''alert_id'') as)" "\<And>xs. mset (ord xs) = mset xs" "\<And>xs. mset (by_score xs) = mset xs"
    and "get_incidents rp ord now m = Inr incs" "inc \<in> set incs"
  shows "\<exists>k labels d. k < length incs \<and> incident_screen rp by_score isoparse as_dict loads k m incs = Inr (labels, Some d) \<and>
    Inr (labels ! k) = incident_option rp inc \<and>
    (\<exists>src\<in>set (map src_of as). inc = group_incident rp ord now src (filter (\<lambda>a. src_of a = src) as) \<and>
      dv_signals d \<noteq> [] \<and>
      map (\<lambda>s. Inr (sv_title s)) (dv_signals d) = map (signal_title rp isoparse) (filter (\<lambda>a. src_of a = src) as))"
proof -
  let ?df = "by_score incs"
  have feed: "\<forall>a\<in>set as. feed_alert a" and full: "\<forall>a\<in>set as. full_alert a"
    and plain: "\<forall>a\<in>set as. feed_alert a \<and> CHR ''-'' \<notin> set (src_of a)" using assms(2) by (auto simp: full_alert_def)
  have incs: "incs = map (\<lambda>src. group_incident rp ord now src (filter (\<lambda>a. src_of a = src) as)) (uniq (map src_of as))"
    using assms(6) unfolding incidents_by_grouping [OF assms(1) feed] sum.inject by (rule sym)
  have perm: "set ?df = set incs" "length ?df = length incs" by (metis assms(5) set_mset_mset, metis assms(5) size_mset)
  have dist: "distinct (map i_id ?df)"
    using incident_ids_distinct [OF assms(1) plain assms(6)] assms(5) by (metis mset_map mset_eq_imp_distinct_iff)
  have opt: "\<exists>s. incident_option rp i = Inr s" if "i \<in> set incs" for i
    using that unfolding incs by (auto simp: group_incident_def incident_option_def Let_def)
  then have "\<exists>s. format_option rp ?df (i_id i) = Inr s" if "i \<in> set ?df" for i
    using that perm(1) by (simp add: format_option_unique [OF dist])
  then obtain labels where labels: "map_result (format_option rp ?df) (map i_id ?df) = Inr labels"
    "list_all2 (\<lambda>x y. format_option rp ?df x = Inr y) (map i_id ?df) labels"
    using map_result_total [of "map i_id ?df" "format_option rp ?df"] by auto
  obtain k where k: "k < length ?df" "?df ! k = inc" using assms(7) perm(1) by (metis in_set_conv_nth)
  have label: "incident_option rp inc = Inr (labels ! k)"
    using list_all2_nthD [OF labels(2), of k] k format_option_unique [OF dist, of inc rp] nth_mem [OF k(1)] by simp
  have pick: "drop k (map i_id ?df) = i_id inc # drop (Suc k) (map i_id ?df)"
    using k by (metis Cons_nth_drop_Suc length_map nth_map)
  have found: "find (\<lambda>i. i_id i = i_id inc) ?df = Some inc"
    using dist assms(7) perm(1) by (intro find_unique) auto
  obtain src where src: "src \<in> set (map src_of as)" "inc = group_incident rp ord now src (filter (\<lambda>a. src_of a = src) as)"
    using assms(7) unfolding incs by auto
  from detail_of_incident [OF assms(1) full assms(4) src(2,1) assms(3), of isoparse as_dict loads]
  obtain d where d: "incident_detail rp isoparse as_dict loads m inc = Inr d"
    "map (\<lambda>s. Inr (sv_title s)) (dv_signals d) = map (signal_title rp isoparse) (filter (\<lambda>a. src_of a = src) as)" by blast
  have "incident_screen rp by_score isoparse as_dict loads k m incs = Inr (labels, Some d)"
    by (simp add: incident_screen_def Let_def labels(1) pick found d(1))
  moreover have "filter (\<lambda>a. src_of a = src) as \<noteq> []" using src(1) by (auto simp: filter_empty_conv)
  then have "dv_signals d \<noteq> []" using d(2) by force
  ultimately show ?thesis using k(1) perm(2) label d(2) src by auto
qed

definition page_feed :: "obj list" where
  "page_feed = map (\<lambda>a. (''timestamp'', PStr ''t'') # (''threat_class'', PStr ''Scan'') # a) sample_feed"

lemma every_incident_opens_witness:
  "\<exists>incs inc labels d k. inc \<in> set incs \<and>
    incident_screen (\<lambda>_. []) id (\<lambda>_. None) (\<lambda>_. Inl TypeError) (\<lambda>_. Inl ValueError) k (sample_manager\<lparr>m_alerts := map PDict page_feed\<rparr>) incs
      = Inr (labels, Some d) \<and> Inr (labels ! k) = incident_option (\<lambda>_. []) inc"
proof -
  let ?m = "sample_manager\<lparr>m_alerts := map PDict page_feed\<rparr>"
  have alerts: "m_alerts ?m = map PDict page_feed" by simp
  have ok: "\<forall>a\<in>set page_feed. full_alert a \<and> CHR ''-'' \<notin> set (src_of a)"
    by (simp add: page_feed_def sample_feed_def full_alert_def feed_alert_def oget_def dget_or_def text_or_null_def src_of_def alert_source_def py_or_def)
  have ids: "distinct (map (\<lambda>a. oget a ''alert_id'') page_feed)"
    by (simp add: page_feed_def sample_feed_def oget_def dget_or_def)
  have feed: "\<forall>a\<in>set page_feed. feed_alert a" using ok by (simp add: full_alert_def)
  have ord: "\<And>xs. mset (id xs :: pyval list) = mset xs" "\<And>xs. mset (id xs :: incident list) = mset xs" by simp_all
  define incs where "incs = map (\<lambda>src. group_incident (\<lambda>_. []) id (\<lambda>_. []) src (filter (\<lambda>a. src_of a = src) page_feed)) (uniq (map src_of page_feed))"
  have incs: "get_incidents (\<lambda>_. []) id (\<lambda>_. []) ?m = Inr incs" using incidents_by_grouping [OF alerts feed] by (simp add: incs_def)
  have "hd incs \<in> set incs" by (rule hd_in_set) (simp add: incs_def page_feed_def sample_feed_def uniq_def add_new_def)
  with every_incident_opens [OF alerts ok ids ord incs this, of "\<lambda>_. None" "\<lambda>_. Inl TypeError" "\<lambda>_. Inl ValueError"] show ?thesis by blast
qed

end
