(* ===== verification/Investigate.thy ===== *)
theory Investigate
  imports Dashboard
begin

text \<open>
  The search page (\<open>dashboard/pages/4_Investigate.py\<close>): the gates, the hits, their key figures, the timeline
  and the list of the raw evidence. The columns are those of the API's answer; \<open>to_second\<close> is pandas' reading
  of a timestamp, floored to the second, \<open>None\<close> for a null.
\<close>

record investigation =
  iv_found :: nat
  iv_first_seen :: string
  iv_timeline :: "(int \<times> nat) list"
  iv_titles :: "string list"

datatype search_view = NoTerm | NoTelemetry | NoEvidence | Found investigation

text \<open>\<open>groupby\<close> sorts its keys and drops nulls.\<close>

definition timeline :: "int option list \<Rightarrow> (int \<times> nat) list" where
  "timeline ts = map (\<lambda>t. (t, count_list ts (Some t))) (sort (remdups (List.map_filter id ts)))"

definition hit_title :: "py_repr \<Rightarrow> (pyval \<Rightarrow> datetime option) \<Rightarrow> obj \<Rightarrow> string" where
  "hit_title rp isoparse row =
     format_timestamp isoparse (oget row ''timestamp'') @ '' | '' @ py_str rp (oget row ''threat_class'') @ '' | '' @
     py_str rp (oget row ''model_name'')"

definition investigation_of ::
  "py_repr \<Rightarrow> (pyval \<Rightarrow> datetime option) \<Rightarrow> (pyval \<Rightarrow> int option result) \<Rightarrow> obj list \<Rightarrow> investigation result" where
  "investigation_of rp isoparse to_second filtered =
     bind_result (map_result (\<lambda>a. to_second (oget a ''timestamp'')) filtered) (\<lambda>seconds.
       Inr \<lparr>iv_found = length filtered, iv_first_seen = format_timestamp isoparse (oget (hd filtered) ''timestamp''),
            iv_timeline = timeline seconds, iv_titles = map (hit_title rp isoparse) filtered\<rparr>)"

definition search_body ::
  "py_repr \<Rightarrow> (pyval \<Rightarrow> datetime option) \<Rightarrow> (pyval \<Rightarrow> int option result) \<Rightarrow> string \<Rightarrow> obj list \<Rightarrow> search_view result" where
  "search_body rp isoparse to_second search_term alerts =
     (if \<forall>a\<in>set alerts. a = [] then Inr NoTelemetry
      else bind_result (search_alerts search_term alerts) (\<lambda>filtered.
        if filtered = [] then Inr NoEvidence
        else if \<exists>c\<in>{''timestamp'', ''threat_class'', ''model_name''}. \<forall>a\<in>set alerts. dget a c = None then Inl KeyError
        else bind_result (investigation_of rp isoparse to_second filtered) (\<lambda>v. Inr (Found v))))"

definition investigate_page ::
  "py_repr \<Rightarrow> (pyval \<Rightarrow> datetime option) \<Rightarrow> (pyval \<Rightarrow> int option result) \<Rightarrow> (pyval \<Rightarrow> obj result) \<Rightarrow> (string \<Rightarrow> pyval result) \<Rightarrow>
   string \<Rightarrow> manager \<Rightarrow> search_view page \<times> manager" where
  "investigate_page rp isoparse to_second as_dict loads search_term m =
     (let m1 = start_listeners m; status = status_of m1
      in (if \<not> st_healthy status then BrokerUnavailable
          else if search_term = [] then Shown NoTerm
          else (case bind_result (manager_alerts as_dict loads m1) (search_body rp isoparse to_second search_term) of
                  Inl e \<Rightarrow> PageError e
                | Inr v \<Rightarrow> Shown v), m1))"

section \<open>What the search shows\<close>

lemma count_in_filter: "P x \<Longrightarrow> count_list (filter P xs) x = count_list xs x"
  by (induction xs) auto

text \<open>The timeline counts every hit with a timestamp once, in the order of time.\<close>

lemma timeline_sound:
  "sorted_wrt (<) (map fst (timeline ts)) \<and> sum_list (map snd (timeline ts)) = length (filter (\<lambda>t. t \<noteq> None) ts)"
proof
  let ?ks = "sort (remdups (List.map_filter id ts))"
  have dist: "distinct ?ks" by simp
  then show "sorted_wrt (<) (map fst (timeline ts))" by (simp add: timeline_def comp_def strict_sorted_iff)
  have set: "set ?ks = {t. Some t \<in> set ts}" by (force simp: map_filter_def)
  have "sum_list (map snd (timeline ts)) = (\<Sum>t\<in>set ?ks. count_list ts (Some t))"
    using dist by (simp add: timeline_def comp_def sum_list_distinct_conv_sum_set)
  also have "\<dots> = (\<Sum>x\<in>Some ` {t. Some t \<in> set ts}. count_list ts x)" unfolding set by (simp add: sum.reindex)
  also have "Some ` {t. Some t \<in> set ts} = set (filter (\<lambda>t. t \<noteq> None) ts)" by (auto simp: image_iff)
  also have "(\<Sum>x\<in>set (filter (\<lambda>t. t \<noteq> None) ts). count_list ts x) =
      (\<Sum>x\<in>set (filter (\<lambda>t. t \<noteq> None) ts). count_list (filter (\<lambda>t. t \<noteq> None) ts) x)"
    by (rule sum.cong) (auto simp: count_in_filter)
  also have "\<dots> = length (filter (\<lambda>t. t \<noteq> None) ts)" by (rule sum_count_set) simp_all
  finally show "sum_list (map snd (timeline ts)) = length (filter (\<lambda>t. t \<noteq> None) ts)" .
qed

text \<open>A search that comes to an end finds every alert with the term in one of the four columns, and the key figure
  is their number.\<close>

lemma search_body_found:
  assumes "search_body rp isoparse to_second t alerts = Inr (Found v)"
  shows "iv_found v = length (filter (\<lambda>a. PStr t \<in> {oget a ''source_ip'', oget a ''destination_ip'', oget a ''alert_id'', oget a ''flow_id''}) alerts) \<and>
    length (iv_titles v) = iv_found v \<and> 0 < iv_found v"
proof -
  obtain hits where hits: "search_alerts t alerts = Inr hits" "hits \<noteq> []" "investigation_of rp isoparse to_second hits = Inr v"
    using assms by (auto simp: search_body_def result_simps split: if_splits)
  have "hits = filter (\<lambda>a. \<exists>c\<in>set search_columns. py_eq (oget a c) (PStr t)) alerts"
    using hits(1,2) by (auto simp: search_alerts_def split: if_splits)
  moreover have "(\<exists>c\<in>set search_columns. py_eq (oget a c) (PStr t)) \<longleftrightarrow>
      PStr t \<in> {oget a ''source_ip'', oget a ''destination_ip'', oget a ''alert_id'', oget a ''flow_id''}" for a
    by (auto simp: search_columns_def)
  ultimately have "hits = filter (\<lambda>a. PStr t \<in> {oget a ''source_ip'', oget a ''destination_ip'', oget a ''alert_id'', oget a ''flow_id''}) alerts"
    by simp
  then show ?thesis using hits(2,3) by (auto simp: investigation_of_def result_simps)
qed

text \<open>The figure \<open>First Seen in Window\<close> is the timestamp of the first hit. The page of the API is newest first, so
  it is the last time the term was seen.\<close>

lemma first_seen_is_latest:
  assumes "descending page" "search_alerts t (map g page) = Inr (h # hs)"
  shows "\<exists>r\<in>set page. h = g r \<and> (\<forall>r'\<in>set page. (\<exists>c\<in>set search_columns. py_eq (oget (g r') c) (PStr t)) \<longrightarrow> fst r' \<le> fst r)"
proof -
  let ?P = "\<lambda>r. \<exists>c\<in>set search_columns. py_eq (oget (g r) c) (PStr t)"
  have "map g (filter ?P page) = h # hs"
    using assms(2) by (auto simp: search_alerts_def filter_map comp_def split: if_splits)
  then obtain r rs where r: "filter ?P page = r # rs" "h = g r" by (cases "filter ?P page") auto
  have "descending (filter ?P page)" using assms(1) by (rule sorted_wrt_filter)
  then have "\<forall>r'\<in>set (filter ?P page). fst r' \<le> fst r" unfolding r(1) by auto
  then have newest: "\<forall>r'\<in>set page. ?P r' \<longrightarrow> fst r' \<le> fst r" unfolding set_filter by blast
  have "r \<in> set (filter ?P page)" unfolding r(1) by simp
  then have "r \<in> set page" by simp
  with newest r(2) show ?thesis by blast
qed

text \<open>The page asks for an address, a domain or an id, but no column holds a domain.\<close>

definition dns_alert :: obj where
  "dns_alert = [(''alert_id'', PStr ''A''), (''flow_id'', PNone), (''source_ip'', PStr ''10.0.0.5''), (''destination_ip'', PNone),
     (''evidence'', PDict [(''query'', PStr ''evil.com'')])]"

lemma domain_not_found: "search_alerts ''evil.com'' [dns_alert] = Inr []"
  by (simp add: search_alerts_def search_columns_def dns_alert_def)

text \<open>The buffers the pages speak of: a poll holds at most the hundred alerts it asked for, so the gauge of a
  thousand never passes a tenth and that of the incidents, which counts alerts, half.\<close>

lemma gauges_never_fill:
  "length (m_alerts m) \<le> 100 \<Longrightarrow>
   h_alert_pct (health_of now (status_of m)) \<le> 10 \<and> h_incident_pct (health_of now (status_of m)) \<le> 50"
  by (simp add: health_of_def status_of_def buffer_pct_def)

text \<open>The notice of an unavailable pipeline says that the last known state is shown; the page stops instead,
  whatever it still holds.\<close>

lemma unavailable_shows_nothing:
  "\<not> m_healthy m \<Longrightarrow> fst (incident_page rp ord now body m) = BrokerUnavailable \<and>
   fst (investigate_page rp isoparse to_second as_dict loads t m) = BrokerUnavailable"
  by (simp add: incident_page_def investigate_page_def Let_def status_of_def start_listeners_def)

end
