(* ===== verification/Ingest.thy ===== *)
theory Ingest
  imports Schemas
begin

text \<open>
  The two sources of real traffic: \<open>ingest/tail_to_redpanda.py\<close>, which tails a Zeek log, and
  \<open>ingest/pcap_ingester.py\<close>, which assembles flows from captured packets. Both are folds of a step
  function, over the lines \<open>tail -F\<close> delivers and over the packets of the capture.
\<close>

section \<open>The log tailer\<close>

text \<open>What surrounds one line: how it decodes, the clock, and how the two sends end.\<close>

record line_env =
  le_loads :: "string \<Rightarrow> pyval result"
  le_now :: real
  le_send :: "exc option"
  le_dead_send :: "exc option"
  le_text :: "exc \<Rightarrow> string"

text \<open>The threads of the tailer, one per log, share the dictionary \<open>metrics\<close> and the producer; a thread whose
  loop ended is among \<open>t_stopped\<close> by its log type.\<close>

record tailer =
  t_read :: nat
  t_published :: nat
  t_rejected :: nat
  t_dead :: nat
  t_raw :: "obj list"
  t_dlq :: "obj list"
  t_stopped :: "string list"

text \<open>A line as it comes to one of the threads: its log type, its surroundings and its text.\<close>

type_synonym log_line = "string \<times> line_env \<times> string"

definition ingest_event :: "real \<Rightarrow> string \<Rightarrow> string \<Rightarrow> obj \<Rightarrow> obj" where
  "ingest_event now sensor log_type event =
     dset ''event_type'' (PStr log_type) (dset ''sensor_id'' (PStr sensor) (dset ''ingestion_timestamp'' (PFloat (Fin now)) event))"

text \<open>The \<open>try\<close> block: \<open>json.loads\<close>, the schema check, the stamps, the send. A value that is no object fails
  the schema check.\<close>

definition publish_line :: "line_env \<Rightarrow> string \<Rightarrow> string \<Rightarrow> string \<Rightarrow> obj result" where
  "publish_line e sensor log_type line =
     bind_result (le_loads e line) (\<lambda>v.
       if \<not> validate_zeek_event v then Inl ValueError
       else (case v of
               PDict event \<Rightarrow>
                 (case le_send e of
                    None \<Rightarrow> Inr (ingest_event (le_now e) sensor log_type event)
                  | Some x \<Rightarrow> Inl x)
             | _ \<Rightarrow> Inl TypeError))"

definition dead_letter :: "line_env \<Rightarrow> string \<Rightarrow> string \<Rightarrow> exc \<Rightarrow> obj" where
  "dead_letter e sensor line x =
     [(''raw_payload'', PStr line), (''error'', PStr (le_text e x)), (''sensor_id'', PStr sensor),
      (''timestamp'', PFloat (Fin (le_now e)))]"

text \<open>One turn of the loop for a line that was read; a blank line is only counted. The \<open>ValueError\<close>
  branch covers \<open>JSONDecodeError\<close>. An exception of the dead-letter send leaves the loop. The turns of
  the threads follow one another, each with its increments of \<open>metrics\<close> undisturbed; what happens when
  two increments overlap is shown with \<open>overlapping\<close> below.\<close>

definition process_line :: "string \<Rightarrow> tailer \<Rightarrow> log_line \<Rightarrow> tailer" where
  "process_line sensor t el =
     (case el of (log_type, e, raw) \<Rightarrow>
        if log_type \<in> set (t_stopped t) \<or> raw = [] then t
        else
          (let t1 = t\<lparr>t_read := Suc (t_read t)\<rparr>; line = py_strip raw in
           if line = [] then t1
           else
             (case publish_line e sensor log_type line of
                Inr event \<Rightarrow> t1\<lparr>t_raw := t_raw t1 @ [event], t_published := Suc (t_published t1)\<rparr>
              | Inl x \<Rightarrow>
                  (let t2 = t1\<lparr>t_rejected := Suc (t_rejected t1)\<rparr> in
                   if x = ValueError then
                     (case le_dead_send e of
                        None \<Rightarrow> t2\<lparr>t_dlq := t_dlq t2 @ [dead_letter e sensor line x], t_dead := Suc (t_dead t2)\<rparr>
                      | Some _ \<Rightarrow> t2\<lparr>t_stopped := log_type # t_stopped t2\<rparr>)
                   else t2))))"

definition new_tailer :: tailer where
  "new_tailer = \<lparr>t_read = 0, t_published = 0, t_rejected = 0, t_dead = 0, t_raw = [], t_dlq = [], t_stopped = []\<rparr>"

definition LOG_TYPES :: "string list" where
  "LOG_TYPES = [''conn'', ''dns'', ''ssl'']"

definition log_targets :: "(string \<Rightarrow> string \<Rightarrow> string) \<Rightarrow> string \<Rightarrow> (string, string) pydict" where
  "log_targets path_join logs_dir = map (\<lambda>ty. (ty, path_join logs_dir (ty @ ''.log''))) LOG_TYPES"

section \<open>The packet ingester\<close>

text \<open>A packet as the loop reads it: its length, its addresses when it has an IP layer, and protocol and
  ports when TCP or UDP is on top.\<close>

record packet =
  p_len :: nat
  p_ip :: "(string \<times> string) option"
  p_layer :: "(string \<times> int \<times> int) option"
  p_time :: real

record flow =
  f_start :: real
  f_orig_pkts :: nat
  f_orig_bytes :: nat
  f_resp_pkts :: nat
  f_resp_bytes :: nat
  f_duration :: real
  f_src :: string
  f_sport :: int
  f_dst :: string
  f_dport :: int
  f_proto :: string

definition MAX_FLOWS :: nat where
  "MAX_FLOWS = 50000"

definition MAX_PACKET_BYTES :: nat where
  "MAX_PACKET_BYTES = 65535"

definition flow_key :: "string \<Rightarrow> int \<Rightarrow> string \<Rightarrow> int \<Rightarrow> string \<Rightarrow> string" where
  "flow_key src sport dst dport proto =
     src @ '':'' @ str_of_int sport @ ''-'' @ dst @ '':'' @ str_of_int dport @ ''-'' @ proto"

definition flow_payload :: "flow \<Rightarrow> obj" where
  "flow_payload f =
     [(''orig_pkts'', PInt (int (f_orig_pkts f))), (''orig_bytes'', PInt (int (f_orig_bytes f))),
      (''resp_pkts'', PInt (int (f_resp_pkts f))), (''resp_bytes'', PInt (int (f_resp_bytes f))),
      (''duration'', PFloat (Fin (f_duration f))), (''id.orig_h'', PStr (f_src f)), (''id.orig_p'', PInt (f_sport f)),
      (''id.resp_h'', PStr (f_dst f)), (''id.resp_p'', PInt (f_dport f)), (''proto'', PStr (f_proto f)),
      (''service'', PStr ''unknown''), (''conn_state'', PStr ''SF'')]"

definition new_flow :: "real \<Rightarrow> string \<Rightarrow> int \<Rightarrow> string \<Rightarrow> int \<Rightarrow> string \<Rightarrow> flow" where
  "new_flow pkt_time src sport dst dport proto =
     \<lparr>f_start = pkt_time, f_orig_pkts = 0, f_orig_bytes = 0, f_resp_pkts = 0, f_resp_bytes = 0, f_duration = 0,
      f_src = src, f_sport = sport, f_dst = dst, f_dport = dport, f_proto = proto\<rparr>"

type_synonym flows = "(string, flow) pydict"

text \<open>A packet of the reverse direction counts as a response of the flow it answers.\<close>

definition add_response :: "real \<Rightarrow> nat \<Rightarrow> flow \<Rightarrow> flow" where
  "add_response pkt_time pkt_len f =
     f\<lparr>f_resp_pkts := Suc (f_resp_pkts f), f_resp_bytes := f_resp_bytes f + pkt_len, f_duration := pkt_time - f_start f\<rparr>"

definition add_request :: "real \<Rightarrow> nat \<Rightarrow> flow \<Rightarrow> flow" where
  "add_request pkt_time pkt_len f =
     f\<lparr>f_orig_pkts := Suc (f_orig_pkts f), f_orig_bytes := f_orig_bytes f + pkt_len, f_duration := pkt_time - f_start f\<rparr>"

definition track :: "string \<times> string \<Rightarrow> string \<times> int \<times> int \<Rightarrow> real \<Rightarrow> nat \<Rightarrow> flows \<Rightarrow> flows" where
  "track ips layer pkt_time pkt_len flows =
     (case (ips, layer) of ((src, dst), (proto, sport, dport)) \<Rightarrow>
        let key = flow_key src sport dst dport proto; reverse_key = flow_key dst dport src sport proto in
        (case dget flows reverse_key of
           Some f \<Rightarrow> dset reverse_key (add_response pkt_time pkt_len f) flows
         | None \<Rightarrow>
             (let f = (case dget flows key of Some f \<Rightarrow> f | None \<Rightarrow> new_flow pkt_time src sport dst dport proto)
              in dset key (add_request pkt_time pkt_len f) flows)))"

text \<open>What \<open>producer.send\<close> took, in order: the periodic snapshots, which keep \<open>start_time\<close>, and the final payload
  of a flow that leaves the table. \<open>_emit_flow\<close> drops a payload over 5 MB or that the broker refuses.\<close>

record ingester =
  g_packets :: nat
  g_flows :: flows
  g_sent :: "obj list"

definition emit_flow :: "(obj \<Rightarrow> bool) \<Rightarrow> obj \<Rightarrow> obj list \<Rightarrow> obj list" where
  "emit_flow sendable payload sent = (if sendable payload then sent @ [payload] else sent)"

definition snapshot :: "flow \<Rightarrow> obj" where
  "snapshot f = (''start_time'', PFloat (Fin (f_start f))) # flow_payload f"

definition emit_periodic :: "(obj \<Rightarrow> bool) \<Rightarrow> ingester \<Rightarrow> ingester" where
  "emit_periodic sendable g =
     (if g_packets g mod 500 = 0 then
        g\<lparr>g_sent := fold (emit_flow sendable) (map (\<lambda>(k, f). snapshot f) (g_flows g)) (g_sent g)\<rparr>
      else g)"

fun evict :: "(obj \<Rightarrow> bool) \<Rightarrow> (string \<times> flow) list \<Rightarrow> ingester \<Rightarrow> ingester" where
  "evict sendable [] g = g"
| "evict sendable ((key, f) # old) g =
     evict sendable old
       (g\<lparr>g_flows := ddel key (g_flows g), g_sent := emit_flow sendable (flow_payload f) (g_sent g)\<rparr>)"

definition bound_flows :: "(obj \<Rightarrow> bool) \<Rightarrow> ingester \<Rightarrow> ingester" where
  "bound_flows sendable g =
     (if length (g_flows g) > MAX_FLOWS then
        (let oldest_first = sort_key (\<lambda>kv. f_start (snd kv)) (g_flows g)
         in evict sendable (take (length (g_flows g) - MAX_FLOWS) oldest_first) g)
      else g)"

definition ingest_packet :: "(obj \<Rightarrow> bool) \<Rightarrow> ingester \<Rightarrow> packet \<Rightarrow> ingester" where
  "ingest_packet sendable g pkt =
     (let g1 = g\<lparr>g_packets := Suc (g_packets g)\<rparr> in
      if p_len pkt > MAX_PACKET_BYTES then g1
      else
        (case (p_ip pkt, p_layer pkt) of
           (Some ips, Some layer) \<Rightarrow>
             bound_flows sendable (emit_periodic sendable
               (g1\<lparr>g_flows := track ips layer (p_time pkt) (p_len pkt) (g_flows g1)\<rparr>))
         | _ \<Rightarrow> g1))"

definition new_ingester :: ingester where
  "new_ingester = \<lparr>g_packets = 0, g_flows = [], g_sent = []\<rparr>"

definition final_flush :: "(obj \<Rightarrow> bool) \<Rightarrow> ingester \<Rightarrow> ingester" where
  "final_flush sendable g =
     g\<lparr>g_sent := fold (emit_flow sendable) (map (\<lambda>(k, f). flow_payload f) (g_flows g)) (g_sent g)\<rparr>"

text \<open>The whole capture: an exception of the reader after \<open>pkts\<close> ends the run without the final flush.\<close>

definition ingest_pcap :: "(obj \<Rightarrow> bool) \<Rightarrow> packet list \<Rightarrow> bool \<Rightarrow> ingester" where
  "ingest_pcap sendable pkts reader_failed =
     (let g = foldl (ingest_packet sendable) new_ingester pkts
      in if reader_failed then g else final_flush sendable g)"

section \<open>Every line is routed\<close>

text \<open>What becomes of a line, as a specification: a blank one yields nothing, one that is published yields
  its event, one that does not decode or validate its dead letter, and one whose send fails in any other
  way is lost, with a line on the console.\<close>

definition line_events :: "string \<Rightarrow> log_line \<Rightarrow> obj list" where
  "line_events sensor el =
     (case el of (log_type, e, raw) \<Rightarrow>
        if py_strip raw = [] then []
        else (case publish_line e sensor log_type (py_strip raw) of Inr ev \<Rightarrow> [ev] | Inl _ \<Rightarrow> []))"

definition line_dead :: "string \<Rightarrow> log_line \<Rightarrow> obj list" where
  "line_dead sensor el =
     (case el of (log_type, e, raw) \<Rightarrow>
        if py_strip raw = [] then []
        else (case publish_line e sensor log_type (py_strip raw) of
                Inl ValueError \<Rightarrow> [dead_letter e sensor (py_strip raw) ValueError] | _ \<Rightarrow> []))"

definition line_lost :: "string \<Rightarrow> log_line \<Rightarrow> bool" where
  "line_lost sensor el =
     (case el of (log_type, e, raw) \<Rightarrow>
        py_strip raw \<noteq> [] \<and> (case publish_line e sensor log_type (py_strip raw) of Inl x \<Rightarrow> x \<noteq> ValueError | Inr _ \<Rightarrow> False))"

definition line_read :: "log_line \<Rightarrow> bool" where
  "line_read el = (case el of (log_type, e, raw) \<Rightarrow> raw \<noteq> [])"

lemma py_strip_Nil [simp]: "py_strip [] = []"
  by (simp add: py_strip_def lstrip_def rstrip_def)

definition line_effect :: "string \<Rightarrow> log_line \<Rightarrow> tailer \<Rightarrow> tailer" where
  "line_effect sensor el t =
     \<lparr>t_read = t_read t + (if line_read el then 1 else 0), t_published = t_published t + length (line_events sensor el),
      t_rejected = t_rejected t + length (line_dead sensor el) + (if line_lost sensor el then 1 else 0),
      t_dead = t_dead t + length (line_dead sensor el), t_raw = t_raw t @ line_events sensor el,
      t_dlq = t_dlq t @ line_dead sensor el, t_stopped = t_stopped t\<rparr>"

lemma process_line_routes:
  assumes "t_stopped t = []" "le_dead_send (fst (snd el)) = None"
  shows "process_line sensor t el = line_effect sensor el t"
proof -
  obtain ty e raw where el: "el = (ty, e, raw)" by (cases el)
  show ?thesis
  proof (cases "py_strip raw = []")
    case True
    with assms(1) show ?thesis
      by (auto simp: el process_line_def line_effect_def line_read_def line_events_def line_dead_def line_lost_def Let_def)
  next
    case False
    then have "raw \<noteq> []" by auto
    note defs = el process_line_def line_effect_def line_read_def line_events_def line_dead_def line_lost_def Let_def
    show ?thesis
    proof (cases "publish_line e sensor ty (py_strip raw)")
      case (Inl x)
      with False \<open>raw \<noteq> []\<close> assms show ?thesis by (cases x) (simp_all add: defs)
    next
      case (Inr ev)
      with False \<open>raw \<noteq> []\<close> assms show ?thesis by (simp add: defs)
    qed
  qed
qed

lemma process_lines_route:
  "t_stopped t = [] \<Longrightarrow> \<forall>el\<in>set els. le_dead_send (fst (snd el)) = None \<Longrightarrow>
   foldl (process_line sensor) t els =
     \<lparr>t_read = t_read t + length (filter line_read els),
      t_published = t_published t + length (concat (map (line_events sensor) els)),
      t_rejected = t_rejected t + length (concat (map (line_dead sensor) els)) + length (filter (line_lost sensor) els),
      t_dead = t_dead t + length (concat (map (line_dead sensor) els)),
      t_raw = t_raw t @ concat (map (line_events sensor) els), t_dlq = t_dlq t @ concat (map (line_dead sensor) els), t_stopped = []\<rparr>"
proof (induction els arbitrary: t)
  case (Cons el els)
  have "t_stopped (line_effect sensor el t) = []" using Cons.prems(1) by (simp add: line_effect_def)
  with Cons process_line_routes [of t el sensor] show ?case by (simp add: line_effect_def)
qed simp

text \<open>The counters agree with the topics at every moment, whatever fails.\<close>

definition published_ok :: "string \<Rightarrow> string \<Rightarrow> obj \<Rightarrow> bool" where
  "published_ok sensor log_type ev \<longleftrightarrow>
     ''ts'' \<in> set (dkeys ev) \<and> oget ev ''event_type'' = PStr log_type \<and> oget ev ''sensor_id'' = PStr sensor"

definition tailer_ok :: "tailer \<Rightarrow> bool" where
  "tailer_ok t \<longleftrightarrow> t_published t + t_rejected t \<le> t_read t \<and> length (t_raw t) = t_published t \<and>
     length (t_dlq t) = t_dead t \<and> t_dead t + length (t_stopped t) \<le> t_rejected t"

lemma ingest_event_ok: "''ts'' \<in> set (dkeys event) \<Longrightarrow> published_ok sensor log_type (ingest_event now sensor log_type event)"
  by (simp add: published_ok_def ingest_event_def)

lemma published_line_ok:
  assumes "publish_line e sensor log_type line = Inr ev"
  shows "published_ok sensor log_type ev"
proof -
  from assms obtain v where v: "le_loads e line = Inr v" "validate_zeek_event v"
    by (auto simp: publish_line_def result_simps split: if_splits)
  then obtain event where "v = PDict event" "''ts'' \<in> set (dkeys event)"
    by (cases v) (auto simp: validate_zeek_event_def)
  with v assms show ?thesis
    by (simp add: publish_line_def ingest_event_ok split: option.splits) (metis ingest_event_ok set_map)
qed

lemma tailer_ok_step: "tailer_ok t \<Longrightarrow> tailer_ok (process_line sensor t el)"
  by (cases el) (simp add: process_line_def tailer_ok_def Let_def split: sum.split option.split)

interpretation tailing: machine "process_line sensor" tailer_ok for sensor
  by unfold_locales (rule tailer_ok_step)

lemma counters_agree: "tailer_ok (foldl (process_line sensor) new_tailer els)"
  by (rule tailing.run_inv) (simp add: tailer_ok_def new_tailer_def)

lemma one_fate:
  "(if (case el of (ty, e, raw) \<Rightarrow> py_strip raw = []) then 1 else 0) + length (line_events sensor el) +
    length (line_dead sensor el) + (if line_lost sensor el then 1 else 0) = 1"
proof -
  obtain ty e raw where el: "el = (ty, e, raw)" by (cases el)
  note defs = el line_events_def line_dead_def line_lost_def
  show ?thesis
  proof (cases "publish_line e sensor ty (py_strip raw)")
    case (Inl x)
    then show ?thesis by (cases x) (simp_all add: defs)
  qed (simp add: defs)
qed

text \<open>C20. Every line of the logs is accounted for. However the lines of the three logs come to their
  threads, as long as the dead-letter topic takes its messages no thread ends; what is published is exactly the
  events of the lines that decode, carry a timestamp and are sent, in order; what is dead-lettered is exactly the
  lines that do not decode or validate; a line whose send fails in another way is lost and only counted as
  rejected. A line is blank, published, dead-lettered or lost, and the shared counters say how many of each;
  and whatever a line claims about its type or its sensor, the event carries its thread's. Each turn's
  increments are taken as undisturbed.\<close>

theorem tailer_routes_every_line:
  fixes sensor
  assumes "\<forall>el\<in>set els. le_dead_send (fst (snd el)) = None"
  defines "t \<equiv> foldl (process_line sensor) new_tailer els"
  shows "t_stopped t = [] \<and> t_raw t = concat (map (line_events sensor) els) \<and>
    t_dlq t = concat (map (line_dead sensor) els) \<and>
    t_read t = length (filter line_read els) \<and> t_published t = length (t_raw t) \<and> t_dead t = length (t_dlq t) \<and>
    t_rejected t = t_dead t + length (filter (line_lost sensor) els) \<and>
    length els = length (filter (\<lambda>(ty, e, raw). py_strip raw = []) els) + t_published t + t_dead t + length (filter (line_lost sensor) els) \<and>
    (\<forall>(ty, e, raw)\<in>set els. list_all (published_ok sensor ty) (line_events sensor (ty, e, raw)))"
proof -
  have t: "t = \<lparr>t_read = length (filter line_read els), t_published = length (concat (map (line_events sensor) els)),
      t_rejected = length (concat (map (line_dead sensor) els)) + length (filter (line_lost sensor) els),
      t_dead = length (concat (map (line_dead sensor) els)),
      t_raw = concat (map (line_events sensor) els), t_dlq = concat (map (line_dead sensor) els), t_stopped = []\<rparr>"
    using process_lines_route [of new_tailer els sensor] assms(1) unfolding t_def by (simp add: new_tailer_def)
  have "length els = length (filter (\<lambda>(ty, e, raw). py_strip raw = []) els) + length (concat (map (line_events sensor) els)) +
      length (concat (map (line_dead sensor) els)) + length (filter (line_lost sensor) els)"
  proof (induction els)
    case (Cons el els)
    show ?case using Cons one_fate [of el sensor] by (simp split: if_splits)
  qed simp
  moreover have "list_all (published_ok sensor ty) (line_events sensor (ty, e, raw))" for ty e raw
    by (auto simp: line_events_def dest: published_line_ok split: sum.splits)
  ultimately show ?thesis by (simp add: t case_prod_unfold)
qed

definition sample_line :: "pyval result \<Rightarrow> exc option \<Rightarrow> line_env" where
  "sample_line v send = \<lparr>le_loads = (\<lambda>_. v), le_now = 0, le_send = send, le_dead_send = None, le_text = (\<lambda>_. [])\<rparr>"

text \<open>Two logs: a connection is published, a line does not decode, the send of a query fails.\<close>

definition sample_lines :: "log_line list" where
  "sample_lines = [(''conn'', sample_line (Inr (PDict [(''ts'', PInt 1), (''event_type'', PStr ''dns'')])) None, ''{}''),
     (''dns'', sample_line (Inl ValueError) None, ''x''), (''dns'', sample_line (Inr (PDict [(''ts'', PInt 1)])) (Some RuntimeError), ''{}'')]"

lemma sample_fates:
  "length (line_events ''s1'' (''conn'', sample_line (Inr (PDict [(''ts'', PInt 1), (''event_type'', PStr ''dns'')])) None, ''{}'')) = 1"
  "line_dead ''s1'' (''dns'', sample_line (Inl ValueError) None, ''x'') = [dead_letter (sample_line (Inl ValueError) None) ''s1'' ''x'' ValueError]"
  "line_lost ''s1'' (''dns'', sample_line (Inr (PDict [(''ts'', PInt 1)])) (Some RuntimeError), ''{}'')"
proof -
  have strip: "py_strip ''{}'' = ''{}''" "py_strip ''x'' = ''x''" by code_simp+
  have "\<exists>ev. publish_line (sample_line (Inr (PDict [(''ts'', PInt 1), (''event_type'', PStr ''dns'')])) None) ''s1'' ''conn'' ''{}'' = Inr ev"
    "publish_line (sample_line (Inl ValueError) None) ''s1'' ''dns'' ''x'' = Inl ValueError"
    "publish_line (sample_line (Inr (PDict [(''ts'', PInt 1)])) (Some RuntimeError)) ''s1'' ''dns'' ''{}'' = Inl RuntimeError"
    by (simp_all add: publish_line_def sample_line_def validate_zeek_event_def)
  then show "length (line_events ''s1'' (''conn'', sample_line (Inr (PDict [(''ts'', PInt 1), (''event_type'', PStr ''dns'')])) None, ''{}'')) = 1"
    "line_dead ''s1'' (''dns'', sample_line (Inl ValueError) None, ''x'') = [dead_letter (sample_line (Inl ValueError) None) ''s1'' ''x'' ValueError]"
    "line_lost ''s1'' (''dns'', sample_line (Inr (PDict [(''ts'', PInt 1)])) (Some RuntimeError), ''{}'')"
    unfolding line_events_def line_dead_def line_lost_def by (auto simp: strip)
qed

theorem tailer_routes_every_line_witness:
  "t_stopped (foldl (process_line ''s1'') new_tailer sample_lines) = [] \<and>
   length (t_raw (foldl (process_line ''s1'') new_tailer sample_lines)) \<ge> 1 \<and>
   t_rejected (foldl (process_line ''s1'') new_tailer sample_lines) \<ge> 2"
proof -
  have ok: "\<forall>el\<in>set sample_lines. le_dead_send (fst (snd el)) = None" by (simp add: sample_lines_def sample_line_def)
  have l: "length (concat (map (line_events ''s1'') sample_lines)) \<ge> 1" "length (concat (map (line_dead ''s1'') sample_lines)) \<ge> 1"
    "length (filter (line_lost ''s1'') sample_lines) \<ge> 1"
    unfolding sample_lines_def by (simp_all add: sample_fates)
  let ?t = "foldl (process_line ''s1'') new_tailer sample_lines"
  have r: "t_stopped ?t = []" "t_raw ?t = concat (map (line_events ''s1'') sample_lines)" "t_dlq ?t = concat (map (line_dead ''s1'') sample_lines)"
    "t_dead ?t = length (t_dlq ?t)" "t_rejected ?t = t_dead ?t + length (filter (line_lost ''s1'') sample_lines)"
    using tailer_routes_every_line [OF ok, of "''s1''"] by blast+
  have "2 \<le> t_rejected ?t" unfolding r(5,4,3) using l(2,3) by linarith
  then show ?thesis unfolding r(1,2) using l(1) by blast
qed

text \<open>A dead letter that cannot be sent ends the thread: the lines of its log after it are never read.\<close>

lemma dead_send_stops_tail:
  assumes "ty \<notin> set (t_stopped t)" "py_strip raw \<noteq> []" "publish_line e sensor ty (py_strip raw) = Inl ValueError" "le_dead_send e = Some x"
  shows "\<forall>el\<in>set els. fst el = ty \<Longrightarrow>
    foldl (process_line sensor) (process_line sensor t (ty, e, raw)) els = process_line sensor t (ty, e, raw)"
proof -
  have "raw \<noteq> []" using assms(2) by auto
  with assms have s: "ty \<in> set (t_stopped (process_line sensor t (ty, e, raw)))" by (simp add: process_line_def Let_def)
  have "ty \<in> set (t_stopped u) \<Longrightarrow> \<forall>el\<in>set els. fst el = ty \<Longrightarrow> foldl (process_line sensor) u els = u" for u
    by (induction els arbitrary: u) (auto simp: process_line_def split: prod.splits)
  with s show "\<forall>el\<in>set els. fst el = ty \<Longrightarrow>
    foldl (process_line sensor) (process_line sensor t (ty, e, raw)) els = process_line sensor t (ty, e, raw)" by blast
qed

subsection \<open>Increments that overlap\<close>

text \<open>\<open>metrics[k] += 1\<close> reads the entry and then writes it, without a lock; the threads may be switched in
  between. One counter, with what each thread has read.\<close>

datatype micro = Load nat | Store nat

type_synonym cell = "nat \<times> (nat \<Rightarrow> nat)"

fun micro_step :: "cell \<Rightarrow> micro \<Rightarrow> cell" where
  "micro_step (c, r) (Load i) = (c, r(i := c))"
| "micro_step (c, r) (Store i) = (Suc (r i), r)"

definition increments :: "nat list \<Rightarrow> micro list" where
  "increments is = concat (map (\<lambda>i. [Load i, Store i]) is)"

text \<open>Undisturbed increments are counted, each once; of two that overlap one is lost.\<close>

lemma undisturbed: "fst (foldl micro_step (c, r) (increments is)) = c + length is"
  by (induction "is" arbitrary: c r) (simp_all add: increments_def)

lemma overlapping: "fst (foldl micro_step (0, \<lambda>_. 0) [Load 0, Load 1, Store 0, Store 1]) = 1"
  by simp

section \<open>No packet is lost or counted twice\<close>

definition flow_sum :: "(flow \<Rightarrow> nat) \<Rightarrow> flows \<Rightarrow> nat" where
  "flow_sum h d = sum_list (map (\<lambda>(k, f). h f) d)"

lemma flow_sum_Nil [simp]: "flow_sum h [] = 0"
  by (simp add: flow_sum_def)

lemma flow_sum_Cons [simp]: "flow_sum h ((k, f) # d) = h f + flow_sum h d"
  by (simp add: flow_sum_def)

lemma flow_sum_dset:
  "flow_sum h (dset k v d) + (case dget d k of Some w \<Rightarrow> h w | None \<Rightarrow> 0) = flow_sum h d + h v"
  by (induction d) (auto split: option.splits)

lemma flow_sum_ddel:
  "distinct (dkeys d) \<Longrightarrow> dget d k = Some w \<Longrightarrow> flow_sum h (ddel k d) + h w = flow_sum h d"
proof (induction d)
  case (Cons p d)
  obtain j f where p: "p = (j, f)" by (cases p)
  show ?case
  proof (cases "j = k")
    case True
    with Cons.prems p have "k \<notin> set (dkeys d)" by auto
    with True Cons.prems p show ?thesis by simp
  next
    case False
    with Cons p show ?thesis by simp
  qed
qed simp

text \<open>The final payloads among what was sent: those without a start time.\<close>

definition finals :: "obj list \<Rightarrow> obj list" where
  "finals sent = filter (\<lambda>p. dget p ''start_time'' = None) sent"

lemma finals_simps [simp]:
  "finals [] = []" "finals (emit_flow sendable (snapshot f) sent) = finals sent"
  "finals (emit_flow sendable (flow_payload f) sent) = finals sent @ (if sendable (flow_payload f) then [flow_payload f] else [])"
  by (simp_all add: finals_def emit_flow_def snapshot_def flow_payload_def)

lemma finals_snapshots [simp]: "finals (fold (emit_flow sendable) (map (\<lambda>(k, f). snapshot f) d) sent) = finals sent"
  by (induction d arbitrary: sent) auto

lemma finals_flush:
  "finals (fold (emit_flow sendable) (map (\<lambda>(k, f). flow_payload f) d) sent) =
     finals sent @ filter sendable (map (\<lambda>(k, f). flow_payload f) d)"
  by (induction d arbitrary: sent) auto

text \<open>A measure of a flow that starts at zero and to which every packet adds its share, and that can be read
  off the payload of the flow.\<close>

locale flow_measure =
  fixes h :: "flow \<Rightarrow> nat" and share :: "nat \<Rightarrow> nat" and told :: "obj \<Rightarrow> nat"
  assumes fresh: "h (new_flow t src sport dst dport proto) = 0"
    and request: "h (add_request t l f) = h f + share l"
    and response: "h (add_response t l f) = h f + share l"
    and payload: "told (flow_payload f) = h f"
begin

lemma track_sum: "flow_sum h (track ips layer t l flows) = flow_sum h flows + share l"
proof -
  obtain src dst proto sport dport where e: "ips = (src, dst)" "layer = (proto, sport, dport)"
    by (metis prod_cases3 surj_pair)
  let ?k = "flow_key src sport dst dport proto" and ?r = "flow_key dst dport src sport proto"
  show ?thesis
  proof (cases "dget flows ?r")
    case (Some f)
    then show ?thesis using flow_sum_dset [of h ?r "add_response t l f" flows]
      by (simp add: e track_def Let_def response)
  next
    case None
    then show ?thesis
      using flow_sum_dset [of h ?k "add_request t l (case dget flows ?k of Some f \<Rightarrow> f | None \<Rightarrow> new_flow t src sport dst dport proto)" flows]
      by (simp add: e track_def Let_def request fresh split: option.splits)
  qed
qed

definition total :: "ingester \<Rightarrow> nat" where
  "total g = flow_sum h (g_flows g) + sum_list (map told (finals (g_sent g)))"

lemma evict_total:
  "distinct (dkeys (g_flows g)) \<Longrightarrow> distinct (dkeys old) \<Longrightarrow> \<forall>(k, f)\<in>set old. dget (g_flows g) k = Some f \<Longrightarrow>
   total (evict (\<lambda>_. True) old g) = total g"
proof (induction old arbitrary: g)
  case (Cons p old)
  obtain key f where p: "p = (key, f)" by (cases p)
  let ?g = "g\<lparr>g_flows := ddel key (g_flows g), g_sent := emit_flow (\<lambda>_. True) (flow_payload f) (g_sent g)\<rparr>"
  have "total ?g = total g"
    using flow_sum_ddel [of "g_flows g" key f h] Cons.prems(1,3) by (simp add: p total_def payload)
  moreover have "total (evict (\<lambda>_. True) old ?g) = total ?g"
    using Cons.prems by (intro Cons.IH) (auto simp: p image_iff split: prod.splits)
  ultimately show ?case by (simp add: p)
qed simp

end

lemma evict_flows:
  "g_flows (evict sendable old g) = fold (\<lambda>(k, f). ddel k) old (g_flows g) \<and>
   g_packets (evict sendable old g) = g_packets g"
  by (induction sendable old g rule: evict.induct) simp_all

lemma fold_ddel_length:
  "distinct (dkeys d) \<Longrightarrow> distinct (dkeys old) \<Longrightarrow> dkeys old \<noteq> [] \<longrightarrow> set (dkeys old) \<subseteq> set (dkeys d) \<Longrightarrow>
   length (fold (\<lambda>(k, f). ddel k) old d) = length d - length old \<and> distinct (dkeys (fold (\<lambda>(k, f). ddel k) old d))"
proof (induction old arbitrary: d)
  case (Cons p old)
  obtain k f where p: "p = (k, f)" by (cases p)
  have "length (ddel k d) = length d - 1" using Cons.prems p by (simp add: length_ddel)
  moreover have "set (dkeys old) \<subseteq> set (dkeys (ddel k d))"
    using Cons.prems(2,3) unfolding set_dkeys_ddel p by (simp only: list.map distinct.simps fst_conv list.set) blast
  ultimately show ?case using Cons.IH [of "ddel k d"] Cons.prems p by simp
qed simp

definition oldest :: "flows \<Rightarrow> flows" where
  "oldest d = take (length d - MAX_FLOWS) (sort_key (\<lambda>kv. f_start (snd kv)) d)"

lemma oldest_props:
  assumes "distinct (dkeys d)"
  shows "distinct (dkeys (oldest d))" "\<forall>(k, f)\<in>set (oldest d). dget d k = Some f"
    "set (dkeys (oldest d)) \<subseteq> set (dkeys d)" "length (oldest d) = length d - MAX_FLOWS"
proof -
  have "mset (dkeys (sort_key (\<lambda>kv. f_start (snd kv)) d)) = mset (dkeys d)" by simp
  then have "distinct (dkeys (sort_key (\<lambda>kv. f_start (snd kv)) d))" using assms by (metis mset_eq_imp_distinct_iff)
  then show "distinct (dkeys (oldest d))" by (simp add: oldest_def flip: take_map)
  have sub: "set (oldest d) \<subseteq> set d" unfolding oldest_def by (metis set_take_subset set_sort)
  then show "\<forall>(k, f)\<in>set (oldest d). dget d k = Some f" using assms by (auto intro: map_of_is_SomeI)
  show "set (dkeys (oldest d)) \<subseteq> set (dkeys d)" using sub by auto
  show "length (oldest d) = length d - MAX_FLOWS" by (simp add: oldest_def)
qed

lemma bound_flows_eq:
  "bound_flows sendable g = (if length (g_flows g) > MAX_FLOWS then evict sendable (oldest (g_flows g)) g else g)"
  by (simp add: bound_flows_def oldest_def Let_def)

definition ingester_ok :: "ingester \<Rightarrow> bool" where
  "ingester_ok g \<longleftrightarrow> distinct (dkeys (g_flows g)) \<and> length (g_flows g) \<le> MAX_FLOWS"

lemma bound_flows_ok: "distinct (dkeys (g_flows g)) \<Longrightarrow> ingester_ok (bound_flows sendable g)"
  using fold_ddel_length [of "g_flows g" "oldest (g_flows g)"] oldest_props [of "g_flows g"]
  by (auto simp: ingester_ok_def bound_flows_eq evict_flows)

lemma distinct_track: "distinct (dkeys d) \<Longrightarrow> distinct (dkeys (track ips layer t l d))"
  by (auto simp: track_def Let_def split: prod.splits option.splits)

lemma emit_periodic_frame [simp]:
  "g_flows (emit_periodic sendable g) = g_flows g" "g_packets (emit_periodic sendable g) = g_packets g"
  "finals (g_sent (emit_periodic sendable g)) = finals (g_sent g)"
  by (simp_all add: emit_periodic_def Let_def)

lemma ingester_ok_step: "ingester_ok g \<Longrightarrow> ingester_ok (ingest_packet sendable g pkt)"
  by (auto simp: ingest_packet_def Let_def ingester_ok_def distinct_track intro!: bound_flows_ok [unfolded ingester_ok_def, THEN conjunct1]
      bound_flows_ok [unfolded ingester_ok_def, THEN conjunct2] split: option.splits)

interpretation ingesting: machine "ingest_packet sendable" ingester_ok for sendable
  by unfold_locales (rule ingester_ok_step)

definition counted :: "packet \<Rightarrow> bool" where
  "counted pkt \<longleftrightarrow> p_len pkt \<le> MAX_PACKET_BYTES \<and> p_ip pkt \<noteq> None \<and> p_layer pkt \<noteq> None"

context flow_measure
begin

lemma bound_total: "distinct (dkeys (g_flows g)) \<Longrightarrow> total (bound_flows (\<lambda>_. True) g) = total g"
  using oldest_props [of "g_flows g"] by (simp add: bound_flows_eq evict_total)

lemma packet_total:
  assumes "ingester_ok g"
  shows "total (ingest_packet (\<lambda>_. True) g pkt) = total g + (if counted pkt then share (p_len pkt) else 0)"
proof (cases "counted pkt")
  case False
  then show ?thesis by (auto simp: ingest_packet_def Let_def total_def counted_def split: option.splits)
next
  case True
  then obtain ips layer where pk: "p_ip pkt = Some ips" "p_layer pkt = Some layer" "p_len pkt \<le> MAX_PACKET_BYTES"
    by (auto simp: counted_def)
  let ?g = "g\<lparr>g_packets := Suc (g_packets g), g_flows := track ips layer (p_time pkt) (p_len pkt) (g_flows g)\<rparr>"
  have "total (bound_flows (\<lambda>_. True) (emit_periodic (\<lambda>_. True) ?g)) = total (emit_periodic (\<lambda>_. True) ?g)"
    using assms by (intro bound_total) (simp add: ingester_ok_def distinct_track)
  also have "\<dots> = total g + share (p_len pkt)" by (simp add: total_def track_sum)
  finally show ?thesis using True pk by (simp add: ingest_packet_def Let_def)
qed

lemma run_total:
  "ingester_ok g \<Longrightarrow>
   total (foldl (ingest_packet (\<lambda>_. True)) g pkts) = total g + sum_list (map (\<lambda>p. share (p_len p)) (filter counted pkts))"
  by (induction pkts arbitrary: g) (simp_all add: packet_total ingester_ok_step)

lemma capture_total:
  "sum_list (map told (finals (g_sent (ingest_pcap (\<lambda>_. True) pkts False)))) =
     sum_list (map (\<lambda>p. share (p_len p)) (filter counted pkts))"
proof -
  have flows: "map told (map (\<lambda>(k, f). flow_payload f) d) = map (\<lambda>(k, f). h f) d" for d :: flows
    by (auto simp: payload)
  have "sum_list (map told (finals (g_sent (ingest_pcap (\<lambda>_. True) pkts False)))) =
      total (foldl (ingest_packet (\<lambda>_. True)) new_ingester pkts)"
    by (simp add: ingest_pcap_def final_flush_def total_def flow_sum_def finals_flush Let_def flows del: map_map)
  also have "\<dots> = sum_list (map (\<lambda>p. share (p_len p)) (filter counted pkts))"
    by (subst run_total) (simp_all add: ingester_ok_def new_ingester_def total_def)
  finally show ?thesis .
qed

end

text \<open>What the broker refuses is missing from what was sent, and nothing else changes.\<close>

definition mirrors :: "(obj \<Rightarrow> bool) \<Rightarrow> ingester \<Rightarrow> ingester \<Rightarrow> bool" where
  "mirrors sendable g a \<longleftrightarrow> g_packets g = g_packets a \<and> g_flows g = g_flows a \<and>
     finals (g_sent g) = filter sendable (finals (g_sent a))"

lemma mirrors_evict: "mirrors sendable g a \<Longrightarrow> mirrors sendable (evict sendable old g) (evict (\<lambda>_. True) old a)"
proof (induction old arbitrary: g a)
  case (Cons p old)
  show ?case by (cases p) (simp only: evict.simps, rule Cons.IH, use Cons.prems in \<open>simp add: mirrors_def\<close>)
qed simp

lemma mirrors_bound: "mirrors sendable g a \<Longrightarrow> mirrors sendable (bound_flows sendable g) (bound_flows (\<lambda>_. True) a)"
  using mirrors_evict [of sendable g a] by (simp add: bound_flows_def Let_def mirrors_def)

lemma mirrors_periodic: "mirrors sendable g a \<Longrightarrow> mirrors sendable (emit_periodic sendable g) (emit_periodic (\<lambda>_. True) a)"
  by (simp add: mirrors_def)

lemma mirrors_packet: "mirrors sendable g a \<Longrightarrow> mirrors sendable (ingest_packet sendable g pkt) (ingest_packet (\<lambda>_. True) a pkt)"
  by (auto simp: ingest_packet_def Let_def intro!: mirrors_bound mirrors_periodic split: option.splits)
     (simp_all add: mirrors_def)

lemma mirrors_run:
  "mirrors sendable g a \<Longrightarrow> mirrors sendable (foldl (ingest_packet sendable) g pkts) (foldl (ingest_packet (\<lambda>_. True)) a pkts)"
  by (induction pkts arbitrary: g a) (simp_all add: mirrors_packet)

definition flow_pkts :: "flow \<Rightarrow> nat" where
  "flow_pkts f = f_orig_pkts f + f_resp_pkts f"

definition flow_bytes :: "flow \<Rightarrow> nat" where
  "flow_bytes f = f_orig_bytes f + f_resp_bytes f"

text \<open>The same two read off a payload.\<close>

definition nat_at :: "obj \<Rightarrow> string \<Rightarrow> nat" where
  "nat_at p k = (case oget p k of PInt i \<Rightarrow> nat i | _ \<Rightarrow> 0)"

definition payload_pkts :: "obj \<Rightarrow> nat" where
  "payload_pkts p = nat_at p ''orig_pkts'' + nat_at p ''resp_pkts''"

definition payload_bytes :: "obj \<Rightarrow> nat" where
  "payload_bytes p = nat_at p ''orig_bytes'' + nat_at p ''resp_bytes''"

interpretation packets: flow_measure flow_pkts "\<lambda>_. 1" payload_pkts
  by unfold_locales
     (simp_all add: flow_pkts_def new_flow_def add_request_def add_response_def payload_pkts_def nat_at_def flow_payload_def oget_def dget_or_def)

interpretation bytes: flow_measure flow_bytes id payload_bytes
  by unfold_locales
     (simp_all add: flow_bytes_def new_flow_def add_request_def add_response_def payload_bytes_def nat_at_def flow_payload_def oget_def dget_or_def)

text \<open>C19. A capture is conserved and memory is bounded. After each packet at most 50000 flows are held. When
  the broker takes every payload, the final payloads sent, of the flows evicted and of those flushed at the
  end, together tell of each TCP or UDP packet over IPv4 of at most 65535 bytes once, and of its bytes; packets of
  other kinds are counted but belong to no flow. When it refuses some, exactly the payloads it refuses are missing.\<close>

theorem capture_conserved:
  fixes sendable pkts
  defines "sent \<equiv> \<lambda>ok. finals (g_sent (ingest_pcap ok pkts False))"
  shows "length (g_flows (foldl (ingest_packet sendable) new_ingester pkts)) \<le> 50000 \<and>
   sum_list (map payload_pkts (sent (\<lambda>_. True))) = length (filter counted pkts) \<and>
   sum_list (map payload_bytes (sent (\<lambda>_. True))) = sum_list (map p_len (filter counted pkts)) \<and>
   sent sendable = filter sendable (sent (\<lambda>_. True))"
proof -
  have "ingester_ok (foldl (ingest_packet sendable) new_ingester pkts)"
    by (rule ingesting.run_inv) (simp add: ingester_ok_def new_ingester_def)
  moreover have "mirrors sendable (foldl (ingest_packet sendable) new_ingester pkts) (foldl (ingest_packet (\<lambda>_. True)) new_ingester pkts)"
    by (rule mirrors_run) (simp add: mirrors_def new_ingester_def)
  ultimately show ?thesis using packets.capture_total [of pkts] bytes.capture_total [of pkts] unfolding sent_def
    by (simp add: ingester_ok_def MAX_FLOWS_def sum_list_triv mirrors_def ingest_pcap_def final_flush_def finals_flush Let_def)
qed

text \<open>The payloads carry no event type and no timestamp, so the detection rules see none of these flows, and
  the schema check of the log tailer would reject them.\<close>

lemma payload_untyped:
  "oget (flow_payload f) ''event_type'' = PNone" "\<not> validate_zeek_event (PDict (flow_payload f))"
  by (simp_all add: flow_payload_def validate_zeek_event_def)

text \<open>When the reader fails, the flows still in the table are not emitted.\<close>

lemma reader_failure_drops_flows:
  "ingest_pcap (\<lambda>_. True) [\<lparr>p_len = 60, p_ip = Some (''a'', ''b''), p_layer = Some (''tcp'', 1, 2), p_time = 0\<rparr>] True =
     \<lparr>g_packets = 1, g_flows = [(flow_key ''a'' 1 ''b'' 2 ''tcp'', add_request 0 60 (new_flow 0 ''a'' 1 ''b'' 2 ''tcp''))],
      g_sent = []\<rparr>"
  by (simp add: ingest_pcap_def ingest_packet_def new_ingester_def track_def emit_periodic_def bound_flows_def
      MAX_FLOWS_def MAX_PACKET_BYTES_def Let_def)

end
