(* ===== verification/DlqFile.thy ===== *)
theory DlqFile
  imports Sink
begin

text \<open>
  What \<open>api/kafka_sink.py\<close> sets up at import, and the rotation of its dead-letter file as the code does it:
  one rename after another, any of which may raise. \<open>Sink.rotate_dlq\<close> is the run in which none does.
\<close>

section \<open>Configuration\<close>

definition broker_servers :: "environ \<Rightarrow> string list" where
  "broker_servers env =
     map py_strip (filter (\<lambda>b. py_strip b \<noteq> [])
       (split_on (CHR '','') (getenv_or env ''REDPANDA_BROKERS'' ''soc-redpanda-cluster.prod.svc.cluster.local:9092'')))"

record sink_config =
  sc_topic :: string
  sc_dlq_topic :: string
  sc_path :: string
  sc_lock_path :: string
  sc_max_mb :: int
  sc_rotate :: int

definition config_of :: "(string \<Rightarrow> string) \<Rightarrow> environ \<Rightarrow> sink_config result" where
  "config_of abspath env =
     (let path = dlq_path abspath env in
      bind_result (of_option ValueError (parse_int (getenv_or env ''DLQ_MAX_SIZE_MB'' ''100''))) (\<lambda>max_mb.
      bind_result (of_option ValueError (parse_int (getenv_or env ''DLQ_ROTATE_COUNT'' ''5''))) (\<lambda>count.
        Inr \<lparr>sc_topic = getenv_or env ''ALERTS_TOPIC'' ''security_alerts'',
             sc_dlq_topic = getenv_or env ''ALERTS_DLQ_TOPIC'' ''security_alerts_dlq'', sc_path = path,
             sc_lock_path = path @ ''.lock'', sc_max_mb = max_mb, sc_rotate = count\<rparr>)))"

text \<open>Without a producer every dead letter goes to the file alone.\<close>

definition get_dlq_producer :: "(string list \<Rightarrow> 'p result) \<Rightarrow> environ \<Rightarrow> 'p option" where
  "get_dlq_producer connect env = (case connect (broker_servers env) of Inr p \<Rightarrow> Some p | Inl e \<Rightarrow> None)"

section \<open>Rotation, rename by rename\<close>

datatype rotate_act = Rename nat | Recreate

definition rotate_ops :: "int \<Rightarrow> rotate_act list" where
  "rotate_ops keep = map Rename (rev [1..<nat keep]) @ [Rename 0, Recreate]"

text \<open>A rename replaces its target; \<open>Rename 0\<close> is not guarded by \<open>exists\<close>, the caller checked the file.
  Opening for append creates the file when it is missing.\<close>

fun rotate_op :: "'c \<Rightarrow> rotate_act \<Rightarrow> (nat \<Rightarrow> 'c option) \<Rightarrow> (nat \<Rightarrow> 'c option)" where
  "rotate_op blank (Rename i) f = move_file i f"
| "rotate_op blank Recreate f = (if f 0 = None then f(0 \<mapsto> blank) else f)"

text \<open>\<open>ok n\<close> tells whether the \<open>n\<close>-th operation succeeds; the first failure is logged and ends the rotation.\<close>

fun rotate_run :: "(nat \<Rightarrow> bool) \<Rightarrow> 'c \<Rightarrow> nat \<Rightarrow> rotate_act list \<Rightarrow> (nat \<Rightarrow> 'c option) \<Rightarrow> (nat \<Rightarrow> 'c option)" where
  "rotate_run ok blank n [] f = f"
| "rotate_run ok blank n (op # ops) f = (if ok n then rotate_run ok blank (Suc n) ops (rotate_op blank op f) else f)"

definition rotate_dlq_if_needed ::
  "(nat \<Rightarrow> bool) \<Rightarrow> sink_config \<Rightarrow> (string \<Rightarrow> int) \<Rightarrow> (nat \<Rightarrow> string option) \<Rightarrow> (nat \<Rightarrow> string option)" where
  "rotate_dlq_if_needed ok cfg bytes_of f =
     (case f 0 of
        None \<Rightarrow> f
      | Some c \<Rightarrow>
          if of_int (bytes_of c) / (1024 * 1024 :: real) > of_int (sc_max_mb cfg)
          then rotate_run ok [] 0 (rotate_ops (sc_rotate cfg)) f else f)"

section \<open>What a rotation keeps\<close>

lemma rotate_run_append:
  "rotate_run (\<lambda>_. True) blank n (xs @ ys) f = rotate_run (\<lambda>_. True) blank (n + length xs) ys (rotate_run (\<lambda>_. True) blank n xs f)"
  by (induction xs arbitrary: n f) simp_all

lemma rotate_run_renames:
  "rotate_run (\<lambda>_. True) blank n (map Rename is) f = foldl (\<lambda>f i. move_file i f) f is"
  by (induction "is" arbitrary: n f) simp_all

lemma rotation_without_failure:
  "f 0 \<noteq> None \<Longrightarrow> rotate_run (\<lambda>_. True) blank 0 (rotate_ops keep) f = rotate_dlq (nat keep) blank f"
proof -
  assume f: "f 0 \<noteq> None"
  have keep: "foldl (\<lambda>f i. move_file i f) f (rev [1..<k]) 0 = f 0" for k
    by (induction k arbitrary: f) (simp_all add: move_file_def)
  show ?thesis using f keep [of "nat keep"]
    by (simp add: rotate_ops_def rotate_run_append rotate_run_renames rotate_dlq_def Let_def move_file_def)
qed

text \<open>Whichever rename fails, a rotation loses no file but the one beyond the count: every other content is
  still in some file, at most one number up.\<close>

lemma rotate_run_above:
  "k < j \<Longrightarrow> rotate_run ok blank n (map Rename (rev [0..<k]) @ [Recreate]) f j = f j"
  by (induction k arbitrary: n f) (auto simp: move_file_def)

lemma rotate_run_keeps:
  "f i = Some c \<Longrightarrow> i < k \<Longrightarrow> \<exists>j\<in>{i, Suc i}. rotate_run ok blank n (map Rename (rev [0..<k]) @ [Recreate]) f j = Some c"
proof (induction k arbitrary: n f)
  case (Suc k)
  show ?case
  proof (cases "i = k")
    case True
    then show ?thesis using Suc.prems by (auto simp: rotate_run_above move_file_def)
  next
    case False
    with Suc.prems have "move_file k f i = Some c" "i < k" by (auto simp: move_file_def)
    from Suc.IH [where f = "move_file k f" and n = "Suc n", OF this] Suc.prems(1) show ?thesis by auto
  qed
qed simp

lemma rotation_keeps_files:
  assumes "f i = Some c" "i < max 1 (nat (sc_rotate cfg))"
  shows "\<exists>j\<in>{i, Suc i}. rotate_dlq_if_needed ok cfg bytes_of f j = Some c"
proof -
  have ops: "rotate_ops (sc_rotate cfg) = map Rename (rev [0..<max 1 (nat (sc_rotate cfg))]) @ [Recreate]"
  proof (cases "nat (sc_rotate cfg)")
    case (Suc m)
    then show ?thesis by (simp add: rotate_ops_def upt_conv_Cons max_def)
  qed (simp add: rotate_ops_def)
  show ?thesis unfolding rotate_dlq_if_needed_def ops
    using assms(1) rotate_run_keeps [where f = f, OF assms, of ok "[]" 0] by (auto split: option.split)
qed

end
