(* ===== verification/Tailer.thy ===== *)
theory Tailer
  imports Ingest DlqFile
begin

text \<open>
  The process around the tailer's loop (\<open>ingest/tail_to_redpanda.py\<close>): one daemon thread per Zeek log
  with its \<open>tail -F\<close> child, the flag they share, the interrupt handler and the end of the interpreter.
  What a line does is \<open>process_line\<close>; here a turn of the loop is how it ends. When the main thread
  leaves, daemon threads are not waited for and run no further instruction.
\<close>

section \<open>Threads and children\<close>

text \<open>\<open>Top\<close> is the test of the loop, \<open>Reading\<close> the blocking \<open>readline\<close>, \<open>Reaping\<close> the \<open>finally\<close> block.\<close>

datatype tphase = Fresh | Top | Reading | Handling | Reaping | Done

record tthread =
  tt_phase :: tphase
  tt_child :: bool
  tt_lines :: nat

datatype mphase = MainLoop | Flushing | Gone

record tproc =
  tp_running :: bool
  tp_main :: mphase
  tp_threads :: "tthread list"

text \<open>\<open>Popen\<close> is outside the \<open>try\<close>: when it raises, the thread ends without a child.\<close>

datatype taction =
    Start nat bool
  | Test nat
  | GotLine nat
  | GotEof nat
  | TurnOk nat
  | TurnRaised nat
  | Reap nat
  | ChildDies nat
  | Sigint
  | ExitProcess

definition on_thread :: "nat \<Rightarrow> tphase \<Rightarrow> (tthread \<Rightarrow> tthread) \<Rightarrow> tproc \<Rightarrow> tproc option" where
  "on_thread i ph f p =
     (if tp_main p \<noteq> Gone \<and> i < length (tp_threads p) \<and> tt_phase (tp_threads p ! i) = ph
      then Some (p\<lparr>tp_threads := (tp_threads p)[i := f (tp_threads p ! i)]\<rparr>) else None)"

fun tailer_step :: "taction \<Rightarrow> tproc \<Rightarrow> tproc option" where
  "tailer_step (Start i ok) p =
     on_thread i Fresh (\<lambda>t. if ok then t\<lparr>tt_phase := Top, tt_child := True\<rparr> else t\<lparr>tt_phase := Done\<rparr>) p"
| "tailer_step (Test i) p = on_thread i Top (\<lambda>t. t\<lparr>tt_phase := (if tp_running p then Reading else Reaping)\<rparr>) p"
| "tailer_step (GotLine i) p =
     (if i < length (tp_threads p) \<and> tt_child (tp_threads p ! i)
      then on_thread i Reading (\<lambda>t. t\<lparr>tt_phase := Handling, tt_lines := Suc (tt_lines t)\<rparr>) p else None)"
| "tailer_step (GotEof i) p =
     (if i < length (tp_threads p) \<and> \<not> tt_child (tp_threads p ! i)
      then on_thread i Reading (\<lambda>t. t\<lparr>tt_phase := Top\<rparr>) p else None)"
| "tailer_step (TurnOk i) p = on_thread i Handling (\<lambda>t. t\<lparr>tt_phase := Top\<rparr>) p"
| "tailer_step (TurnRaised i) p = on_thread i Handling (\<lambda>t. t\<lparr>tt_phase := Reaping\<rparr>) p"
| "tailer_step (Reap i) p = on_thread i Reaping (\<lambda>t. t\<lparr>tt_phase := Done, tt_child := False\<rparr>) p"
| "tailer_step (ChildDies i) p =
     (if i < length (tp_threads p) \<and> tt_child (tp_threads p ! i)
      then Some (p\<lparr>tp_threads := (tp_threads p)[i := (tp_threads p ! i)\<lparr>tt_child := False\<rparr>]\<rparr>) else None)"
| "tailer_step Sigint p =
     (if tp_main p = MainLoop then Some (p\<lparr>tp_running := False, tp_main := Flushing\<rparr>) else None)"
| "tailer_step ExitProcess p = (if tp_main p = Flushing then Some (p\<lparr>tp_main := Gone\<rparr>) else None)"

definition tailer_main :: tproc where
  "tailer_main = \<lparr>tp_running = True, tp_main = MainLoop,
     tp_threads = map (\<lambda>ty. \<lparr>tt_phase = Fresh, tt_child = False, tt_lines = 0\<rparr>) LOG_TYPES\<rparr>"

inductive tailer_reach :: "tproc \<Rightarrow> bool" where
  init: "tailer_reach tailer_main"
| step: "tailer_reach p \<Longrightarrow> tailer_step a p = Some q \<Longrightarrow> tailer_reach q"

inductive_simps tailer_reach_iff: "tailer_reach p"

section \<open>What is reaped\<close>

definition thread_ok :: "tthread \<Rightarrow> bool" where
  "thread_ok t \<longleftrightarrow> (tt_phase t \<in> {Fresh, Done} \<longrightarrow> \<not> tt_child t) \<and> (tt_phase t = Fresh \<longrightarrow> tt_lines t = 0)"

lemma tailer_step_thread:
  "tailer_step a p = Some q \<Longrightarrow> tp_threads q = tp_threads p \<or>
     (\<exists>i<length (tp_threads p). \<exists>t. tp_threads q = (tp_threads p)[i := t] \<and> (thread_ok (tp_threads p ! i) \<longrightarrow> thread_ok t))"
  by (cases a) (auto simp: on_thread_def thread_ok_def split: if_splits intro!: exI)

text \<open>A thread that has left its loop while the process lives has no tail process left: the \<open>finally\<close>
  block ran, whichever way the loop ended.\<close>

lemma tail_reaped: "tailer_reach p \<Longrightarrow> \<forall>t\<in>set (tp_threads p). thread_ok t"
proof (induction rule: tailer_reach.induct)
  case init
  then show ?case by (simp add: tailer_main_def thread_ok_def)
next
  case (step p a q)
  from tailer_step_thread [OF step(2)] step(3) show ?case
    by (auto dest!: subsetD [OF set_update_subset_insert])
qed

fun tailer_run :: "taction list \<Rightarrow> tproc \<Rightarrow> tproc option" where
  "tailer_run [] p = Some p"
| "tailer_run (a # as) p = (case tailer_step a p of None \<Rightarrow> None | Some q \<Rightarrow> tailer_run as q)"

lemma tailer_run_reach: "tailer_reach p \<Longrightarrow> tailer_run as p = Some q \<Longrightarrow> tailer_reach q"
  by (induction as arbitrary: p) (auto split: option.splits intro: tailer_reach.step)

text \<open>An interrupt finds a thread in \<open>readline\<close>: the handler flushes and exits, and the process is gone
  with its tail still running. The \<open>finally\<close> block that was to reap it needs a thread that returns to
  the test of its loop before the exit.\<close>

definition interrupted_tailer :: tproc where
  "interrupted_tailer = tailer_main\<lparr>tp_running := False, tp_main := Gone,
     tp_threads := \<lparr>tt_phase = Reading, tt_child = True, tt_lines = 0\<rparr> # tl (tp_threads tailer_main)\<rparr>"

lemma interrupt_leaves_tail:
  "tailer_reach interrupted_tailer" "tp_main interrupted_tailer = Gone" "\<exists>t\<in>set (tp_threads interrupted_tailer). tt_child t"
proof -
  have "tailer_run [Start 0 True, Test 0, Sigint, ExitProcess] tailer_main = Some interrupted_tailer"
    by (simp add: tailer_main_def interrupted_tailer_def on_thread_def LOG_TYPES_def)
  then show "tailer_reach interrupted_tailer" by (rule tailer_run_reach [OF tailer_reach.init])
qed (simp_all add: interrupted_tailer_def)

text \<open>When a tail process dies its thread reads end-of-file for ever: as long as the flag is set it goes
  round between the test and the read, takes no line and never ends, and nothing starts a new tail.\<close>

definition starved :: "nat \<Rightarrow> nat \<Rightarrow> tproc \<Rightarrow> bool" where
  "starved i n p \<longleftrightarrow> i < length (tp_threads p) \<and> tt_phase (tp_threads p ! i) \<in> {Top, Reading} \<and>
     \<not> tt_child (tp_threads p ! i) \<and> tt_lines (tp_threads p ! i) = n"

lemma on_thread_at:
  "on_thread j ph f p = Some q \<Longrightarrow>
   length (tp_threads q) = length (tp_threads p) \<and> tp_running q = tp_running p \<and> tt_phase (tp_threads p ! j) = ph \<and>
   (\<forall>i<length (tp_threads p). tp_threads q ! i = (if i = j then f (tp_threads p ! i) else tp_threads p ! i))"
  by (auto simp: on_thread_def split: if_splits)

lemma dead_tail_spins:
  assumes "starved i n p" "tp_running p" "tailer_step a p = Some q" "tp_running q"
  shows "starved i n q"
proof (cases a)
  case (ChildDies j)
  with assms show ?thesis by (cases "j = i") (auto simp: starved_def split: if_splits)
qed (use assms in \<open>auto simp: starved_def split: if_splits dest!: on_thread_at\<close>)

section \<open>Startup\<close>

text \<open>The producer is built at import; the broker variable is passed as one server, while the sink and
  the packet ingester split theirs at commas.\<close>

definition tailer_servers :: "environ \<Rightarrow> string list" where
  "tailer_servers env = [getenv_or env ''REDPANDA_BROKERS'' ''localhost:9092'']"

definition pcap_servers :: "string \<Rightarrow> string list" where
  "pcap_servers broker = split_on (CHR '','') broker"

datatype startup = Running | ExitCode nat

definition tailer_startup :: "(string list \<Rightarrow> bool) \<Rightarrow> environ \<Rightarrow> startup" where
  "tailer_startup connects env = (if connects (tailer_servers env) then Running else ExitCode 1)"

text \<open>A list of brokers the sink reads as two servers is one to the tailer, with a comma in its name; a
  client that refuses such a name ends the tailer at import.\<close>

lemma broker_list_not_split:
  assumes "\<And>ss. connects ss \<Longrightarrow> list_all (\<lambda>s. CHR '','' \<notin> set s) ss"
  shows "broker_servers [''REDPANDA_BROKERS'' \<mapsto> ''a:1,b:2''] = [''a:1'', ''b:2'']"
    and "tailer_startup connects [''REDPANDA_BROKERS'' \<mapsto> ''a:1,b:2''] = ExitCode 1"
proof -
  have "py_strip ''a:1'' = ''a:1''" "py_strip ''b:2'' = ''b:2''" by code_simp+
  then show "broker_servers [''REDPANDA_BROKERS'' \<mapsto> ''a:1,b:2''] = [''a:1'', ''b:2'']"
    by (simp add: broker_servers_def getenv_or_def)
  have "\<not> connects [''a:1,b:2'']" using assms [of "[''a:1,b:2'']"] by auto
  then show "tailer_startup connects [''REDPANDA_BROKERS'' \<mapsto> ''a:1,b:2''] = ExitCode 1"
    by (simp add: tailer_startup_def tailer_servers_def getenv_or_def)
qed

end
