(* ===== verification/Simulator.thy ===== *)
theory Simulator
  imports Rules
begin

text \<open>
  \<open>ingest/simulator.py\<close>: the synthetic traffic the platform is demonstrated with. The random draws of
  an event are its input, with the ranges the calls give them; the theorems relate what the simulator
  labels as an attack to what the rules of the detection pipeline report.
\<close>

section \<open>Connection events\<close>

text \<open>The draws of one \<open>generate_conn_log\<close>: first the defaults, then the attack's own.\<close>

record conn_draws =
  cd_ts :: real
  cd_hex :: string
  cd_src :: int
  cd_dst1 :: int
  cd_dst2 :: int
  cd_dst_port :: int
  cd_orig_bytes :: int
  cd_resp_bytes :: int
  cd_orig_pkts :: int
  cd_attack_pkts :: int
  cd_attack_port :: int
  cd_attack_orig :: int
  cd_attack_resp :: int
  cd_orig_port :: int
  cd_duration :: real
  cd_resp_pkts :: int

definition base_draws_ok :: "conn_draws \<Rightarrow> bool" where
  "base_draws_ok d \<longleftrightarrow>
     cd_dst_port d \<in> {80, 443, 53} \<and> 100 \<le> cd_orig_bytes d \<and> cd_orig_bytes d \<le> 5000 \<and>
     100 \<le> cd_resp_bytes d \<and> cd_resp_bytes d \<le> 50000 \<and> 5 \<le> cd_orig_pkts d \<and> cd_orig_pkts d \<le> 50 \<and>
     1 / 10 \<le> cd_duration d \<and> cd_duration d \<le> 10"

definition attack_draws_ok :: "string \<Rightarrow> conn_draws \<Rightarrow> bool" where
  "attack_draws_ok attack_type d \<longleftrightarrow>
     (if attack_type = ''reconnaissance'' then
        1 \<le> cd_attack_pkts d \<and> cd_attack_pkts d \<le> 3 \<and> 1 \<le> cd_attack_port d \<and> cd_attack_port d \<le> 1024
      else if attack_type = ''ddos'' then
        15000 \<le> cd_attack_pkts d \<and> cd_attack_pkts d \<le> 50000 \<and> cd_attack_port d \<in> {80, 443}
      else if attack_type = ''data_exfiltration'' then
        6000000 \<le> cd_attack_orig d \<and> cd_attack_orig d \<le> 15000000 \<and> 100 \<le> cd_attack_resp d \<and> cd_attack_resp d \<le> 5000
      else if attack_type = ''c2_beaconing'' then
        60 \<le> cd_attack_orig d \<and> cd_attack_orig d \<le> 120 \<and> 60 \<le> cd_attack_resp d \<and> cd_attack_resp d \<le> 120 \<and>
        cd_attack_port d \<in> {4444, 8080, 1337}
      else True)"

text \<open>State, bytes, packets and port of the connection.\<close>

definition conn_shape :: "bool \<Rightarrow> string \<Rightarrow> conn_draws \<Rightarrow> string \<times> int \<times> int \<times> int \<times> int" where
  "conn_shape is_attack attack_type d =
     (if is_attack \<and> attack_type = ''reconnaissance'' then
        (''S0'', cd_orig_bytes d, cd_resp_bytes d, cd_attack_pkts d, cd_attack_port d)
      else if is_attack \<and> attack_type = ''ddos'' then
        (''REJ'', cd_orig_bytes d, cd_resp_bytes d, cd_attack_pkts d, cd_attack_port d)
      else if is_attack \<and> attack_type = ''data_exfiltration'' then
        (''SF'', cd_attack_orig d, cd_attack_resp d, cd_orig_pkts d, cd_dst_port d)
      else if is_attack \<and> attack_type = ''c2_beaconing'' then
        (''SF'', cd_attack_orig d, cd_attack_resp d, cd_orig_pkts d, cd_attack_port d)
      else (''SF'', cd_orig_bytes d, cd_resp_bytes d, cd_orig_pkts d, cd_dst_port d))"

definition generate_conn_log :: "bool \<Rightarrow> string \<Rightarrow> conn_draws \<Rightarrow> obj" where
  "generate_conn_log is_attack attack_type d =
     (case conn_shape is_attack attack_type d of (conn_state, orig_bytes, resp_bytes, orig_pkts, dst_port) \<Rightarrow>
        [(''ts'', PFloat (Fin (cd_ts d))), (''uid'', PStr (''C'' @ take 18 (cd_hex d))),
         (''id.orig_h'', PStr (''192.168.1.'' @ str_of_int (cd_src d))), (''id.orig_p'', PInt (cd_orig_port d)),
         (''id.resp_h'', PStr (str_of_int (cd_dst1 d) @ ''.'' @ str_of_int (cd_dst2 d) @ ''.1.1'')),
         (''id.resp_p'', PInt dst_port), (''proto'', PStr ''tcp''),
         (''service'', PStr (if dst_port = 80 then ''http'' else if dst_port = 443 then ''ssl'' else ''other'')),
         (''duration'', PFloat (Fin (cd_duration d))), (''orig_bytes'', PInt orig_bytes), (''resp_bytes'', PInt resp_bytes),
         (''conn_state'', PStr conn_state), (''missed_bytes'', PInt 0), (''history'', PStr ''ShADadFf''),
         (''orig_pkts'', PInt orig_pkts), (''resp_pkts'', PInt (cd_resp_pkts d)), (''event_type'', PStr ''conn''),
         (''sensor_id'', PStr ''sim-01''), (''simulated'', PBool True),
         (''attack_label'', PStr (if is_attack then attack_type else ''normal''))] @
        (if attack_type = ''encrypted_malware'' then [(''ja4'', PStr ''t13d000000_rare_fingerprint'')] else []))"

section \<open>DNS events\<close>

record dns_draws =
  dd_ts :: real
  dd_hex :: string
  dd_uuids :: "string \<times> string \<times> string"
  dd_dga :: string
  dd_normal :: string
  dd_src :: int
  dd_orig_port :: int
  dd_trans_id :: int
  dd_rtt :: real

definition dns_draws_ok :: "dns_draws \<Rightarrow> bool" where
  "dns_draws_ok d \<longleftrightarrow>
     (case dd_uuids d of (a, b, c) \<Rightarrow> length a = 32 \<and> length b = 32 \<and> length c = 32) \<and>
     dd_dga d \<in> {''agjzzyxb.com'', ''login-microsoft-update-sec.com'', ''xn--faked-123.com''} \<and>
     dd_normal d \<in> {''google.com'', ''apple.com'', ''cloudflare.com''}"

definition dns_domain :: "bool \<Rightarrow> string \<Rightarrow> dns_draws \<Rightarrow> string \<times> string" where
  "dns_domain is_attack attack_type d =
     (if attack_type = ''dga_dns_tunnelling'' then
        (case dd_uuids d of (a, b, c) \<Rightarrow> (a @ b @ c @ ''.malicious-tunnel.com'', ''TXT''))
      else if is_attack \<and> sublist ''dga'' (py_lower attack_type) then (dd_dga d, ''A'')
      else (dd_normal d, ''A''))"

definition generate_dns_log :: "bool \<Rightarrow> string \<Rightarrow> dns_draws \<Rightarrow> obj" where
  "generate_dns_log is_attack attack_type d =
     (case dns_domain is_attack attack_type d of (domain, qtype_name) \<Rightarrow>
        [(''ts'', PFloat (Fin (dd_ts d))), (''uid'', PStr (''C'' @ take 18 (dd_hex d))),
         (''id.orig_h'', PStr (''192.168.1.'' @ str_of_int (dd_src d))), (''id.orig_p'', PInt (dd_orig_port d)),
         (''id.resp_h'', PStr ''8.8.8.8''), (''id.resp_p'', PInt 53), (''proto'', PStr ''udp''),
         (''trans_id'', PInt (dd_trans_id d)), (''rtt'', PFloat (Fin (dd_rtt d))), (''query'', PStr domain),
         (''qclass'', PInt 1), (''qclass_name'', PStr ''C_INTERNET''),
         (''qtype'', PInt (if qtype_name = ''A'' then 1 else 16)), (''qtype_name'', PStr qtype_name),
         (''rcode'', PInt (if is_attack then 3 else 0)),
         (''rcode_name'', PStr (if is_attack then ''NXDOMAIN'' else ''NOERROR'')),
         (''AA'', PBool False), (''TC'', PBool False), (''RD'', PBool True), (''RA'', PBool True), (''Z'', PInt 0),
         (''answers'', PList [PStr ''1.2.3.4'']), (''TTLs'', PList [PInt 300]), (''rejected'', PBool False),
         (''event_type'', PStr ''dns''), (''sensor_id'', PStr ''sim-01''), (''simulated'', PBool True),
         (''attack_label'', PStr (if is_attack then attack_type else ''normal''))])"

section \<open>The loop\<close>

definition MIXED_ATTACKS :: "string list" where
  "MIXED_ATTACKS = [''dga_dns_tunnelling'', ''reconnaissance'', ''ddos'', ''data_exfiltration'',
     ''encrypted_malware'', ''c2_beaconing'']"

record loop_draws =
  ld_attack :: real
  ld_choice :: string
  ld_kind :: real
  ld_conn :: conn_draws
  ld_dns :: dns_draws

definition choose_attack :: "string \<Rightarrow> loop_draws \<Rightarrow> bool \<times> string" where
  "choose_attack scenario d =
     (if scenario \<noteq> ''normal'' \<and> ld_attack d < 2 / 10 then
        (True, if scenario = ''mixed'' then ld_choice d else scenario)
      else (False, []))"

definition next_event :: "string \<Rightarrow> loop_draws \<Rightarrow> obj" where
  "next_event scenario d =
     (case choose_attack scenario d of (is_attack, attack_type) \<Rightarrow>
        if is_attack then
          (if attack_type = ''dga_dns_tunnelling'' then generate_dns_log is_attack attack_type (ld_dns d)
           else generate_conn_log is_attack attack_type (ld_conn d))
        else if ld_kind d < 3 / 10 then generate_dns_log is_attack attack_type (ld_dns d)
        else generate_conn_log is_attack attack_type (ld_conn d))"

record simulator =
  sim_sent :: "obj list"
  sim_count :: nat
  sim_flushed :: nat

definition sim_step :: "string \<Rightarrow> simulator \<Rightarrow> loop_draws \<Rightarrow> simulator" where
  "sim_step scenario s d =
     (let s1 = s\<lparr>sim_sent := sim_sent s @ [next_event scenario d], sim_count := Suc (sim_count s)\<rparr>
      in if sim_count s1 mod 5000 = 0 then s1\<lparr>sim_flushed := length (sim_sent s1)\<rparr> else s1)"

definition loop_draws_ok :: "string \<Rightarrow> loop_draws \<Rightarrow> bool" where
  "loop_draws_ok scenario d \<longleftrightarrow>
     ld_choice d \<in> set MIXED_ATTACKS \<and> base_draws_ok (ld_conn d) \<and> dns_draws_ok (ld_dns d) \<and>
     attack_draws_ok (snd (choose_attack scenario d)) (ld_conn d)"

text \<open>At most 4999 events wait in the producer's buffer for a flush.\<close>

definition buffer_ok :: "simulator \<Rightarrow> bool" where
  "buffer_ok s \<longleftrightarrow> sim_count s = length (sim_sent s) \<and> sim_flushed s = 5000 * (sim_count s div 5000)"

lemma buffer_ok_step: "buffer_ok s \<Longrightarrow> buffer_ok (sim_step scenario s d)"
proof (cases "Suc (sim_count s) mod 5000 = 0")
  case True
  moreover from True have "5000 * (Suc (sim_count s) div 5000) = Suc (sim_count s)" by (metis add_0_right mult_div_mod_eq)
  moreover assume "buffer_ok s"
  ultimately show ?thesis by (simp add: buffer_ok_def sim_step_def Let_def del: div_Suc_eq_div_add3)
next
  case False
  then have "Suc (sim_count s) div 5000 = sim_count s div 5000" by (simp add: div_Suc)
  moreover assume "buffer_ok s"
  ultimately show ?thesis using False by (simp add: buffer_ok_def sim_step_def Let_def)
qed

interpretation simulation: machine "sim_step scenario" buffer_ok for scenario
  by unfold_locales (rule buffer_ok_step)

lemma unflushed_bounded: "buffer_ok s \<Longrightarrow> length (sim_sent s) - sim_flushed s < 5000"
  by (simp add: buffer_ok_def minus_mult_div_eq_mod)

section \<open>What the rules report\<close>

definition rule_for :: "(string, string) pydict" where
  "rule_for = [(''dga_dns_tunnelling'', ''RULE_DNS_TUNNELLING''), (''reconnaissance'', ''RULE_RECON_PORT_SCAN''),
     (''ddos'', ''RULE_DDOS_VOLUMETRIC''), (''data_exfiltration'', ''RULE_CONN_EXFIL''),
     (''encrypted_malware'', ''RULE_TLS_JA4_MALWARE''), (''c2_beaconing'', ''RULE_C2_HEARTBEAT'')]"

definition reported :: "py_repr \<Rightarrow> obj \<Rightarrow> string list \<Rightarrow> bool" where
  "reported rp event rules \<longleftrightarrow>
     (\<exists>f ds. extract_features event = Inr f \<and> evaluate_rules rp (ja4_fingerprints None) event f = Inr ds \<and>
        rule_ids ds = map PStr rules)"

lemma default_fingerprints: "ja4_fingerprints None = [''t13d000000_rare_fingerprint'']"
  by code_simp

lemma to_float_small: "\<bar>r\<bar> < 2 ^ 900 \<Longrightarrow> to_float r = Fin r"
proof -
  have "(2::real) ^ 900 \<le> float_overflow" unfolding float_overflow_def by simp
  then show "\<bar>r\<bar> < 2 ^ 900 \<Longrightarrow> to_float r = Fin r" by (simp add: to_float_def abs_less_iff)
qed

lemma rate_small:
  assumes "\<bar>i\<bar> < 2 ^ 60" "1 / 10 \<le> r"
  shows "\<exists>b. rate i (Fin r) = Inr b"
proof -
  have "\<bar>real_of_int i\<bar> < 2 ^ 60" using assms(1) by (metis of_int_abs of_int_less_numeral_power_cancel_iff)
  then have "\<bar>real_of_int i\<bar> < 2 ^ 900" by (rule less_le_trans) simp
  then show ?thesis using assms(2) to_float_small by (simp add: rate_def)
qed

lemma conn_log_fields:
  assumes "conn_shape a ty d = (st, orig, resp, pkts, port)"
  defines "e \<equiv> generate_conn_log a ty d"
  shows "oget e ''event_type'' = PStr ''conn''" "oget e ''conn_state'' = PStr st"
    "oget e ''orig_bytes'' = PInt orig" "oget e ''resp_bytes'' = PInt resp"
    "dget_or e ''orig_pkts'' (PInt 0) = PInt pkts" "dget_or e ''id.resp_p'' (PInt 0) = PInt port"
    "oget e ''duration'' = PFloat (Fin (cd_duration d))"
    "oget e ''attack_label'' = PStr (if a then ty else ''normal'')"
    "dget_or e ''ja4'' (PStr []) = PStr (if ty = ''encrypted_malware'' then ''t13d000000_rare_fingerprint'' else [])"
  using assms by (simp_all add: generate_conn_log_def)

lemma conn_log_reported:
  assumes shape: "conn_shape a ty d = (st, orig, resp, pkts, port)"
    and draws: "0 \<le> orig" "orig < 2 ^ 59" "0 \<le> resp" "resp < 2 ^ 59" "1 / 10 \<le> cd_duration d"
  shows "reported rp (generate_conn_log a ty d)
    (conn_rule_table pkts (PStr st) port orig resp (ty = ''encrypted_malware''))"
proof -
  let ?e = "generate_conn_log a ty d"
  note fields = conn_log_fields [OF shape]
  have dur: "safe_float (PFloat (Fin (cd_duration d))) = Inr (Fin (cd_duration d))"
    by (simp add: safe_float_def is_null_field_def)
  obtain b where "rate (orig + resp) (Fin (cd_duration d)) = Inr b"
    using rate_small [of "orig + resp" "cd_duration d"] draws by auto
  then obtain f where f: "extract_features ?e = Inr f"
    by (simp add: extract_features_conn fields extract_flow_features_def dur)
  have ja4: "(event_ja4 rp ?e \<noteq> [] \<and> event_ja4 rp ?e \<in> set (ja4_fingerprints None)) = (ty = ''encrypted_malware'')"
    by (simp add: event_ja4_def fields py_or_def default_fingerprints)
  from conn_rules_fire [OF _ f, of pkts port orig resp rp "ja4_fingerprints None"]
  show ?thesis unfolding reported_def ja4 using f by (simp add: is_event_def fields)
qed

lemma dns_log_reported:
  assumes "dns_domain a ty d = (q, qt)"
  shows "reported rp (generate_dns_log a ty d) (dns_rule_table q (PStr qt))"
proof -
  let ?e = "generate_dns_log a ty d"
  have e: "is_event ''dns'' ?e" "dget_or ?e ''query'' (PStr []) = PStr q" "oget ?e ''qtype_name'' = PStr qt"
    using assms by (simp_all add: is_event_def generate_dns_log_def)
  from dns_rules_fire [OF e(1,2)] show ?thesis unfolding reported_def e(3) by blast
qed

lemma benign_domains_silent:
  assumes "q \<in> {''google.com'', ''apple.com'', ''cloudflare.com''}" shows "dns_rule_table q (PStr ''A'') = []"
  using assms by (auto simp: dns_rule_table_def Let_def)

definition label_explained :: "py_repr \<Rightarrow> obj \<Rightarrow> bool" where
  "label_explained rp event \<longleftrightarrow>
     (\<exists>rules. reported rp event rules \<and>
        (case dget (map (\<lambda>(k, r). (PStr k, r)) rule_for) (oget event ''attack_label'') of
           Some r \<Rightarrow> r \<in> set rules
         | None \<Rightarrow> oget event ''attack_label'' = PStr ''normal'' \<and> rules = []))"

lemma conn_attack_cases:
  assumes "a \<and> ty \<in> set MIXED_ATTACKS \<and> ty \<noteq> ''dga_dns_tunnelling'' \<or> \<not> a \<and> ty = []"
  obtains "a" "ty = ''reconnaissance''" | "a" "ty = ''ddos''" | "a" "ty = ''data_exfiltration''"
    | "a" "ty = ''encrypted_malware''" | "a" "ty = ''c2_beaconing''" | "\<not> a" "ty = []"
  using assms unfolding MIXED_ATTACKS_def list.set by (elim disjE conjE insertE emptyE) (simp_all only: simp_thms)

text \<open>An attack triggers at least its own rule, a normal connection none.\<close>

definition table_explains :: "bool \<Rightarrow> string \<Rightarrow> string list \<Rightarrow> bool" where
  "table_explains a ty rules \<longleftrightarrow> (if a then (\<exists>r. dget rule_for ty = Some r \<and> r \<in> set rules) else rules = [])"

lemma conn_table_explains:
  assumes base: "base_draws_ok d" and attack: "attack_draws_ok ty d"
    and ty: "a \<and> ty \<in> set MIXED_ATTACKS \<and> ty \<noteq> ''dga_dns_tunnelling'' \<or> \<not> a \<and> ty = []"
    and shape: "conn_shape a ty d = (st, orig, resp, pkts, port)"
  shows "0 \<le> orig \<and> orig < 2 ^ 59 \<and> 0 \<le> resp \<and> resp < 2 ^ 59 \<and>
    table_explains a ty (conn_rule_table pkts (PStr st) port orig resp (ty = ''encrypted_malware''))"
  using base attack shape
  by (cases rule: conn_attack_cases [OF ty])
    (auto simp: conn_shape_def base_draws_ok_def attack_draws_ok_def conn_rule_table_def table_explains_def rule_for_def)

lemma mixed_attack_label:
  assumes "a \<and> ty \<in> set MIXED_ATTACKS \<or> \<not> a \<and> ty = []" "table_explains a ty rules"
  shows "case dget (map (\<lambda>(k, r). (PStr k, r)) rule_for) (PStr (if a then ty else ''normal'')) of
      Some r \<Rightarrow> r \<in> set rules | None \<Rightarrow> PStr (if a then ty else ''normal'') = PStr ''normal'' \<and> rules = []"
  using assms(2) by (cases a) (auto simp: table_explains_def rule_for_def split: if_splits)

lemma conn_label_explained:
  assumes base: "base_draws_ok d" and attack: "attack_draws_ok ty d"
    and ty: "a \<and> ty \<in> set MIXED_ATTACKS \<and> ty \<noteq> ''dga_dns_tunnelling'' \<or> \<not> a \<and> ty = []"
  shows "label_explained rp (generate_conn_log a ty d)"
proof -
  obtain st orig resp pkts port where shape: "conn_shape a ty d = (st, orig, resp, pkts, port)"
    by (metis prod_cases5)
  note explains = conn_table_explains [OF base attack ty shape]
  have dur: "1 / 10 \<le> cd_duration d" using base by (simp add: base_draws_ok_def)
  have mixed: "a \<and> ty \<in> set MIXED_ATTACKS \<or> \<not> a \<and> ty = []" using ty by blast
  have rep: "reported rp (generate_conn_log a ty d) (conn_rule_table pkts (PStr st) port orig resp (ty = ''encrypted_malware''))"
    using explains by (intro conn_log_reported [OF shape _ _ _ _ dur]) simp_all
  show ?thesis unfolding label_explained_def conn_log_fields(8) [OF shape]
    using rep mixed_attack_label [OF mixed] explains by blast
qed

lemma dns_label_explained:
  assumes "dns_draws_ok d" and ty: "a \<and> ty = ''dga_dns_tunnelling'' \<or> \<not> a \<and> ty = []"
  shows "label_explained rp (generate_dns_log a ty d)"
proof -
  obtain q qt where dom: "dns_domain a ty d = (q, qt)" by fastforce
  have label: "oget (generate_dns_log a ty d) ''attack_label'' = PStr (if a then ty else ''normal'')"
    using dom by (simp add: generate_dns_log_def)
  from ty show ?thesis
  proof
    assume "a \<and> ty = ''dga_dns_tunnelling''"
    moreover from this have "60 < length q" "qt = ''TXT''"
      using dom assms(1) by (auto simp: dns_domain_def dns_draws_ok_def split: prod.splits)
    ultimately show ?thesis unfolding label_explained_def label
      by (intro exI [of _ "dns_rule_table q (PStr qt)"] conjI dns_log_reported [OF dom])
        (simp add: rule_for_def dns_rule_table_def Let_def)
  next
    assume "\<not> a \<and> ty = []"
    moreover from this have "q \<in> {''google.com'', ''apple.com'', ''cloudflare.com''}" "qt = ''A''"
      using dom assms(1) by (auto simp: dns_domain_def dns_draws_ok_def)
    ultimately show ?thesis unfolding label_explained_def label
      by (intro exI [of _ "dns_rule_table q (PStr qt)"] conjI dns_log_reported [OF dom])
        (simp add: rule_for_def benign_domains_silent)
  qed
qed

lemma mixed_labels_explained:
  assumes "loop_draws_ok ''mixed'' d"
  shows "label_explained rp (next_event ''mixed'' d)"
proof (cases "ld_attack d < 2 / 10")
  case True
  then show ?thesis using assms
    by (auto simp: next_event_def choose_attack_def loop_draws_ok_def intro: conn_label_explained dns_label_explained)
next
  case False
  then show ?thesis using assms
    by (auto simp: next_event_def choose_attack_def loop_draws_ok_def intro: conn_label_explained dns_label_explained)
qed

text \<open>C23. In the mixed scenario the simulator's labels and the rules agree, for all draws: every event labelled
as an attack is reported by the rule made for that attack, and every event labelled normal passes
feature extraction and all six rules without a detection.\<close>

theorem simulated_labels_explained:
  assumes "loop_draws_ok ''mixed'' d"
  shows "label_explained rp (next_event ''mixed'' d)"
  by (rule mixed_labels_explained [OF assms])

definition sample_draws :: loop_draws where
  "sample_draws =
     \<lparr>ld_attack = 1 / 10, ld_choice = ''ddos'', ld_kind = 1 / 2,
      ld_conn = \<lparr>cd_ts = 0, cd_hex = ''0f'', cd_src = 10, cd_dst1 = 1, cd_dst2 = 1, cd_dst_port = 443, cd_orig_bytes = 100,
        cd_resp_bytes = 100, cd_orig_pkts = 5, cd_attack_pkts = 15000, cd_attack_port = 80, cd_attack_orig = 0,
        cd_attack_resp = 0, cd_orig_port = 1024, cd_duration = 1, cd_resp_pkts = 5\<rparr>,
      ld_dns = \<lparr>dd_ts = 0, dd_hex = ''0f'', dd_uuids = (replicate 32 (CHR ''a''), replicate 32 (CHR ''b''), replicate 32 (CHR ''c'')),
        dd_dga = ''agjzzyxb.com'', dd_normal = ''google.com'', dd_src = 10, dd_orig_port = 1024, dd_trans_id = 1000, dd_rtt = 0\<rparr>\<rparr>"

theorem simulated_labels_explained_witness:
  "oget (next_event ''mixed'' sample_draws) ''attack_label'' = PStr ''ddos'' \<and> label_explained (\<lambda>_. []) (next_event ''mixed'' sample_draws)"
proof -
  have ok: "loop_draws_ok ''mixed'' sample_draws"
    by (simp add: loop_draws_ok_def sample_draws_def MIXED_ATTACKS_def base_draws_ok_def dns_draws_ok_def attack_draws_ok_def
        choose_attack_def)
  have "oget (next_event ''mixed'' sample_draws) ''attack_label'' = PStr ''ddos''"
    by (simp add: next_event_def choose_attack_def sample_draws_def generate_conn_log_def conn_shape_def)
  with simulated_labels_explained [OF ok, of "\<lambda>_. []"] show ?thesis by simp
qed

text \<open>The other two scenarios of the command line have no branch in the generators: their events carry an
  attack label and look like normal traffic.\<close>

lemma scenario_attack_undetected:
  assumes "scenario = ''dga'' \<or> scenario = ''port_scan''" "base_draws_ok (ld_conn d)" "ld_attack d < 2 / 10"
  shows "reported rp (next_event scenario d) [] \<and> oget (next_event scenario d) ''attack_label'' = PStr scenario"
proof -
  have e: "next_event scenario d = generate_conn_log True scenario (ld_conn d)"
    using assms by (auto simp: next_event_def choose_attack_def)
  have shape: "conn_shape True scenario (ld_conn d) =
      (''SF'', cd_orig_bytes (ld_conn d), cd_resp_bytes (ld_conn d), cd_orig_pkts (ld_conn d), cd_dst_port (ld_conn d))"
    using assms(1) by (auto simp: conn_shape_def)
  have "conn_rule_table (cd_orig_pkts (ld_conn d)) (PStr ''SF'') (cd_dst_port (ld_conn d)) (cd_orig_bytes (ld_conn d))
      (cd_resp_bytes (ld_conn d)) (scenario = ''encrypted_malware'') = []"
    using assms(1,2) by (auto simp: conn_rule_table_def base_draws_ok_def)
  moreover have "reported rp (next_event scenario d) (conn_rule_table (cd_orig_pkts (ld_conn d)) (PStr ''SF'')
      (cd_dst_port (ld_conn d)) (cd_orig_bytes (ld_conn d)) (cd_resp_bytes (ld_conn d)) (scenario = ''encrypted_malware''))"
    unfolding e using assms(2) by (intro conn_log_reported [OF shape]) (auto simp: base_draws_ok_def)
  ultimately show ?thesis using conn_log_fields(8) [OF shape] by (simp add: e)
qed

end
