(* ===== verification/Training.thy ===== *)
theory Training
  imports Models "HOL-Library.While_Combinator"
begin

text \<open>
  What surrounds the training of the DGA classifier: how a domain becomes a training vector
  (\<open>inference/train_model.py\<close>, \<open>scripts/continuous_training.py\<close>, \<open>scripts/train_dl_models.py\<close>), when
  training stops, how a model reaches production, and the two integrity scripts
  (\<open>scripts/verify_model_integrity.py\<close>, \<open>scripts/sign_manifest.py\<close>). The optimisation itself is PyTorch's:
  an epoch is the validation accuracy it reaches and the bytes of its traced model. SHA-256, the
  loaders and Ed25519 are parameters.
\<close>

section \<open>Encoders\<close>

text \<open>\<open>generate_hard_dataset\<close> and \<open>generate_dynamic_dataset\<close> encode alike: unknown characters become 0,
  the padding. \<open>train_dl_models\<close> replaces them by a dash first.\<close>

definition max_len :: nat where
  "max_len = 35"

definition pad_to :: "nat \<Rightarrow> nat list \<Rightarrow> nat list" where
  "pad_to n xs = (if length xs < n then xs @ replicate (n - length xs) 0 else xs)"

definition train_encode :: "string \<Rightarrow> nat list" where
  "train_encode d = take max_len (pad_to max_len (encode_domain (py_lower d)))"

definition dl_encode_domain :: "string \<Rightarrow> nat list" where
  "dl_encode_domain domain = pad_to max_len (encode_domain (take max_len (sanitize (py_lower domain))))"

section \<open>Synthetic domains\<close>

text \<open>\<open>generate_procedural_word\<close>: consonants and vowels in turn, as the draws give them.\<close>

fun procedural_word :: "bool \<Rightarrow> string \<Rightarrow> string \<Rightarrow> nat \<Rightarrow> string" where
  "procedural_word even_pos consonants vowels 0 = []"
| "procedural_word even_pos consonants vowels (Suc n) =
     (if even_pos then
        (case consonants of c # cs \<Rightarrow> c # procedural_word False cs vowels n | [] \<Rightarrow> [])
      else (case vowels of v # vs \<Rightarrow> v # procedural_word True consonants vs n | [] \<Rightarrow> []))"

definition MUTATIONS :: "(char \<times> char) list" where
  "MUTATIONS = [(CHR ''o'', CHR ''0''), (CHR ''l'', CHR ''1''), (CHR ''i'', CHR ''1''),
     (CHR ''e'', CHR ''3''), (CHR ''a'', CHR ''4''), (CHR ''s'', CHR ''5'')]"

fun mutate :: "bool list \<Rightarrow> (char \<times> char) list \<Rightarrow> string \<Rightarrow> string" where
  "mutate (hit # hits) ((c, m) # ms) base =
     mutate hits ms (if hit then replace_all [c] [m] base else base)"
| "mutate _ _ base = base"

text \<open>The draws of one pair of samples in \<open>generate_dynamic_dataset\<close>.\<close>

record pair_draws =
  pd_type :: real
  pd_parts :: "string list"
  pd_random :: string
  pd_payload :: string
  pd_base :: string
  pd_prefix :: string
  pd_tld :: string
  pd_mutations :: "bool list"
  pd_benign_base :: string
  pd_digits :: "nat option"
  pd_sub :: "(string \<times> nat option) option"
  pd_benign_tld :: string

definition malicious_domain :: "pair_draws \<Rightarrow> string" where
  "malicious_domain d =
     (if pd_type d < 1 / 4 then join ''-'' (pd_parts d) @ pd_tld d
      else if pd_type d < 1 / 2 then pd_random d @ pd_tld d
      else if pd_type d < 3 / 4 then pd_payload d @ ''.'' @ pd_prefix d @ ''.'' @ pd_base d @ pd_tld d
      else pd_prefix d @ ''-'' @ mutate (pd_mutations d) MUTATIONS (pd_base d) @ pd_tld d)"

definition benign_domain :: "pair_draws \<Rightarrow> string" where
  "benign_domain d =
     (let base = pd_benign_base d @ (case pd_digits d of None \<Rightarrow> [] | Some n \<Rightarrow> str_of_nat n) in
      case pd_sub d of
        None \<Rightarrow> base @ pd_benign_tld d
      | Some (sub, version) \<Rightarrow>
          sub @ (case version of None \<Rightarrow> [] | Some n \<Rightarrow> ''-v'' @ str_of_nat n) @ ''.'' @ base @ pd_benign_tld d)"

text \<open>The dataset: two samples per pair of draws, shuffled, encoded.\<close>

definition labelled_pairs :: "pair_draws list \<Rightarrow> (string \<times> nat) list" where
  "labelled_pairs ds = concat (map (\<lambda>d. [(malicious_domain d, 1), (benign_domain d, 0)]) ds)"

definition generate_dynamic_dataset ::
  "((string \<times> nat) list \<Rightarrow> (string \<times> nat) list) \<Rightarrow> pair_draws list \<Rightarrow> (nat list \<times> nat) list" where
  "generate_dynamic_dataset shuffle ds = map (\<lambda>(d, y). (train_encode d, y)) (shuffle (labelled_pairs ds))"

text \<open>One pair of \<open>generate_hard_dataset\<close>.\<close>

record hard_draws =
  hd_type :: real
  hd_words :: "string \<times> string \<times> string"
  hd_base :: string
  hd_random :: string
  hd_benign :: string
  hd_sub :: "string option"

definition hard_malicious :: "hard_draws \<Rightarrow> string" where
  "hard_malicious d =
     (if hd_type d < 33 / 100 then
        (case hd_words d of (a, b, c) \<Rightarrow> a @ ''-'' @ b @ ''-'' @ c @ ''.com'')
      else if hd_type d < 66 / 100 then
        (let dga = replace_all ''e'' ''3'' (replace_all ''i'' ''1'' (replace_all ''l'' ''1'' (replace_all ''o'' ''0'' (hd_base d))))
         in if dga = hd_base d then ''g00gle.com'' else dga)
      else hd_random d @ ''.com'')"

definition hard_benign :: "hard_draws \<Rightarrow> string" where
  "hard_benign d = (case hd_sub d of Some sub \<Rightarrow> sub @ ''.'' @ hd_benign d | None \<Rightarrow> hd_benign d)"

definition generate_hard_dataset ::
  "((string \<times> nat) list \<Rightarrow> (string \<times> nat) list) \<Rightarrow> hard_draws list \<Rightarrow> (nat list \<times> nat) list" where
  "generate_hard_dataset shuffle ds =
     map (\<lambda>(d, y). (train_encode d, y)) (shuffle (concat (map (\<lambda>d. [(hard_malicious d, 1), (hard_benign d, 0)]) ds)))"

text \<open>The data of \<open>train_cnn\<close>, which is not shuffled before it is batched.\<close>

definition train_cnn_data :: "string list \<Rightarrow> string list \<Rightarrow> string list \<Rightarrow> (nat list \<times> nat) list" where
  "train_cnn_data benign dgas random_dgas =
     zip (map dl_encode_domain (benign @ dgas @ random_dgas))
       (replicate (length benign) 0 @ replicate (length dgas) 1 @ replicate (length random_dgas) 1)"

text \<open>The scaled features of one benign flow that \<open>train_autoencoder\<close> draws; \<open>log1p\<close> is exact here.\<close>

definition log1p :: "real \<Rightarrow> real" where
  "log1p x = ln (1 + x)"

definition autoencoder_vec :: "real \<Rightarrow> real \<Rightarrow> real \<Rightarrow> real \<Rightarrow> real list" where
  "autoencoder_vec orig_b resp_b dur pkts =
     (let ratio = resp_b / max 1 orig_b in
      map2 (/) [log1p orig_b, log1p resp_b, log1p dur, log1p pkts, log1p ratio] [15, 15, 10, 10, 10])"

section \<open>Early stopping\<close>

text \<open>An epoch yields an accuracy and a model; the state keeps the best accuracy and the model saved with
  it. The loop of the continuous trainer has patience 5 and at most 30 epochs; the offline trainer
  has patience 8, at most 50 epochs and a target.\<close>

record 'b training =
  tr_epoch :: nat
  tr_best :: real
  tr_no_improve :: nat
  tr_saved :: "'b option"

definition new_training :: "'b training" where
  "new_training = \<lparr>tr_epoch = 0, tr_best = 0, tr_no_improve = 0, tr_saved = None\<rparr>"

definition epoch_step :: "(nat \<Rightarrow> real \<times> 'b) \<Rightarrow> 'b training \<Rightarrow> 'b training" where
  "epoch_step run s =
     (let epoch = Suc (tr_epoch s) in
      case run epoch of (acc_val, model) \<Rightarrow>
        if acc_val > tr_best s then \<lparr>tr_epoch = epoch, tr_best = acc_val, tr_no_improve = 0, tr_saved = Some model\<rparr>
        else s\<lparr>tr_epoch := epoch, tr_no_improve := Suc (tr_no_improve s)\<rparr>)"

definition train_cycle :: "(nat \<Rightarrow> real \<times> 'b) \<Rightarrow> 'b training option" where
  "train_cycle run = while_option (\<lambda>s. tr_no_improve s < 5 \<and> tr_epoch s < 30) (epoch_step run) new_training"

definition train_to_max :: "(nat \<Rightarrow> real \<times> 'b) \<Rightarrow> 'b training option" where
  "train_to_max run =
     while_option (\<lambda>s. tr_best s < 9995 / 100 \<and> tr_no_improve s < 8 \<and> tr_epoch s < 50) (epoch_step run) new_training"

section \<open>Deployment\<close>

text \<open>The model directory: the artifact, its checksum, and the two temporary files. Each field is the
  content of a file, if it exists; \<open>os.replace\<close> moves one file atomically.\<close>

record model_dir =
  f_model :: "bytes option"
  f_sha :: "string option"
  f_temp :: "bytes option"
  f_temp_sha :: "string option"

datatype dir_op = SaveModel bytes | WriteSha string | SaveTemp bytes | WriteTempSha string | ReplaceSha | ReplaceModel

text \<open>Replacing a file that does not exist raises.\<close>

fun run_op :: "model_dir \<Rightarrow> dir_op \<Rightarrow> model_dir result" where
  "run_op d (SaveModel b) = Inr (d\<lparr>f_model := Some b\<rparr>)"
| "run_op d (WriteSha s) = Inr (d\<lparr>f_sha := Some s\<rparr>)"
| "run_op d (SaveTemp b) = Inr (d\<lparr>f_temp := Some b\<rparr>)"
| "run_op d (WriteTempSha s) = Inr (d\<lparr>f_temp_sha := Some s\<rparr>)"
| "run_op d ReplaceSha =
     (case f_temp_sha d of None \<Rightarrow> Inl (OtherError ''FileNotFoundError'')
      | Some s \<Rightarrow> Inr (d\<lparr>f_sha := Some s, f_temp_sha := None\<rparr>))"
| "run_op d ReplaceModel =
     (case f_temp d of None \<Rightarrow> Inl (OtherError ''FileNotFoundError'')
      | Some b \<Rightarrow> Inr (d\<lparr>f_model := Some b, f_temp := None\<rparr>))"

fun run_ops :: "model_dir \<Rightarrow> dir_op list \<Rightarrow> model_dir result" where
  "run_ops d [] = Inr d"
| "run_ops d (op # ops) = bind_result (run_op d op) (\<lambda>d1. run_ops d1 ops)"

definition save_traced_model :: "(bytes \<Rightarrow> string) \<Rightarrow> bytes \<Rightarrow> dir_op list" where
  "save_traced_model sha256 b = [SaveModel b, WriteSha (sha256 b @ [CHR 0x0A])]"

definition save_temp_model :: "(bytes \<Rightarrow> string) \<Rightarrow> bytes \<Rightarrow> dir_op list" where
  "save_temp_model sha256 b = [SaveTemp b, WriteTempSha (sha256 b)]"

definition deploy :: "dir_op list" where
  "deploy = [ReplaceSha, ReplaceModel]"

text \<open>One cycle of the continuous trainer: the temporary model of every improving epoch, of which the
  last counts, then the deployment.\<close>

definition cycle_ops :: "(bytes \<Rightarrow> string) \<Rightarrow> bytes training \<Rightarrow> dir_op list" where
  "cycle_ops sha256 s = (case tr_saved s of None \<Rightarrow> [] | Some b \<Rightarrow> save_temp_model sha256 b) @ deploy"

text \<open>What an engine that starts now reads.\<close>

definition engine_files :: "model_dir \<Rightarrow> file_system" where
  "engine_files d =
     \<lparr>fs_size = (\<lambda>p. if p = ''models/cnn_dga.pt'' then map_option (\<lambda>b. int (length b)) (f_model d) else None),
      fs_bytes = (\<lambda>p. if p = ''models/cnn_dga.pt'' then f_model d else None),
      fs_text = (\<lambda>p. if p = ''models/cnn_dga.pt.sha256'' then f_sha d else None)\<rparr>"

section \<open>Integrity scripts\<close>

datatype exit_status = Verified | Failed | Raised exc

text \<open>\<open>s.split()\<close>: the maximal runs of characters that are no whitespace; the first of them.\<close>

definition first_word :: "string \<Rightarrow> string option" where
  "first_word s = (let w = takeWhile (\<lambda>c. \<not> is_space c) (lstrip s) in if w = [] then None else Some w)"

record 'm loaders =
  ld_sha256 :: "bytes \<Rightarrow> string"
  ld_weights :: "bytes \<Rightarrow> 'm result"
  ld_jit :: "bytes \<Rightarrow> 'm result"

definition verify_model_integrity :: "'m loaders \<Rightarrow> bytes option \<Rightarrow> string option \<Rightarrow> exit_status" where
  "verify_model_integrity L model_file sha_file =
     (case sha_file of
        None \<Rightarrow> Raised (OtherError ''FileNotFoundError'')
      | Some text \<Rightarrow>
          (case first_word text of
             None \<Rightarrow> Raised (OtherError ''IndexError'')
           | Some expected \<Rightarrow>
               (case model_file of
                  None \<Rightarrow> Raised (OtherError ''FileNotFoundError'')
                | Some model_bytes \<Rightarrow>
                    (case compare_digest (ld_sha256 L model_bytes) expected of
                       Inl e \<Rightarrow> Raised e
                     | Inr same \<Rightarrow>
                         if \<not> same then Failed
                         else (case ld_weights L model_bytes of
                                 Inr _ \<Rightarrow> Verified
                               | Inl _ \<Rightarrow> (case ld_jit L model_bytes of Inr _ \<Rightarrow> Verified | Inl e \<Rightarrow> Raised e))))))"

record 'k ed25519 =
  ed_from_hex :: "string \<Rightarrow> 'k result"
  ed_sign :: "'k \<Rightarrow> string \<Rightarrow> string"

record manifest =
  mf_artifact :: string
  mf_sha256 :: string
  mf_sig :: string

definition load_persistent_private_key :: "'k ed25519 \<Rightarrow> environ \<Rightarrow> 'k result" where
  "load_persistent_private_key E env =
     (case env ''MODEL_SIGNING_PRIVATE_KEY'' of
        None \<Rightarrow> Inl RuntimeError
      | Some raw_hex \<Rightarrow> if raw_hex = [] then Inl RuntimeError else ed_from_hex E raw_hex)"

text \<open>The result and the content of the manifest file, which is written last.\<close>

definition sign_artifact ::
  "'k ed25519 \<Rightarrow> (bytes \<Rightarrow> string) \<Rightarrow> (string \<Rightarrow> string) \<Rightarrow> environ \<Rightarrow> string \<Rightarrow> bytes option \<Rightarrow> manifest option \<Rightarrow>
   manifest result \<times> manifest option" where
  "sign_artifact E sha256 basename env path file written =
     (case file of
        None \<Rightarrow> (Inl (OtherError ''FileNotFoundError''), written)
      | Some b \<Rightarrow>
          (let digest = sha256 b in
           case load_persistent_private_key E env of
             Inl e \<Rightarrow> (Inl e, written)
           | Inr key \<Rightarrow>
               (let m = \<lparr>mf_artifact = basename path, mf_sha256 = digest, mf_sig = ed_sign E key digest\<rparr>
                in (Inr m, Some m))))"

section \<open>Training vectors\<close>

lemma length_encode_domain [simp]: "length (encode_domain d) = length d"
  by (simp add: encode_domain_def)

lemma length_sanitize [simp]: "length (sanitize d) = length d"
  by (simp add: sanitize_def)

lemma length_pad_to: "length (pad_to n xs) = max n (length xs)"
  by (simp add: pad_to_def)

lemma train_encode_shape: "length (train_encode d) = 35 \<and> (\<forall>x\<in>set (train_encode d). x \<le> 38)"
proof
  show "length (train_encode d) = 35" by (simp add: train_encode_def max_len_def length_pad_to)
  show "\<forall>x\<in>set (train_encode d). x \<le> 38"
    by (auto simp: train_encode_def pad_to_def max_len_def dest!: in_set_takeD split: if_splits intro: encode_range)
qed

lemma sanitize_valid: "\<forall>c\<in>set d. char_map c \<noteq> None \<Longrightarrow> sanitize d = d"
  by (simp add: sanitize_def map_idI)

text \<open>Training and inference see the same vector: for every domain of at most 35 characters over the
alphabet, the two training encoders and the single window the engine cuts from the sanitised domain
agree, whatever the engine's budget.\<close>

theorem encoders_agree:
  assumes "length d \<le> 35" "\<forall>c\<in>set (py_lower d). char_map c \<noteq> None"
  shows "dl_encode_domain d = train_encode d \<and>
    domain_slices budget (encode_domain (sanitize (py_lower d))) = [train_encode d]"
  using assms by (auto simp: dl_encode_domain_def train_encode_def domain_slices_def pad_to_def max_len_def sanitize_valid)

theorem encoders_agree_witness:
  "dl_encode_domain ''Ab-1.io'' = train_encode ''Ab-1.io'' \<and>
   domain_slices 1 (encode_domain (sanitize (py_lower ''Ab-1.io''))) = [train_encode ''Ab-1.io'']"
proof -
  have "\<forall>c\<in>set (py_lower ''Ab-1.io''). char_map c \<noteq> None" by code_simp
  from encoders_agree [OF _ this, of 1] show ?thesis by simp
qed

text \<open>A character outside the alphabet is padding to the one and a dash to the other.\<close>

lemma encoders_differ: "dl_encode_domain ''a_b'' \<noteq> train_encode ''a_b''"
  by code_simp

lemma labelled_pairs_count:
  "length (labelled_pairs ds) = 2 * length ds \<and> length (filter (\<lambda>p. snd p = 1) (labelled_pairs ds)) = length ds"
  by (induction ds) (simp_all add: labelled_pairs_def)

lemma filter_length_mset: "mset xs = mset ys \<Longrightarrow> length (filter P xs) = length (filter P ys)"
  by (metis mset_filter size_mset)

text \<open>Every synthetic dataset fits the network it trains: whatever is drawn and however it is shuffled, it
has two samples per pair, exactly half of them malicious, and every vector has 35 entries below the
vocabulary size 39, so the embedding lookup is in range.\<close>

theorem dataset_well_formed:
  assumes "\<And>xs. mset (shuffle xs) = mset xs"
  shows "length (generate_dynamic_dataset shuffle ds) = 2 * length ds \<and>
    length (filter (\<lambda>(x, y). y = 1) (generate_dynamic_dataset shuffle ds)) = length ds \<and>
    list_all (\<lambda>(x, y). length x = 35 \<and> list_all (\<lambda>i. i < 39) x) (generate_dynamic_dataset shuffle ds)"
proof -
  let ?ps = "shuffle (labelled_pairs ds)"
  have len: "length ?ps = 2 * length ds"
    using assms labelled_pairs_count by (metis size_mset)
  have pos: "length (filter (\<lambda>p. snd p = 1) ?ps) = length ds"
    using filter_length_mset [OF assms] labelled_pairs_count by metis
  have "filter (\<lambda>(x, y). y = 1) (generate_dynamic_dataset shuffle ds) =
      map (\<lambda>(d, y). (train_encode d, y)) (filter (\<lambda>p. snd p = 1) ?ps)"
    by (simp add: generate_dynamic_dataset_def filter_map comp_def case_prod_unfold)
  moreover have "list_all (\<lambda>(x, y). length x = 35 \<and> list_all (\<lambda>i. i < 39) x) (generate_dynamic_dataset shuffle ds)"
    using train_encode_shape by (fastforce simp: generate_dynamic_dataset_def list_all_iff)
  ultimately show ?thesis using len pos by (simp add: generate_dynamic_dataset_def)
qed

lemma train_cnn_data_labels:
  "(x, y) \<in> set (train_cnn_data benign dgas random_dgas) \<Longrightarrow>
   \<exists>d. x = dl_encode_domain d \<and> (y = 0 \<and> d \<in> set benign \<or> y = 1 \<and> d \<in> set dgas \<union> set random_dgas)"
  by (auto simp: train_cnn_data_def zip_append dest!: set_zip_leftD set_zip_rightD
      elim!: in_set_zipE)

lemma ln_le_of_power:
  assumes "0 < x" "x \<le> (5 / 2) ^ n" shows "ln x \<le> real n"
proof -
  have "(5 / 2 :: real) \<le> exp 1" using exp_lower_Taylor_quadratic [of 1] by simp
  then have "(5 / 2) ^ n \<le> exp (1 :: real) ^ n" by (rule power_mono) simp
  then have "x \<le> exp (real n)" using assms(2) by (simp add: exp_of_nat_mult [symmetric])
  then have "ln x \<le> ln (exp (real n))" using assms(1) by (subst ln_le_cancel_iff) simp_all
  then show ?thesis by simp
qed

text \<open>The scaling factors put every feature of the drawn flows into the unit interval.\<close>

lemma autoencoder_features_unit:
  assumes "500 \<le> orig_b" "orig_b \<le> 2000" "5000 \<le> resp_b" "resp_b \<le> 500000"
    and "1 / 10 \<le> dur" "dur \<le> 10" "10 \<le> pkts" "pkts \<le> 500"
  shows "list_all (\<lambda>v. 0 < v \<and> v \<le> 1) (autoencoder_vec orig_b resp_b dur pkts)"
proof -
  have unit: "0 < log1p x / real n \<and> log1p x / real n \<le> 1" if "0 < x" "1 + x \<le> (5 / 2) ^ n" "0 < n" for x n
  proof -
    have "ln (1 + x) \<le> real n" using that by (intro ln_le_of_power) simp_all
    moreover have "0 < ln (1 + x)" using that by (simp add: ln_gt_zero)
    ultimately show ?thesis using that by (simp add: log1p_def divide_le_eq)
  qed
  have ratio: "0 < resp_b / max 1 orig_b" "1 + resp_b / max 1 orig_b \<le> (5 / 2) ^ 10"
    using assms(1,3,4) by (simp_all add: max_def divide_simps)
  show ?thesis
    using unit [of orig_b 15] unit [of resp_b 15] unit [of dur 10] unit [of pkts 10] unit [OF ratio] assms
    by (simp add: autoencoder_vec_def Let_def power_divide)
qed

definition sample_pair :: pair_draws where
  "sample_pair = \<lparr>pd_type = 9 / 10, pd_parts = [], pd_random = [], pd_payload = [], pd_base = ''solar'', pd_prefix = ''api'',
     pd_tld = ''.io'', pd_mutations = [True, False, False, False, True, True], pd_benign_base = ''river'', pd_digits = Some 7,
     pd_sub = Some (''cdn'', Some 3), pd_benign_tld = ''.com''\<rparr>"

lemma sample_pair_domains:
  "malicious_domain sample_pair = ''api-50l4r.io''" "benign_domain sample_pair = ''cdn-v3.river7.com''"
proof -
  have digits: "digit_char 3 = CHR ''3''" "digit_char 7 = CHR ''7''" by code_simp+
  show "malicious_domain sample_pair = ''api-50l4r.io''" "benign_domain sample_pair = ''cdn-v3.river7.com''"
    by (simp_all add: malicious_domain_def benign_domain_def sample_pair_def MUTATIONS_def str_of_nat_small digits)
qed

theorem dataset_well_formed_witness:
  "length (generate_dynamic_dataset rev [sample_pair]) = 2 \<and>
   length (filter (\<lambda>(x, y). y = 1) (generate_dynamic_dataset rev [sample_pair])) = 1"
  using dataset_well_formed [of rev "[sample_pair]"] by simp

section \<open>Training ends\<close>

definition training_ok :: "(nat \<Rightarrow> real \<times> 'b) \<Rightarrow> 'b training \<Rightarrow> bool" where
  "training_ok run s \<longleftrightarrow>
     tr_best s = Max (insert 0 ((\<lambda>e. fst (run e)) ` {1..tr_epoch s})) \<and>
     (case tr_saved s of
        None \<Rightarrow> tr_best s = 0
      | Some m \<Rightarrow> 0 < tr_best s \<and> (\<exists>e\<in>{1..tr_epoch s}. run e = (tr_best s, m)))"

lemma epoch_step_simps:
  "tr_epoch (epoch_step run s) = Suc (tr_epoch s)"
  by (simp add: epoch_step_def Let_def split: prod.split)

lemma training_ok_step:
  assumes "training_ok run s" shows "training_ok run (epoch_step run s)"
proof -
  let ?e = "Suc (tr_epoch s)"
  let ?A = "(\<lambda>e. fst (run e)) ` {1..tr_epoch s}"
  obtain acc m where run: "run ?e = (acc, m)" by fastforce
  have best: "tr_best s = Max (insert 0 ?A)" using assms by (simp add: training_ok_def)
  have "insert 0 ((\<lambda>e. fst (run e)) ` {1..?e}) = insert acc (insert 0 ?A)"
    using run by (auto simp: atLeastAtMostSuc_conv)
  then have new: "Max (insert 0 ((\<lambda>e. fst (run e)) ` {1..?e})) = max acc (tr_best s)"
    by (simp add: best del: Max_insert) (subst Max_insert, simp_all)
  have pos: "0 \<le> tr_best s" unfolding best by (rule Max_ge) simp_all
  show ?thesis
  proof (cases "acc > tr_best s")
    case True
    then show ?thesis using run new pos
      by (auto simp: training_ok_def epoch_step_def Let_def max_def intro!: bexI [of _ ?e])
  next
    case False
    then have "tr_best (epoch_step run s) = tr_best s" "tr_saved (epoch_step run s) = tr_saved s"
      using run by (simp_all add: epoch_step_def Let_def)
    moreover have "max acc (tr_best s) = tr_best s" using False by simp
    moreover have "{1..tr_epoch s} \<subseteq> {1..?e}" by auto
    ultimately show ?thesis using assms new
      by (auto simp: training_ok_def epoch_step_simps split: option.splits)
  qed
qed

lemma training_loop:
  assumes "\<And>s. go s \<Longrightarrow> tr_epoch s < N"
  shows "\<exists>s. while_option go (epoch_step run) new_training = Some s \<and> \<not> go s \<and> training_ok run s \<and> tr_epoch s \<le> N"
proof -
  let ?P = "\<lambda>s. training_ok run s \<and> tr_epoch s \<le> N"
  have init: "?P new_training" by (simp add: training_ok_def new_training_def)
  have step: "?P (epoch_step run s)" if "?P s" "go s" for s
    using that training_ok_step assms [of s] by (simp add: epoch_step_simps)
  have dec: "N - tr_epoch (epoch_step run s) < N - tr_epoch s" if "go s" for s
    using assms [OF that] by (simp add: epoch_step_simps)
  obtain s where s: "while_option go (epoch_step run) new_training = Some s"
    using measure_while_option_Some [of ?P go "epoch_step run" "\<lambda>s. N - tr_epoch s" new_training] step dec init by blast
  with while_option_stop [OF s] while_option_rule [of ?P go "epoch_step run" new_training s] step init show ?thesis by blast
qed

text \<open>C29. A training cycle always ends, whatever the epochs yield: within 30 epochs it stops, after five epochs
without improvement or at the limit; its best accuracy is the largest of all epochs it ran, and the
model it leaves for deployment is one that reached it, or none when no epoch had a positive accuracy.\<close>

theorem training_terminates:
  "\<exists>s. train_cycle run = Some s \<and> tr_epoch s \<le> 30 \<and> (tr_epoch s = 30 \<or> 5 \<le> tr_no_improve s) \<and>
    tr_best s = Max (insert 0 ((\<lambda>e. fst (run e)) ` {1..tr_epoch s})) \<and>
    (case tr_saved s of None \<Rightarrow> tr_best s = 0 | Some m \<Rightarrow> \<exists>e\<in>{1..tr_epoch s}. run e = (tr_best s, m))"
proof -
  obtain s where s: "train_cycle run = Some s" "\<not> (tr_no_improve s < 5 \<and> tr_epoch s < 30)" "training_ok run s" "tr_epoch s \<le> 30"
    using training_loop [of "\<lambda>s. tr_no_improve s < 5 \<and> tr_epoch s < 30" 30 run] by (auto simp: train_cycle_def)
  then show ?thesis by (auto simp: training_ok_def split: option.splits)
qed

lemma offline_training_terminates:
  "\<exists>s. train_to_max run = Some s \<and> tr_epoch s \<le> 50 \<and> training_ok run s"
  using training_loop [of "\<lambda>s. tr_best s < 9995 / 100 \<and> tr_no_improve s < 8 \<and> tr_epoch s < 50" 50 run]
  by (auto simp: train_to_max_def)

section \<open>Deployment never serves an unverified model\<close>

text \<open>A SHA-256 in hexadecimal: short, ASCII, without whitespace.\<close>

definition hex_digest :: "string \<Rightarrow> bool" where
  "hex_digest s \<longleftrightarrow> length s = 64 \<and> list_all (\<lambda>c. is_decimal c \<or> is_lower_az c) s"

lemma hex_digest_plain:
  assumes "hex_digest s"
  shows "list_all (\<lambda>c. cp c < 128) s" "py_strip s = s" "py_strip (s @ [CHR 0x0A]) = s" "length s \<le> 1000"
proof -
  have plain: "\<not> is_space c \<and> cp c < 128" if "c \<in> set s" for c
    using that assms by (auto simp: hex_digest_def list_all_iff is_decimal_def is_lower_az_def is_space_def Let_def)
  then show "list_all (\<lambda>c. cp c < 128) s" by (simp add: list_all_iff)
  have "s \<noteq> []" using assms by (auto simp: hex_digest_def)
  then have "\<not> is_space (hd s)" "\<not> is_space (last s)" using plain by simp_all
  then show "py_strip s = s" using plain by (intro py_strip_no_space) blast
  have "lstrip (s @ [CHR 0x0A]) = s @ [CHR 0x0A]"
    using \<open>s \<noteq> []\<close> \<open>\<not> is_space (hd s)\<close> by (cases s) (simp_all add: lstrip_def)
  moreover have "rstrip (s @ [CHR 0x0A]) = s"
  proof -
    have "is_space (CHR 0x0A)" by code_simp
    then have "rstrip (s @ [CHR 0x0A]) = rstrip s" by (simp add: rstrip_def)
    moreover have "dropWhile is_space (rev s) = rev s"
      using \<open>s \<noteq> []\<close> \<open>\<not> is_space (last s)\<close> by (cases s rule: rev_cases) simp_all
    ultimately show ?thesis by (simp add: rstrip_def)
  qed
  ultimately show "py_strip (s @ [CHR 0x0A]) = s" by (simp add: py_strip_def)
  show "length s \<le> 1000" using assms by (simp add: hex_digest_def)
qed

definition default_env :: "environ \<Rightarrow> bool" where
  "default_env env \<longleftrightarrow> env ''MODEL_PATH'' = None \<and> env ''MAX_MODEL_SIZE_BYTES'' = None"

lemma default_size: "parse_int ''52428800'' = Some 52428800"
proof -
  have decimal: "list_all is_decimal ''52428800''" by code_simp
  have strip: "py_strip ''52428800'' = ''52428800''" by code_simp
  have "map digit_val ''52428800'' = [5, 2, 4, 2, 8, 8, 0, 0]" by code_simp
  then have "digits_us False 0 ''52428800'' = Some 52428800"
    using decimal by simp
  moreover have "n_digits ''52428800'' \<le> 4300"
    unfolding n_digits_def by (rule order_trans [OF length_filter_le]) simp
  ultimately show ?thesis by (simp add: parse_int_def parse_nat_def strip)
qed

lemma load_model_eq:
  assumes "getenv_or env ''MODEL_PATH'' ''models/cnn_dga.pt'' = path" "getenv_or env ''MAX_MODEL_SIZE_BYTES'' ''52428800'' = size_text"
    and "parse_int size_text = Some limit" "fs_size fs path = Some n" "n \<le> limit"
    and "fs_text fs (path @ ''.sha256'') = Some text" "fs_bytes fs path = Some b"
    and "compare_digest (t_sha256 T b) (py_strip (take 1024 text)) = Inr same"
  shows "load_model_from_disk T env fs =
    (if \<not> same then Inl RuntimeError else bind_result (t_load T b) (\<lambda>m. Inr (m, t_sha256 T b)))"
  using assms(5) unfolding load_model_from_disk_def Let_def assms(1,2)
  by (simp add: assms(3,4,6,7,8) of_option_def)

lemma load_from_dir:
  assumes env: "default_env env" and dir: "f_model d = Some b" "length b \<le> 52428800" "f_sha d = Some text"
    and sha: "py_strip (take 1024 text) = expected" "list_all (\<lambda>c. cp c < 128) (t_sha256 T b @ expected)"
  shows "load_model_from_disk T env (engine_files d) =
    (if t_sha256 T b \<noteq> expected then Inl RuntimeError
     else bind_result (t_load T b) (\<lambda>m. Inr (m, t_sha256 T b)))"
proof (rule load_model_eq)
  show "getenv_or env ''MODEL_PATH'' ''models/cnn_dga.pt'' = ''models/cnn_dga.pt''"
    "getenv_or env ''MAX_MODEL_SIZE_BYTES'' ''52428800'' = ''52428800''"
    using env by (simp_all add: default_env_def getenv_or_def)
  show "parse_int ''52428800'' = Some 52428800" by (rule default_size)
  show "fs_size (engine_files d) ''models/cnn_dga.pt'' = Some (int (length b))"
    "fs_bytes (engine_files d) ''models/cnn_dga.pt'' = Some b"
    "fs_text (engine_files d) (''models/cnn_dga.pt'' @ ''.sha256'') = Some text"
    using dir by (simp_all add: engine_files_def)
  show "int (length b) \<le> 52428800" using dir(2) by linarith
  show "compare_digest (t_sha256 T b) (py_strip (take 1024 text)) = Inr (t_sha256 T b = expected)"
    unfolding sha(1) compare_digest_def using sha(2) by (rule if_P)
qed

text \<open>What the engine does after the first \<open>n\<close> operations of a deployment cycle.\<close>

lemma cycle_states:
  assumes "tr_saved s = Some b" "f_model d = Some b0" "f_sha d = Some text0"
  shows "\<exists>dn. run_ops d (take n (cycle_ops h s)) = Inr dn \<and>
    f_model dn = Some (if n < 4 then b0 else b) \<and> f_sha dn = Some (if n < 3 then text0 else h b)"
proof -
  have "n = 0 \<or> n = 1 \<or> n = 2 \<or> n = 3 \<or> 4 \<le> n" by arith
  then show ?thesis using assms
    by (auto simp: cycle_ops_def save_temp_model_def deploy_def)
qed

text \<open>C30. A deployment fails closed at every moment. Start from a directory whose model an engine accepts and
deploy a new one: an engine that starts after any number of the file operations loads the old model
while the checksum is old, refuses to start between the two replacements, and loads the new model
after both; at no point does it run bytes whose digest is not the recorded one.\<close>

theorem deployment_fails_closed:
  assumes "default_env env" "\<And>b. hex_digest (t_sha256 T b)" "tr_saved s = Some b" "t_sha256 T b \<noteq> t_sha256 T b0"
    and "f_model d = Some b0" "f_sha d = Some (t_sha256 T b0 @ nl)" "nl \<in> {[], [CHR 0x0A]}"
    and "length b \<le> 52428800" "length b0 \<le> 52428800" "t_load T b0 = Inr old" "t_load T b = Inr new"
  shows "\<exists>dn. run_ops d (take n (cycle_ops (t_sha256 T) s)) = Inr dn \<and>
    load_model_from_disk T env (engine_files dn) =
      (if n < 3 then Inr (old, t_sha256 T b0) else if n = 3 then Inl RuntimeError else Inr (new, t_sha256 T b))"
proof -
  obtain dn where dn: "run_ops d (take n (cycle_ops (t_sha256 T) s)) = Inr dn"
    "f_model dn = Some (if n < 4 then b0 else b)" "f_sha dn = Some (if n < 3 then t_sha256 T b0 @ nl else t_sha256 T b)"
    using cycle_states [OF assms(3,5,6), of n "t_sha256 T"] by blast
  have stripped: "py_strip (take 1024 (t_sha256 T x @ y)) = t_sha256 T x" if "y \<in> {[], [CHR 0x0A]}" for x y
    using hex_digest_plain [OF assms(2), of x] that by auto
  have ascii: "list_all (\<lambda>c. cp c < 128) (t_sha256 T x @ t_sha256 T y)" for x y
    using hex_digest_plain(1) [OF assms(2)] by simp
  have load: "load_model_from_disk T env (engine_files dn) =
      (if t_sha256 T x \<noteq> t_sha256 T y then Inl RuntimeError else bind_result (t_load T x) (\<lambda>m. Inr (m, t_sha256 T x)))"
    if "f_model dn = Some x" "length x \<le> 52428800" "f_sha dn = Some (t_sha256 T y @ e)" "e \<in> {[], [CHR 0x0A]}" for x y e
    by (rule load_from_dir [OF assms(1) that(1,2,3) stripped [OF that(4)] ascii])
  consider "n < 3" | "n = 3" | "3 < n" by arith
  then have "load_model_from_disk T env (engine_files dn) =
      (if n < 3 then Inr (old, t_sha256 T b0) else if n = 3 then Inl RuntimeError else Inr (new, t_sha256 T b))"
  proof cases
    case 1
    then show ?thesis using load [of b0 b0 nl] dn(2,3) assms(7,9,10) by simp
  next
    case 2
    then show ?thesis using load [of b0 b "[]"] dn(2,3) assms(4,9) by simp
  next
    case 3
    then show ?thesis using load [of b b "[]"] dn(2,3) assms(8,11) by simp
  qed
  with dn(1) show ?thesis by blast
qed

definition sample_torch :: "nat torch_lib" where
  "sample_torch = \<lparr>t_sha256 = (\<lambda>b. replicate 64 (if b = [1] then CHR ''a'' else CHR ''b'')),
     t_load = (\<lambda>b. Inr (length b))\<rparr>"

theorem deployment_fails_closed_witness:
  "\<exists>dn. run_ops \<lparr>f_model = Some [1], f_sha = Some (replicate 64 (CHR ''a'') @ [CHR 0x0A]), f_temp = None, f_temp_sha = None\<rparr>
       (take 3 (cycle_ops (t_sha256 sample_torch) \<lparr>tr_epoch = 1, tr_best = 90, tr_no_improve = 0, tr_saved = Some [2, 3]\<rparr>)) = Inr dn \<and>
    load_model_from_disk sample_torch Map.empty (engine_files dn) = Inl RuntimeError"
proof -
  have letters: "is_lower_az (CHR ''a'')" "is_lower_az (CHR ''b'')" by code_simp+
  have digest: "hex_digest (t_sha256 sample_torch b)" for b
    using letters by (simp add: hex_digest_def sample_torch_def list_all_iff)
  from deployment_fails_closed [where T = sample_torch and b = "[2, 3]" and ?b0.0 = "[1]" and old = 1 and new = 2 and n = 3 and
      nl = "[CHR 0x0A]" and env = Map.empty, OF _ digest]
  show ?thesis by (simp add: default_env_def sample_torch_def)
qed

text \<open>Whatever the directory holds, a cycle with a saved model leaves one the next engine accepts: a cycle
  interrupted between the replacements is repaired by the next.\<close>

lemma cycle_recovers:
  assumes "default_env env" "\<And>b. hex_digest (t_sha256 T b)" "tr_saved s = Some b" "length b \<le> 52428800" "t_load T b = Inr m"
  shows "\<exists>d1. run_ops d (cycle_ops (t_sha256 T) s) = Inr d1 \<and>
    load_model_from_disk T env (engine_files d1) = Inr (m, t_sha256 T b)"
proof -
  let ?d = "d\<lparr>f_model := Some b, f_sha := Some (t_sha256 T b), f_temp := None, f_temp_sha := None\<rparr>"
  have "run_ops d (cycle_ops (t_sha256 T) s) = Inr ?d"
    using assms(3) by (simp add: cycle_ops_def save_temp_model_def deploy_def)
  moreover have "py_strip (take 1024 (t_sha256 T b)) = t_sha256 T b" "list_all (\<lambda>c. cp c < 128) (t_sha256 T b @ t_sha256 T b)"
    using hex_digest_plain [OF assms(2), of b] by simp_all
  ultimately show ?thesis
    using load_from_dir [of env ?d b "t_sha256 T b" "t_sha256 T b" T] assms(1,4,5) by simp
qed

text \<open>Without an improving epoch there is nothing to deploy: the cycle raises and the directory is as before.\<close>

lemma failed_cycle_keeps_production:
  "tr_saved s = None \<Longrightarrow> f_temp_sha d = None \<Longrightarrow> run_ops d (cycle_ops h s) = Inl (OtherError ''FileNotFoundError'')"
  by (simp add: cycle_ops_def deploy_def)

text \<open>The offline trainer writes the artifact in place: between its two operations the engine refuses.\<close>

lemma save_traced_model_window:
  assumes "default_env env" "\<And>b. hex_digest (t_sha256 T b)" "t_sha256 T b \<noteq> t_sha256 T b0" "length b \<le> 52428800"
    and "f_sha d = Some (t_sha256 T b0 @ [CHR 0x0A])"
  shows "\<exists>d1. run_ops d (take 1 (save_traced_model (t_sha256 T) b)) = Inr d1 \<and>
    load_model_from_disk T env (engine_files d1) = Inl RuntimeError"
proof -
  let ?d = "d\<lparr>f_model := Some b\<rparr>"
  have "py_strip (take 1024 (t_sha256 T b0 @ [CHR 0x0A])) = t_sha256 T b0"
    using hex_digest_plain [OF assms(2), of b0] by simp
  moreover have "list_all (\<lambda>c. cp c < 128) (t_sha256 T b @ t_sha256 T b0)"
    using hex_digest_plain(1) [OF assms(2)] by simp
  ultimately have "load_model_from_disk T env (engine_files ?d) = Inl RuntimeError"
    using load_from_dir [of env ?d b "t_sha256 T b0 @ [CHR 0x0A]" "t_sha256 T b0" T] assms by simp
  then show ?thesis by (simp add: save_traced_model_def)
qed

section \<open>The integrity scripts\<close>

lemma verified_matches:
  "verify_model_integrity L model_file sha_file = Verified \<Longrightarrow>
   \<exists>b text. model_file = Some b \<and> sha_file = Some text \<and> first_word text = Some (ld_sha256 L b)"
  by (auto simp: verify_model_integrity_def compare_digest_def split: option.splits sum.splits if_splits)

text \<open>The script reads the first word of the checksum file, the engine the whole file: a line as
  \<open>sha256sum\<close> writes it is verified by the one and refused by the other.\<close>

lemma verifier_and_engine_differ:
  assumes "hex_digest (ld_sha256 L b)" "ld_weights L b = Inr m"
  shows "verify_model_integrity L (Some b) (Some (ld_sha256 L b @ ''  cnn_dga.pt'')) = Verified"
    and "py_strip (take 1024 (ld_sha256 L b @ ''  cnn_dga.pt'')) \<noteq> ld_sha256 L b"
proof -
  let ?h = "ld_sha256 L b"
  have plain: "\<not> is_space c \<and> cp c < 128" if "c \<in> set ?h" for c
    using that assms(1) by (auto simp: hex_digest_def list_all_iff is_decimal_def is_lower_az_def is_space_def Let_def)
  have ne: "?h \<noteq> []" using assms(1) by (auto simp: hex_digest_def)
  have front: "lstrip (?h @ ''  cnn_dga.pt'') = ?h @ ''  cnn_dga.pt''"
    using ne plain by (cases ?h) (auto simp: lstrip_def)
  have blank: "is_space (CHR '' '')" by code_simp
  have "takeWhile (\<lambda>c. \<not> is_space c) (?h @ ''  cnn_dga.pt'') = ?h"
    using plain blank by (simp add: takeWhile_append2)
  then have "first_word (?h @ ''  cnn_dga.pt'') = Some ?h" using ne by (simp add: first_word_def front Let_def)
  then show "verify_model_integrity L (Some b) (Some (?h @ ''  cnn_dga.pt'')) = Verified"
    using plain assms(2) by (simp add: verify_model_integrity_def compare_digest_def list_all_iff)
  have "\<not> is_space (CHR ''t'')" by code_simp
  then have "py_strip (?h @ ''  cnn_dga.pt'') = ?h @ ''  cnn_dga.pt''"
    by (simp add: py_strip_def front) (simp add: rstrip_def)
  moreover have "length ?h = 64" using assms(1) by (simp add: hex_digest_def)
  ultimately show "py_strip (take 1024 (?h @ ''  cnn_dga.pt'')) \<noteq> ?h" by simp
qed

text \<open>Signing fails closed and its result verifies: without a configured, well-formed private key no
manifest is written at all; otherwise the manifest names the artifact's digest and its signature is
accepted under the public key that belongs to the private one.\<close>

theorem signing_sound:
  fixes digest_of
  assumes "\<And>k msg. verify (pub k) msg (ed_sign E k msg)"
  shows "(case sign_artifact E digest_of base_of env path content written of
      (Inl e, after) \<Rightarrow> after = written
    | (Inr m, after) \<Rightarrow>
        after = Some m \<and> mf_artifact m = base_of path \<and>
        (\<exists>b raw key. content = Some b \<and> env ''MODEL_SIGNING_PRIVATE_KEY'' = Some raw \<and> raw \<noteq> [] \<and>
           ed_from_hex E raw = Inr key \<and> mf_sha256 m = digest_of b \<and> verify (pub key) (digest_of b) (mf_sig m)))"
  using assms
  by (auto simp: sign_artifact_def load_persistent_private_key_def Let_def split: option.splits sum.splits if_splits)

theorem signing_sound_witness:
  "(case sign_artifact \<lparr>ed_from_hex = (\<lambda>s. Inr (length s)), ed_sign = (\<lambda>k msg. replicate k (CHR ''s'') @ msg)\<rparr> (\<lambda>b. ''d'') id
      [''MODEL_SIGNING_PRIVATE_KEY'' \<mapsto> ''00''] ''m.pt'' (Some [1]) None of
    (Inl e, after) \<Rightarrow> False | (Inr m, after) \<Rightarrow> after = Some m \<and> mf_sig m = ''ssd'')"
  using signing_sound [where verify = "\<lambda>pk msg sig. sig = replicate pk (CHR ''s'') @ msg" and pub = id and
      E = "\<lparr>ed_from_hex = (\<lambda>s. Inr (length s)), ed_sign = (\<lambda>k msg. replicate k (CHR ''s'') @ msg)\<rparr>" and
      digest_of = "\<lambda>b. ''d''" and base_of = id and env = "[''MODEL_SIGNING_PRIVATE_KEY'' \<mapsto> ''00'']" and
      path = "''m.pt''" and content = "Some [1]" and written = None]
  by (auto simp: sign_artifact_def load_persistent_private_key_def Let_def)

end
