(* ===== verification/Trainer.thy ===== *)
theory Trainer
  imports Training
begin

text \<open>
  The loops of the trainers (\<open>scripts/continuous_training.py\<close>, \<open>inference/train_model.py\<close>, \<open>scripts/train_dl_models.py\<close>) around the
  parts in Training: the split of a dataset, the accuracy of an epoch, every file operation of a cycle
  in order, and cycles that are cut short. An exception restarts the cycle and a killed process is
  started again, so a cycle may end after any operation, or in the middle of writing a file.
\<close>

section \<open>Split and accuracy\<close>

definition split_idx :: "nat \<Rightarrow> nat" where
  "split_idx n = nat \<lfloor>real n * (8 / 10)\<rfloor>"

definition train_val_split :: "'a list \<Rightarrow> 'a list \<times> 'a list" where
  "train_val_split xs = (take (split_idx (length xs)) xs, drop (split_idx (length xs)) xs)"

text \<open>A \<open>DataLoader\<close> without shuffling: consecutive slices of the batch size, the last one shorter.\<close>

function batches :: "nat \<Rightarrow> 'a list \<Rightarrow> 'a list list" where
  "batches n xs = (if xs = [] \<or> n = 0 then [] else take n xs # batches n (drop n xs))"
  by pat_completeness auto
termination by (relation "measure (\<lambda>(n, xs). length xs)") auto

declare batches.simps [simp del]

definition correct_in :: "('x \<Rightarrow> real) \<Rightarrow> ('x \<times> nat) list \<Rightarrow> nat" where
  "correct_in model batch = length (filter (\<lambda>(x, y). (if model x > 1 / 2 then 1 else 0) = y) batch)"

definition val_accuracy :: "('x \<Rightarrow> real) \<Rightarrow> ('x \<times> nat) list \<Rightarrow> real result" where
  "val_accuracy model val =
     (case foldl (\<lambda>(correct, seen) b. (correct + correct_in model b, seen + length b)) (0, 0) (batches 512 val) of
        (correct, seen) \<Rightarrow>
          if seen = 0 then Inl (OtherError ''ZeroDivisionError'') else Inr (real correct / real seen * 100))"

section \<open>Every file operation of a cycle\<close>

definition epoch_ops :: "(bytes \<Rightarrow> dir_op list) \<Rightarrow> (nat \<Rightarrow> real \<times> bytes) \<Rightarrow> bytes training \<Rightarrow> dir_op list" where
  "epoch_ops save run s = (case run (Suc (tr_epoch s)) of (acc_val, model) \<Rightarrow> if acc_val > tr_best s then save model else [])"

definition traced_loop ::
  "(bytes training \<Rightarrow> bool) \<Rightarrow> (bytes \<Rightarrow> dir_op list) \<Rightarrow> (nat \<Rightarrow> real \<times> bytes) \<Rightarrow> (bytes training \<times> dir_op list) option" where
  "traced_loop go save run =
     while_option (\<lambda>(s, ops). go s) (\<lambda>(s, ops). (epoch_step run s, ops @ epoch_ops save run s)) (new_training, [])"

text \<open>\<open>continuous_train_loop\<close>, one cycle, and \<open>train_to_max\<close>.\<close>

definition cycle_trace :: "(bytes \<Rightarrow> string) \<Rightarrow> (nat \<Rightarrow> real \<times> bytes) \<Rightarrow> (bytes training \<times> dir_op list) option" where
  "cycle_trace sha256 run =
     map_option (\<lambda>(s, ops). (s, ops @ deploy))
       (traced_loop (\<lambda>s. tr_no_improve s < 5 \<and> tr_epoch s < 30) (save_temp_model sha256) run)"

definition offline_trace :: "(bytes \<Rightarrow> string) \<Rightarrow> (nat \<Rightarrow> real \<times> bytes) \<Rightarrow> (bytes training \<times> dir_op list) option" where
  "offline_trace sha256 run =
     traced_loop (\<lambda>s. tr_best s < 9995 / 100 \<and> tr_no_improve s < 8 \<and> tr_epoch s < 50) (save_traced_model sha256) run"

text \<open>The script \<open>train_dl_models\<close> saves once, in place.\<close>

definition train_cnn_save :: "(bytes \<Rightarrow> string) \<Rightarrow> bytes \<Rightarrow> dir_op list" where
  "train_cnn_save sha256 model = [SaveModel model, WriteSha (sha256 model @ [CHR 0x0A])]"

section \<open>Cycles that are cut short\<close>

text \<open>The directory when the operations stop: at the first that raises, or where they are cut.\<close>

fun run_until :: "model_dir \<Rightarrow> dir_op list \<Rightarrow> model_dir" where
  "run_until d [] = d"
| "run_until d (op # ops) = (case run_op d op of Inl e \<Rightarrow> d | Inr d1 \<Rightarrow> run_until d1 ops)"

fun torn :: "nat \<Rightarrow> dir_op \<Rightarrow> dir_op list" where
  "torn k (SaveModel b) = [SaveModel (take k b)]"
| "torn k (WriteSha s) = [WriteSha (take k s)]"
| "torn k (SaveTemp b) = [SaveTemp (take k b)]"
| "torn k (WriteTempSha s) = [WriteTempSha (take k s)]"
| "torn k ReplaceSha = []"
| "torn k ReplaceModel = []"

definition interrupted :: "nat \<Rightarrow> nat \<Rightarrow> dir_op list \<Rightarrow> model_dir \<Rightarrow> model_dir" where
  "interrupted n k ops d = run_until d (take n ops @ (if n < length ops then torn k (ops ! n) else []))"

text \<open>The directories any sequence of such cycles can leave, with the models that were trained.\<close>

inductive trained_dir :: "(bytes \<Rightarrow> string) \<Rightarrow> bytes set \<Rightarrow> model_dir \<Rightarrow> bool" for sha256 :: "bytes \<Rightarrow> string" where
  shipped: "f_model d = Some b \<Longrightarrow> f_sha d = Some (sha256 b @ nl) \<Longrightarrow> nl \<in> {[], [CHR 0x0A]} \<Longrightarrow> f_temp_sha d = None \<Longrightarrow>
    trained_dir sha256 {b} d"
| cycle: "trained_dir sha256 M d \<Longrightarrow> cycle_trace sha256 run = Some (s, ops) \<Longrightarrow>
    trained_dir sha256 (M \<union> snd ` run ` {1..30}) (interrupted n k ops d)"
| offline: "trained_dir sha256 M d \<Longrightarrow> offline_trace sha256 run = Some (s, ops) \<Longrightarrow>
    trained_dir sha256 (M \<union> snd ` run ` {1..50}) (interrupted n k ops d)"
| script: "trained_dir sha256 M d \<Longrightarrow> ops = train_cnn_save sha256 model \<Longrightarrow>
    trained_dir sha256 (M \<union> {model}) (interrupted n k ops d)"

text \<open>An engine that starts while a trainer runs reads the size, the checksum and the model one after
  the other, each from the directory of that moment.\<close>

definition racing_files :: "model_dir \<Rightarrow> model_dir \<Rightarrow> model_dir \<Rightarrow> file_system" where
  "racing_files d0 d1 d2 =
     \<lparr>fs_size = fs_size (engine_files d0), fs_bytes = fs_bytes (engine_files d2), fs_text = fs_text (engine_files d1)\<rparr>"

section \<open>Accuracy\<close>

lemma batches_concat: "0 < n \<Longrightarrow> concat (batches n xs) = xs"
proof (induction n xs rule: batches.induct)
  case (1 n xs)
  then show ?case by (subst batches.simps) simp
qed

lemma correct_fold:
  "foldl (\<lambda>(correct, seen) b. (correct + correct_in model b, seen + length b)) (c, t) bs =
     (c + correct_in model (concat bs), t + length (concat bs))"
  by (induction bs arbitrary: c t) (simp_all add: correct_in_def)

text \<open>Validation in batches counts what validation at once counts: the share of the samples on the
  right side of one half, a percentage.\<close>

lemma batched_accuracy:
  "val_accuracy model val =
     (if val = [] then Inl (OtherError ''ZeroDivisionError'') else Inr (real (correct_in model val) / real (length val) * 100))"
  by (simp add: val_accuracy_def correct_fold batches_concat)

lemma accuracy_percent:
  assumes "val_accuracy model val = Inr a" shows "0 \<le> a \<and> a \<le> 100"
proof -
  have "real (correct_in model val) \<le> real (length val)" by (simp add: correct_in_def)
  then have q: "0 \<le> real (correct_in model val) / real (length val)" "real (correct_in model val) / real (length val) \<le> 1"
    by (simp_all add: divide_le_eq)
  have a: "a = real (correct_in model val) / real (length val) * 100"
    using assms by (simp add: batched_accuracy split: if_splits)
  have percent: "0 \<le> x \<Longrightarrow> x \<le> 1 \<Longrightarrow> 0 \<le> x * 100 \<and> x * 100 \<le> 100" for x :: real by simp
  show ?thesis unfolding a by (rule percent [OF q])
qed

lemma split_lossless: "fst (train_val_split xs) @ snd (train_val_split xs) = xs"
  by (simp add: train_val_split_def)

lemma split_validates: "xs \<noteq> [] \<Longrightarrow> snd (train_val_split xs) \<noteq> []"
proof -
  assume "xs \<noteq> []"
  then have "real (length xs) * (8 / 10) < real (length xs)" by simp
  then have "\<lfloor>real (length xs) * (8 / 10)\<rfloor> < int (length xs)" by (simp add: floor_less_iff)
  then have "split_idx (length xs) < length xs" using \<open>xs \<noteq> []\<close> by (simp add: split_idx_def nat_less_iff)
  then show ?thesis by (simp add: train_val_split_def)
qed

section \<open>The loops with their files\<close>

lemma traced_epoch: "fst (case p of (s, ops) \<Rightarrow> (epoch_step run s, ops @ epoch_ops save run s)) = epoch_step run (fst p)"
  by (simp add: split_beta)

text \<open>What the file operations of the epochs so far are: the saves of improving epochs, the last of them
  the one the training record names.\<close>

definition saves_ok :: "(bytes \<Rightarrow> dir_op list) \<Rightarrow> bytes set \<Rightarrow> bytes training \<times> dir_op list \<Rightarrow> bool" where
  "saves_ok save X p \<longleftrightarrow> (\<exists>bs. set bs \<subseteq> X \<and> snd p = concat (map save bs) \<and>
     tr_saved (fst p) = (if bs = [] then None else Some (last bs)))"

lemma saves_ok_step:
  assumes "saves_ok save X (s, ops)" "snd (run (Suc (tr_epoch s))) \<in> X"
  shows "saves_ok save X (epoch_step run s, ops @ epoch_ops save run s)"
proof -
  obtain bs where bs: "set bs \<subseteq> X" "ops = concat (map save bs)" "tr_saved s = (if bs = [] then None else Some (last bs))"
    using assms(1) by (auto simp: saves_ok_def)
  obtain acc m where run: "run (Suc (tr_epoch s)) = (acc, m)" by fastforce
  show ?thesis
  proof (cases "acc > tr_best s")
    case True
    then show ?thesis using bs run assms(2)
      unfolding saves_ok_def by (intro exI [of _ "bs @ [m]"]) (simp add: epoch_step_def epoch_ops_def Let_def)
  next
    case False
    then show ?thesis using bs run unfolding saves_ok_def by (intro exI [of _ bs]) (simp add: epoch_step_def epoch_ops_def Let_def)
  qed
qed

lemma traced_loop_result:
  assumes "\<And>s. go s \<Longrightarrow> tr_epoch s < N"
  shows "\<exists>s ops. traced_loop go save run = Some (s, ops) \<and> \<not> go s \<and> training_ok run s \<and> tr_epoch s \<le> N \<and>
    tr_no_improve s \<le> tr_epoch s \<and> saves_ok save (snd ` run ` {1..N}) (s, ops)"
proof -
  let ?go = "\<lambda>(s :: bytes training, ops :: dir_op list). go s"
  let ?step = "\<lambda>(s, ops). (epoch_step run s, ops @ epoch_ops save run s)"
  let ?P = "\<lambda>(s, ops). training_ok run s \<and> tr_epoch s \<le> N \<and> tr_no_improve s \<le> tr_epoch s \<and> saves_ok save (snd ` run ` {1..N}) (s, ops)"
  have init: "?P (new_training, [])" by (simp add: training_ok_def new_training_def saves_ok_def)
  have step: "?P (?step p)" if p: "?P p" "?go p" for p
  proof -
    obtain s ops where eq: "p = (s, ops)" by (cases p)
    then have lt: "tr_epoch s < N" using assms p(2) by simp
    then have "snd (run (Suc (tr_epoch s))) \<in> snd ` run ` {1..N}" by (intro imageI) simp
    then have "saves_ok save (snd ` run ` {1..N}) (epoch_step run s, ops @ epoch_ops save run s)"
      using p(1) by (intro saves_ok_step) (simp_all add: eq)
    moreover have "tr_no_improve (epoch_step run s) \<le> tr_epoch (epoch_step run s)"
      using p(1) by (simp add: eq epoch_step_def Let_def split: prod.split)
    ultimately show ?thesis using p(1) lt by (simp add: eq training_ok_step epoch_step_simps)
  qed
  have dec: "N - tr_epoch (fst (?step p)) < N - tr_epoch (fst p)" if p: "?go p" for p
  proof -
    obtain s ops where eq: "p = (s, ops)" by (cases p)
    then have "tr_epoch s < N" using assms p by simp
    then show ?thesis by (simp add: eq epoch_step_simps)
  qed
  have "\<exists>p. while_option ?go ?step (new_training, []) = Some p"
  proof (rule measure_while_option_Some [where P = ?P and f = "\<lambda>p. N - tr_epoch (fst p)"])
    show "?P (new_training, [])" by (rule init)
    show "?P (?step p) \<and> N - tr_epoch (fst (?step p)) < N - tr_epoch (fst p)" if "?P p" "?go p" for p
      by (rule conjI [OF step [OF that] dec [OF that(2)]])
  qed
  then obtain p where p: "while_option ?go ?step (new_training, []) = Some p" by (rule exE)
  obtain s ops where eq: "p = (s, ops)" by (cases p)
  have "?P p" by (rule while_option_rule [OF step p init])
  moreover have "\<not> ?go p" by (rule while_option_stop [OF p])
  ultimately show ?thesis using p unfolding traced_loop_def eq by auto
qed

lemma cycle_trace_result:
  "\<exists>s bs. cycle_trace sha256 run = Some (s, concat (map (save_temp_model sha256) bs) @ deploy) \<and> train_cycle run = Some s \<and>
     training_ok run s \<and> 5 \<le> tr_epoch s \<and> tr_epoch s \<le> 30 \<and> set bs \<subseteq> snd ` run ` {1..30} \<and> tr_saved s = (if bs = [] then None else Some (last bs))"
proof -
  let ?go = "\<lambda>s :: bytes training. tr_no_improve s < 5 \<and> tr_epoch s < 30"
  obtain s ops where s: "traced_loop ?go (save_temp_model sha256) run = Some (s, ops)" "training_ok run s" "tr_epoch s \<le> 30"
    "\<not> ?go s" "tr_no_improve s \<le> tr_epoch s" "saves_ok (save_temp_model sha256) (snd ` run ` {1..30}) (s, ops)"
    using traced_loop_result [of ?go 30 "save_temp_model sha256" run] by blast
  have "train_cycle run = map_option fst (traced_loop ?go (save_temp_model sha256) run)"
    unfolding train_cycle_def traced_loop_def
    by (subst while_option_commute [where b' = ?go and c' = "epoch_step run"]) auto
  then have "train_cycle run = Some s" by (simp add: s(1))
  moreover obtain bs where bs: "set bs \<subseteq> snd ` run ` {1..30}" "ops = concat (map (save_temp_model sha256) bs)"
    "tr_saved s = (if bs = [] then None else Some (last bs))"
    using s(6) by (auto simp: saves_ok_def)
  moreover have "5 \<le> tr_epoch s" using s(3-5) by linarith
  ultimately show ?thesis using s(1-3) by (intro exI [of _ s] exI [of _ bs]) (simp add: cycle_trace_def)
qed

lemma offline_trace_result:
  "\<exists>s bs. offline_trace sha256 run = Some (s, concat (map (save_traced_model sha256) bs)) \<and> set bs \<subseteq> snd ` run ` {1..50}"
proof -
  let ?go = "\<lambda>s :: bytes training. tr_best s < 9995 / 100 \<and> tr_no_improve s < 8 \<and> tr_epoch s < 50"
  obtain s ops where "traced_loop ?go (save_traced_model sha256) run = Some (s, ops)"
    "saves_ok (save_traced_model sha256) (snd ` run ` {1..50}) (s, ops)"
    using traced_loop_result [of ?go 50 "save_traced_model sha256" run] by blast
  then show ?thesis by (auto simp: saves_ok_def offline_trace_def)
qed

section \<open>The checksum is always that of a trained model\<close>

definition expected_in :: "(bytes \<Rightarrow> string) \<Rightarrow> bytes set \<Rightarrow> string option \<Rightarrow> bool" where
  "expected_in sha256 M text \<longleftrightarrow>
     (\<forall>t b. text = Some t \<longrightarrow> py_strip (take 1024 t) = sha256 b \<longrightarrow> sha256 b \<in> sha256 ` M)"

definition dir_safe :: "(bytes \<Rightarrow> string) \<Rightarrow> bytes set \<Rightarrow> model_dir \<Rightarrow> bool" where
  "dir_safe sha256 M d \<longleftrightarrow> expected_in sha256 M (f_sha d) \<and> expected_in sha256 M (f_temp_sha d)"

text \<open>A checksum cut short is nobody's.\<close>

lemma torn_digest:
  assumes "\<And>b. hex_digest (h b)" "nl \<in> {[], [CHR 0x0A]}" "py_strip (take 1024 (take k (h a @ nl))) = h b"
  shows "h b = h a"
proof -
  have len: "length (h x) = 64" for x using assms(1) [of x] by (simp add: hex_digest_def)
  show ?thesis
  proof (cases "k \<le> 64")
    case True
    have plain: "\<not> is_space c" if "c \<in> set (h a)" for c
      using that assms(1) [of a] by (auto simp: hex_digest_def list_all_iff is_decimal_def is_lower_az_def is_space_def Let_def)
    then have "py_strip (take k (h a)) = take k (h a)"
      by (intro py_strip_no_space) (auto dest: in_set_takeD)
    then have "take k (h a) = h b" using assms(3) len [of a] True by simp
    moreover from this have "k = 64" using len [of a] len [of b] True by (metis length_take min.absorb2)
    ultimately show ?thesis using len [of a] by simp
  next
    case False
    then have "take 1024 (take k (h a @ nl)) = h a @ nl" using len [of a] assms(2) by auto
    then show ?thesis using assms(2,3) hex_digest_plain [OF assms(1), of a] by auto
  qed
qed

fun op_texts :: "dir_op \<Rightarrow> string list" where
  "op_texts (WriteSha s) = [s]"
| "op_texts (WriteTempSha s) = [s]"
| "op_texts _ = []"

lemma run_op_safe:
  assumes "dir_safe h M d" "run_op d op = Inr d1" "\<forall>t\<in>set (op_texts op). expected_in h M (Some t)"
  shows "dir_safe h M d1"
  using assms by (cases op) (auto simp: dir_safe_def expected_in_def split: option.splits)

lemma run_until_safe:
  "dir_safe h M d \<Longrightarrow> \<forall>op\<in>set ops. \<forall>t\<in>set (op_texts op). expected_in h M (Some t) \<Longrightarrow> dir_safe h M (run_until d ops)"
  by (induction ops arbitrary: d) (auto split: sum.split intro: run_op_safe)

lemma expected_mono: "expected_in h M text \<Longrightarrow> M \<subseteq> M' \<Longrightarrow> expected_in h M' text"
  unfolding expected_in_def by blast

lemma dir_safe_mono: "dir_safe h M d \<Longrightarrow> M \<subseteq> M' \<Longrightarrow> dir_safe h M' d"
  unfolding dir_safe_def using expected_mono by blast

text \<open>The operations that write a model of \<open>M\<close>, whole or torn, write checksums of \<open>M\<close>.\<close>

definition saves_of :: "(bytes \<Rightarrow> string) \<Rightarrow> bytes set \<Rightarrow> dir_op set" where
  "saves_of h M = (\<Union>b\<in>M. set (save_temp_model h b) \<union> set (save_traced_model h b)) \<union> set deploy"

lemma saves_expected:
  assumes "\<And>b. hex_digest (h b)" "op \<in> saves_of h M" "op' = op \<or> op' \<in> set (torn k op)" "t \<in> set (op_texts op')"
  shows "expected_in h M (Some t)"
proof -
  obtain a nl j where a: "a \<in> M" "nl \<in> {[], [CHR 0x0A]}" "t = take j (h a @ nl)"
  proof -
    have whole: "x = take (length x) x" for x :: string by simp
    show thesis using assms(2-4) that [of _ "[]" k] that [of _ "[]" "length t"] that [of _ "[CHR 0x0A]" k] that [of _ "[CHR 0x0A]" "length t"] whole
      by (auto simp: saves_of_def save_temp_model_def save_traced_model_def deploy_def)
  qed
  have "h b = h a" if "py_strip (take 1024 t) = h b" for b
    by (rule torn_digest [where h = h, OF assms(1) a(2)]) (use that in \<open>simp only: a(3)\<close>)
  then show ?thesis using a(1) unfolding expected_in_def by blast
qed

lemma interrupted_safe:
  assumes "\<And>b. hex_digest (h b)" "dir_safe h M d" "set ops \<subseteq> saves_of h M"
  shows "dir_safe h M (interrupted n k ops d)"
  unfolding interrupted_def
proof (rule run_until_safe [OF assms(2)], intro ballI)
  fix op t
  assume op: "op \<in> set (take n ops @ (if n < length ops then torn k (ops ! n) else []))" and t: "t \<in> set (op_texts op)"
  then have "op \<in> set ops \<or> n < length ops \<and> op \<in> set (torn k (ops ! n))"
    by (auto dest: in_set_takeD split: if_splits)
  then obtain op0 where "op0 \<in> set ops" "op = op0 \<or> op \<in> set (torn k op0)"
    using nth_mem [of n ops] by metis
  then show "expected_in h M (Some t)" using saves_expected [where h = h, OF assms(1) _ _ t] assms(3) by blast
qed

lemma trained_dir_safe:
  assumes "\<And>b. hex_digest (h b)" "trained_dir h M d"
  shows "dir_safe h M d"
  using assms(2)
proof induction
  case (shipped d b nl)
  have "h b' = h b" if "py_strip (take 1024 (h b @ nl)) = h b'" for b'
    by (rule torn_digest [where h = h and k = 1024, OF assms(1) shipped(3)]) (use that in \<open>simp only: take_take min.idem\<close>)
  then have "expected_in h {b} (Some (h b @ nl))" unfolding expected_in_def by blast
  then show ?case using shipped by (simp add: dir_safe_def expected_in_def)
next
  case (cycle M d run s ops n k)
  obtain bs where bs: "ops = concat (map (save_temp_model h) bs) @ deploy" "set bs \<subseteq> snd ` run ` {1..30}"
    using cycle_trace_result [of h run] cycle(2) by auto
  show ?case
    by (rule interrupted_safe [where h = h, OF assms(1) dir_safe_mono [OF cycle(3)]]) (use bs in \<open>auto simp: saves_of_def\<close>)
next
  case (offline M d run s ops n k)
  obtain bs where bs: "ops = concat (map (save_traced_model h) bs)" "set bs \<subseteq> snd ` run ` {1..50}"
    using offline_trace_result [of h run] offline(2) by auto
  show ?case
    by (rule interrupted_safe [where h = h, OF assms(1) dir_safe_mono [OF offline(3)]]) (use bs in \<open>auto simp: saves_of_def\<close>)
next
  case (script M d ops model n k)
  have "set ops \<subseteq> saves_of h (M \<union> {model})"
    unfolding script(2) train_cnn_save_def saves_of_def save_traced_model_def by auto
  then show ?case
    using interrupted_safe [where h = h, OF assms(1) dir_safe_mono [OF script(3)]] by blast
qed

section \<open>Properties\<close>

lemma racing_load:
  assumes "default_env env" "load_model_from_disk T env (racing_files d0 d1 d2) = Inr (m, dg)"
  shows "\<exists>b t. f_model d2 = Some b \<and> f_sha d1 = Some t \<and> py_strip (take 1024 t) = t_sha256 T b \<and> dg = t_sha256 T b \<and> t_load T b = Inr m"
  using assms
  by (auto simp: load_model_from_disk_def Let_def default_env_def getenv_or_def racing_files_def engine_files_def of_option_def
      compare_digest_def result_simps split: option.splits if_splits)

text \<open>C6. Whatever the trainers were doing and wherever they were cut short, an engine that starts runs a
  model that was trained, whole. The cycles may have been interrupted after any file operation or in
  the middle of a write, any number of times; the engine may read the size, the checksum and the model
  at different moments of another cycle. The hypothesis on SHA-256 is that nothing else has the digest
  of a trained model.\<close>

theorem engine_runs_trained_model:
  assumes "default_env env" "\<And>b. hex_digest (t_sha256 T b)" "trained_dir (t_sha256 T) M d1"
    and "\<And>a b. a \<in> M \<Longrightarrow> t_sha256 T b = t_sha256 T a \<Longrightarrow> b = a"
    and "load_model_from_disk T env (racing_files d0 d1 d2) = Inr (m, dg)"
  shows "\<exists>b\<in>M. f_model d2 = Some b \<and> t_load T b = Inr m \<and> dg = t_sha256 T b"
proof -
  obtain b t where b: "f_model d2 = Some b" "f_sha d1 = Some t" "py_strip (take 1024 t) = t_sha256 T b" "dg = t_sha256 T b" "t_load T b = Inr m"
    using racing_load [OF assms(1,5)] by blast
  have "t_sha256 T b \<in> t_sha256 T ` M"
    using trained_dir_safe [where h = "t_sha256 T", OF assms(2,3)] b(2,3) by (simp add: dir_safe_def expected_in_def)
  with assms(4) b show ?thesis by auto
qed

lemma run_ops_append: "run_ops d (xs @ ys) = bind_result (run_ops d xs) (\<lambda>d1. run_ops d1 ys)"
  by (induction xs arbitrary: d) (auto simp: bind_result_def split: sum.split)

lemma saves_leave_last:
  "bs \<noteq> [] \<Longrightarrow> run_ops d (concat (map (save_temp_model h) bs)) = Inr (d\<lparr>f_temp := Some (last bs), f_temp_sha := Some (h (last bs))\<rparr>)"
proof (induction bs rule: rev_induct)
  case (snoc b bs)
  then show ?case by (cases "bs = []") (simp_all add: run_ops_append save_temp_model_def)
qed simp

text \<open>C28. A cycle that is left alone ends with production repaired: from any directory whatever, with
  whatever temporary files an earlier cycle left, a cycle that has a positive accuracy in one of its
  first five epochs carries out all its operations, and the next engine loads the model of its best epoch.\<close>

theorem cycle_deploys_best:
  assumes "default_env env" "\<And>b. hex_digest (t_sha256 T b)" "e0 \<in> {1..5}" "0 < fst (run e0)"
    and "\<And>e. length (snd (run e)) \<le> 52428800" "\<And>e. t_load T (snd (run e)) = Inr (loaded e)"
  shows "\<exists>s ops d1 e. cycle_trace (t_sha256 T) run = Some (s, ops) \<and> run_ops d ops = Inr d1 \<and> e \<in> {1..tr_epoch s} \<and>
    fst (run e) = Max (insert 0 ((\<lambda>e. fst (run e)) ` {1..tr_epoch s})) \<and>
    load_model_from_disk T env (engine_files d1) = Inr (loaded e, t_sha256 T (snd (run e)))"
proof -
  let ?h = "t_sha256 T"
  obtain s bs where s: "cycle_trace ?h run = Some (s, concat (map (save_temp_model ?h) bs) @ deploy)"
    "training_ok run s" "5 \<le> tr_epoch s" "tr_saved s = (if bs = [] then None else Some (last bs))"
    using cycle_trace_result [of ?h run] by blast
  have best: "tr_best s = Max (insert 0 ((\<lambda>e. fst (run e)) ` {1..tr_epoch s}))" using s(2) by (simp add: training_ok_def)
  have "fst (run e0) \<le> tr_best s" unfolding best by (rule Max_ge) (use assms(3) s(3) in auto)
  then have "tr_best s \<noteq> 0" using assms(4) by simp
  then have ne: "bs \<noteq> []" and "\<exists>e\<in>{1..tr_epoch s}. run e = (tr_best s, last bs)"
    using s(2,4) by (auto simp: training_ok_def split: if_splits)
  then obtain e where e: "e \<in> {1..tr_epoch s}" "run e = (tr_best s, last bs)" by blast
  let ?d = "d\<lparr>f_model := Some (last bs), f_sha := Some (?h (last bs)), f_temp := None, f_temp_sha := None\<rparr>"
  have "run_ops d (concat (map (save_temp_model ?h) bs) @ deploy) = Inr ?d"
    by (simp add: run_ops_append saves_leave_last [OF ne] deploy_def)
  moreover have "load_model_from_disk T env (engine_files ?d) = Inr (loaded e, ?h (snd (run e)))"
  proof -
    have plain: "py_strip (take 1024 (?h (last bs))) = ?h (last bs)" "list_all (\<lambda>c. cp c < 128) (?h (last bs) @ ?h (last bs))"
      using hex_digest_plain [OF assms(2), of "last bs"] by simp_all
    show ?thesis
      using load_from_dir [OF assms(1), of ?d "last bs" "?h (last bs)" "?h (last bs)" T] plain assms(5) [of e] assms(6) [of e] e(2) by simp
  qed
  moreover have "fst (run e) = Max (insert 0 ((\<lambda>e. fst (run e)) ` {1..tr_epoch s}))" unfolding best [symmetric] e(2) by simp
  ultimately show ?thesis using s(1) e(1) by blast
qed

lemma racing_same: "f_sha d1 = f_sha d2 \<Longrightarrow> racing_files d2 d1 d2 = engine_files d2"
  by (simp add: racing_files_def engine_files_def fun_eq_iff)

text \<open>Models, digests and a trainer for the witnesses.\<close>

definition sample_digest :: "bytes \<Rightarrow> string" where
  "sample_digest b = replicate 64 (if b = [1] then CHR ''a'' else if b = [2, 3] then CHR ''b'' else CHR ''c'')"

definition sample_lib :: "nat torch_lib" where
  "sample_lib = \<lparr>t_sha256 = sample_digest, t_load = (\<lambda>b. Inr (length b))\<rparr>"

definition shipped_dir :: model_dir where
  "shipped_dir = \<lparr>f_model = Some [1], f_sha = Some (sample_digest [1] @ [CHR 0x0A]), f_temp = None, f_temp_sha = None\<rparr>"

lemma sample_hex: "hex_digest (sample_digest b)"
proof -
  have "is_lower_az (CHR ''a'')" "is_lower_az (CHR ''b'')" "is_lower_az (CHR ''c'')" by code_simp+
  then show ?thesis by (simp add: hex_digest_def sample_digest_def list_all_iff)
qed

lemma sample_trace:
  "cycle_trace sample_digest (\<lambda>_. (90, [2, 3])) =
     Some (\<lparr>tr_epoch = 6, tr_best = 90, tr_no_improve = 5, tr_saved = Some [2, 3]\<rparr>, save_temp_model sample_digest [2, 3] @ deploy)"
  by (simp add: cycle_trace_def traced_loop_def new_training_def while_option_unfold epoch_step_def epoch_ops_def Let_def)

text \<open>The cycle is killed between its two replacements, while an engine starts: it has read the new
  checksum, and then reads the model of the next, completed cycle.\<close>

theorem engine_runs_trained_model_witness:
  "trained_dir sample_digest ({[1]} \<union> {[2, 3]}) (interrupted 3 0 (save_temp_model sample_digest [2, 3] @ deploy) shipped_dir) \<and>
   (\<exists>b\<in>{[1]} \<union> {[2, 3]}. Some [2, 3] = Some b \<and> t_load sample_lib b = Inr 2 \<and> sample_digest [2, 3] = sample_digest b)"
proof -
  let ?ops = "save_temp_model sample_digest [2, 3] @ deploy"
  let ?d1 = "interrupted 3 0 ?ops shipped_dir" and ?d2 = "interrupted 4 0 ?ops shipped_dir"
  have ship: "trained_dir sample_digest {[1]} shipped_dir"
    by (rule trained_dir.shipped [where nl = "[CHR 0x0A]"]) (simp_all add: shipped_dir_def)
  have "trained_dir sample_digest ({[1]} \<union> snd ` (\<lambda>_ :: nat. (90 :: real, [2, 3])) ` {1..30}) ?d1"
    by (rule trained_dir.cycle [OF ship sample_trace])
  moreover have "snd ` (\<lambda>_ :: nat. (90 :: real, [2, 3 :: nat])) ` {1..30} = {[2, 3]}"
    by (simp add: image_image image_constant_conv)
  ultimately have "trained_dir sample_digest ({[1]} \<union> {[2, 3]}) ?d1" by (simp only:)
  then have t: "trained_dir (t_sha256 sample_lib) ({[1]} \<union> {[2, 3]}) ?d1" by (simp add: sample_lib_def)
  have files: "f_sha ?d1 = Some (sample_digest [2, 3])" "f_model ?d2 = Some [2, 3]"
    by (simp_all add: interrupted_def save_temp_model_def deploy_def shipped_dir_def)
  have env: "default_env Map.empty" by (simp add: default_env_def)
  have hex: "\<And>b. hex_digest (t_sha256 sample_lib b)" by (simp add: sample_lib_def sample_hex)
  have sha: "f_sha ?d2 = Some (sample_digest [2, 3])"
    by (simp add: interrupted_def save_temp_model_def deploy_def shipped_dir_def)
  have "load_model_from_disk sample_lib Map.empty (engine_files ?d2) = Inr (2, sample_digest [2, 3])"
    using load_from_dir [OF env files(2) _ sha, of "sample_digest [2, 3]" sample_lib] hex_digest_plain [OF sample_hex, of "[2, 3]"]
    by (simp add: sample_lib_def)
  moreover have "racing_files ?d2 ?d1 ?d2 = engine_files ?d2" by (rule racing_same) (simp add: files sha)
  ultimately have load: "load_model_from_disk sample_lib Map.empty (racing_files ?d2 ?d1 ?d2) = Inr (2, sample_digest [2, 3])" by simp
  have inj: "a \<in> {[1]} \<union> {[2, 3]} \<Longrightarrow> t_sha256 sample_lib b = t_sha256 sample_lib a \<Longrightarrow> b = a" for a b
    by (auto simp: sample_lib_def sample_digest_def split: if_splits)
  from engine_runs_trained_model [OF env hex t inj load] t files show ?thesis by (simp add: sample_lib_def)
qed

theorem cycle_deploys_best_witness:
  "\<exists>s ops d1. cycle_trace sample_digest (\<lambda>_. (90, [2, 3])) = Some (s, ops) \<and> run_ops shipped_dir ops = Inr d1 \<and>
    load_model_from_disk sample_lib Map.empty (engine_files d1) = Inr (2, sample_digest [2, 3])"
  using cycle_deploys_best [of Map.empty sample_lib 1 "\<lambda>_. (90, [2, 3])" "\<lambda>_. 2" shipped_dir]
  by (auto simp: default_env_def sample_lib_def sample_hex)

text \<open>The temporary files of a cycle that failed stay. A later cycle without an improving epoch moves
  them to production: a model of a cycle that was given up; and when that cycle died between saving a
  model and its checksum, a pair that does not match, which no engine accepts until a cycle succeeds.\<close>

lemma stale_temp_deployed:
  assumes "\<And>e. fst (run e) \<le> 0" "f_temp d = Some x" "f_temp_sha d = Some t"
  shows "\<exists>s ops. cycle_trace h run = Some (s, ops) \<and>
    run_ops d ops = Inr (d\<lparr>f_model := Some x, f_sha := Some t, f_temp := None, f_temp_sha := None\<rparr>)"
proof -
  obtain s bs where s: "cycle_trace h run = Some (s, concat (map (save_temp_model h) bs) @ deploy)" "training_ok run s"
    "tr_saved s = (if bs = [] then None else Some (last bs))"
    using cycle_trace_result [of h run] by blast
  have "bs = []"
  proof (rule ccontr)
    assume "bs \<noteq> []"
    then obtain e where "0 < tr_best s" "run e = (tr_best s, last bs)" using s(2,3) by (auto simp: training_ok_def)
    with assms(1) [of e] show False by simp
  qed
  with s(1) assms(2,3) show ?thesis by (simp add: deploy_def)
qed

lemma stale_pair_refused:
  assumes "default_env env" "\<And>b. hex_digest (t_sha256 T b)" "\<And>e. fst (run e) \<le> 0" "f_temp d = Some x" "length x \<le> 52428800"
    and "f_temp_sha d = Some (t_sha256 T y)" "t_sha256 T x \<noteq> t_sha256 T y"
  shows "\<exists>s ops d1. cycle_trace (t_sha256 T) run = Some (s, ops) \<and> run_ops d ops = Inr d1 \<and>
    load_model_from_disk T env (engine_files d1) = Inl RuntimeError"
proof -
  let ?d = "d\<lparr>f_model := Some x, f_sha := Some (t_sha256 T y), f_temp := None, f_temp_sha := None\<rparr>"
  have "py_strip (take 1024 (t_sha256 T y)) = t_sha256 T y" "list_all (\<lambda>c. cp c < 128) (t_sha256 T x @ t_sha256 T y)"
    using hex_digest_plain [OF assms(2), of x] hex_digest_plain [OF assms(2), of y] by simp_all
  then have "load_model_from_disk T env (engine_files ?d) = Inl RuntimeError"
    using load_from_dir [OF assms(1), of ?d x "t_sha256 T y" "t_sha256 T y" T] assms(5,7) by simp
  with stale_temp_deployed [of run d x "t_sha256 T y" "t_sha256 T", OF assms(3,4,6)] show ?thesis by blast
qed

end
