(* ===== verification/Network.thy ===== *)
theory Network
  imports Trainer
begin

text \<open>
  The networks of \<open>inference/train_model.py\<close> and \<open>scripts/train_dl_models.py\<close>: which layers, of which
  sizes, in which order. The layers are PyTorch's and so arguments, results because a layer raises on a
  tensor of the wrong shape; what is relied on is their documented shapes and that a sigmoid lies
  between 0 and 1. Tensors are nested lists. Shown is that the sizes fit: no forward pass raises on
  what the encoders and the engine build, and it answers one probability per row.
\<close>

section \<open>Layers\<close>

type_synonym tensor2 = "real list list"
type_synonym tensor3 = "real list list list"

record 'w torch_nn =
  nn_embedding :: "nat \<Rightarrow> nat \<Rightarrow> 'w \<Rightarrow> nat list list \<Rightarrow> tensor3 result"
  nn_conv1d :: "nat \<Rightarrow> nat \<Rightarrow> nat \<Rightarrow> nat \<Rightarrow> 'w \<Rightarrow> tensor3 \<Rightarrow> tensor3 result"
  nn_adaptive_max_pool1d :: "nat \<Rightarrow> tensor3 \<Rightarrow> tensor3 result"
  nn_linear :: "nat \<Rightarrow> nat \<Rightarrow> 'w \<Rightarrow> tensor2 \<Rightarrow> tensor2 result"
  nn_relu :: "real \<Rightarrow> real"
  nn_sigmoid :: "real \<Rightarrow> real"

definition shape2 :: "nat \<Rightarrow> nat \<Rightarrow> 'a list list \<Rightarrow> bool" where
  "shape2 b n t \<longleftrightarrow> length t = b \<and> list_all (\<lambda>r. length r = n) t"

definition shape3 :: "nat \<Rightarrow> nat \<Rightarrow> nat \<Rightarrow> 'a list list list \<Rightarrow> bool" where
  "shape3 b c l t \<longleftrightarrow> length t = b \<and> list_all (shape2 c l) t"

text \<open>\<open>x.permute(0, 2, 1)\<close> and \<open>x.transpose(1, 2)\<close>; \<open>squeeze\<close> of a last dimension of size one.\<close>

definition swap_inner :: "'a list list list \<Rightarrow> 'a list list list" where
  "swap_inner t = map transpose t"

definition squeeze_last :: "'a list list list \<Rightarrow> 'a list list" where
  "squeeze_last t = map (map hd) t"

section \<open>The networks\<close>

record 'w cnn_weights =
  w_embedding :: 'w
  w_conv1 :: 'w
  w_conv2 :: 'w
  w_fc1 :: 'w
  w_fc2 :: 'w

definition cnn_forward ::
  "'w torch_nn \<Rightarrow> nat \<Rightarrow> nat \<Rightarrow> nat \<Rightarrow> nat \<Rightarrow> nat \<Rightarrow> 'w cnn_weights \<Rightarrow> nat list list \<Rightarrow> tensor2 result" where
  "cnn_forward N vocab_size embed_dim channels1 channels2 hidden W x =
     bind_result (nn_embedding N vocab_size embed_dim (w_embedding W) x) (\<lambda>x1.
     bind_result (nn_conv1d N embed_dim channels1 3 1 (w_conv1 W) (swap_inner x1)) (\<lambda>x2.
     bind_result (nn_conv1d N channels1 channels2 3 1 (w_conv2 W) (map (map (map (nn_relu N))) x2)) (\<lambda>x3.
     bind_result (nn_adaptive_max_pool1d N 1 (map (map (map (nn_relu N))) x3)) (\<lambda>x4.
     bind_result (nn_linear N channels2 hidden (w_fc1 W) (squeeze_last x4)) (\<lambda>x5.
     bind_result (nn_linear N hidden 1 (w_fc2 W) (map (map (nn_relu N)) x5)) (\<lambda>x6.
       Inr (map (map (nn_sigmoid N)) x6)))))))"

definition dga_cnn :: "'w torch_nn \<Rightarrow> 'w cnn_weights \<Rightarrow> nat list list \<Rightarrow> tensor2 result" where
  "dga_cnn N = cnn_forward N 39 32 128 256 128"

definition CHARS :: string where
  "CHARS = map char_of [97..<123] @ map char_of [48..<58] @ ''-.''"

definition VOCAB_SIZE :: nat where
  "VOCAB_SIZE = length CHARS + 1"

definition dl_dga_cnn :: "'w torch_nn \<Rightarrow> 'w cnn_weights \<Rightarrow> nat list list \<Rightarrow> tensor2 result" where
  "dl_dga_cnn N = cnn_forward N VOCAB_SIZE 32 64 64 32"

text \<open>\<open>FlowAutoencoder\<close>: two stacks of linear layers with rectifiers between them.\<close>

fun sequential :: "'w torch_nn \<Rightarrow> (nat \<times> nat \<times> 'w) list \<Rightarrow> tensor2 \<Rightarrow> tensor2 result" where
  "sequential N [] x = Inr x"
| "sequential N [(i, o', w)] x = nn_linear N i o' w x"
| "sequential N ((i, o', w) # ls) x =
     bind_result (nn_linear N i o' w x) (\<lambda>y. sequential N ls (map (map (nn_relu N)) y))"

definition flow_autoencoder :: "'w torch_nn \<Rightarrow> (nat \<Rightarrow> 'w) \<Rightarrow> tensor2 \<Rightarrow> tensor2 result" where
  "flow_autoencoder N W x =
     bind_result (sequential N [(5, 16, W 0), (16, 8, W 1), (8, 3, W 2)] x) (\<lambda>latent.
       sequential N [(3, 8, W 3), (8, 16, W 4), (16, 5, W 5)] latent)"

text \<open>What the engine calls: the network on all slices at once, and the largest answer.\<close>

definition network_forward :: "'w torch_nn \<Rightarrow> 'w cnn_weights \<Rightarrow> nat list list \<Rightarrow> pyfloat result" where
  "network_forward N W slices = bind_result (dga_cnn N W slices) (\<lambda>out. Inr (Fin (Max (set (concat out)))))"

section \<open>Shapes\<close>

definition nn_ok :: "'w torch_nn \<Rightarrow> bool" where
  "nn_ok N \<longleftrightarrow>
     (\<forall>v d w x b l. shape2 b l x \<longrightarrow> list_all (list_all (\<lambda>i. i < v)) x \<longrightarrow> (\<exists>y. nn_embedding N v d w x = Inr y \<and> shape3 b l d y)) \<and>
     (\<forall>ci co k p w x b l. shape3 b ci l x \<longrightarrow> 0 < ci \<longrightarrow> k \<le> l + 2 * p \<longrightarrow>
        (\<exists>y. nn_conv1d N ci co k p w x = Inr y \<and> shape3 b co (l + 2 * p - k + 1) y)) \<and>
     (\<forall>n x b c l. shape3 b c l x \<longrightarrow> 0 < l \<longrightarrow> (\<exists>y. nn_adaptive_max_pool1d N n x = Inr y \<and> shape3 b c n y)) \<and>
     (\<forall>i j w x b. shape2 b i x \<longrightarrow> (\<exists>y. nn_linear N i j w x = Inr y \<and> shape2 b j y)) \<and>
     (\<forall>x. 0 \<le> nn_sigmoid N x \<and> nn_sigmoid N x \<le> 1)"

lemma shape_map2 [simp]: "shape2 b n (map (map f) t) \<longleftrightarrow> shape2 b n t"
  by (simp add: shape2_def list_all_iff)

lemma shape_map3 [simp]: "shape3 b c l (map (map (map f)) t) \<longleftrightarrow> shape3 b c l t"
  by (simp add: shape3_def list_all_iff)

lemma shape_transpose: "shape2 c l m \<Longrightarrow> 0 < c \<Longrightarrow> shape2 l c (transpose m)"
proof -
  assume m: "shape2 c l m" and c: "0 < c"
  have "transpose m = map (\<lambda>i. map (\<lambda>j. m ! j ! i) [0..<length m]) [0..<l]"
    by (rule transpose_rectangle) (use m c in \<open>auto simp: shape2_def list_all_length\<close>)
  then show ?thesis using m by (simp add: shape2_def list_all_iff)
qed

lemma shape_swap: "shape3 b c l t \<Longrightarrow> 0 < c \<Longrightarrow> shape3 b l c (swap_inner t)"
  using shape_transpose by (auto simp: shape3_def swap_inner_def list_all_iff)

lemma shape_squeeze: "shape3 b c 1 t \<Longrightarrow> shape2 b c (squeeze_last t)"
  by (simp add: shape3_def shape2_def squeeze_last_def list_all_iff)

text \<open>The laws one by one.\<close>

lemma nn_laws:
  assumes "nn_ok N"
  shows nn_embedding_shape: "shape2 b l x \<Longrightarrow> list_all (list_all (\<lambda>i. i < v)) x \<Longrightarrow> \<exists>y. nn_embedding N v d w x = Inr y \<and> shape3 b l d y"
    and nn_conv_shape: "shape3 b ci l t \<Longrightarrow> 0 < ci \<Longrightarrow> 0 < l \<Longrightarrow> \<exists>y. nn_conv1d N ci co 3 1 w t = Inr y \<and> shape3 b co l y"
    and nn_pool_shape: "shape3 b ci l t \<Longrightarrow> 0 < l \<Longrightarrow> \<exists>y. nn_adaptive_max_pool1d N n t = Inr y \<and> shape3 b ci n y"
    and nn_linear_shape: "shape2 b i r \<Longrightarrow> \<exists>y. nn_linear N i j w r = Inr y \<and> shape2 b j y"
    and nn_sigmoid_range: "0 \<le> nn_sigmoid N z \<and> nn_sigmoid N z \<le> 1"
proof -
  show "shape2 b l x \<Longrightarrow> list_all (list_all (\<lambda>i. i < v)) x \<Longrightarrow> \<exists>y. nn_embedding N v d w x = Inr y \<and> shape3 b l d y"
    and "shape3 b ci l t \<Longrightarrow> 0 < l \<Longrightarrow> \<exists>y. nn_adaptive_max_pool1d N n t = Inr y \<and> shape3 b ci n y"
    and "shape2 b i r \<Longrightarrow> \<exists>y. nn_linear N i j w r = Inr y \<and> shape2 b j y"
    and "0 \<le> nn_sigmoid N z \<and> nn_sigmoid N z \<le> 1"
    using assms by (simp_all add: nn_ok_def)
  assume t: "shape3 b ci l t" "0 < ci" "0 < l"
  have conv: "\<forall>k p. shape3 b ci l t \<longrightarrow> 0 < ci \<longrightarrow> k \<le> l + 2 * p \<longrightarrow> (\<exists>y. nn_conv1d N ci co k p w t = Inr y \<and> shape3 b co (l + 2 * p - k + 1) y)"
    using assms by (simp add: nn_ok_def)
  have "l + 2 * 1 - 3 + 1 = l" using t(3) by simp
  with conv [rule_format, OF t(1,2), of 3 1] t(3) show "\<exists>y. nn_conv1d N ci co 3 1 w t = Inr y \<and> shape3 b co l y" by simp
qed

lemma cnn_forward_shape:
  assumes ok: "nn_ok N" and x: "shape2 b l x" "list_all (list_all (\<lambda>i. i < v)) x" "0 < l" "0 < e" "0 < c1"
  shows "\<exists>out. cnn_forward N v e c1 c2 h W x = Inr out \<and> shape2 b 1 out \<and> list_all (list_all (\<lambda>p. 0 \<le> p \<and> p \<le> 1)) out"
proof -
  obtain x1 where 1: "nn_embedding N v e (w_embedding W) x = Inr x1" "shape3 b l e x1"
    using nn_embedding_shape [OF ok x(1,2)] by blast
  obtain x2 where 2: "nn_conv1d N e c1 3 1 (w_conv1 W) (swap_inner x1) = Inr x2" "shape3 b c1 l x2"
    using nn_conv_shape [OF ok shape_swap [OF 1(2) x(3)] x(4,3)] by blast
  then have s2: "shape3 b c1 l (map (map (map (nn_relu N))) x2)" by simp
  obtain x3 where 3: "nn_conv1d N c1 c2 3 1 (w_conv2 W) (map (map (map (nn_relu N))) x2) = Inr x3" "shape3 b c2 l x3"
    using nn_conv_shape [OF ok s2 x(5,3)] by blast
  then have s3: "shape3 b c2 l (map (map (map (nn_relu N))) x3)" by simp
  obtain x4 where 4: "nn_adaptive_max_pool1d N 1 (map (map (map (nn_relu N))) x3) = Inr x4" "shape3 b c2 1 x4"
    using nn_pool_shape [OF ok s3 x(3)] by blast
  obtain x5 where 5: "nn_linear N c2 h (w_fc1 W) (squeeze_last x4) = Inr x5" "shape2 b h x5"
    using nn_linear_shape [OF ok shape_squeeze [OF 4(2)]] by blast
  then have s5: "shape2 b h (map (map (nn_relu N)) x5)" by simp
  obtain x6 where 6: "nn_linear N h 1 (w_fc2 W) (map (map (nn_relu N)) x5) = Inr x6" "shape2 b 1 x6"
    using nn_linear_shape [OF ok s5] by blast
  have "list_all (list_all (\<lambda>p. 0 \<le> p \<and> p \<le> 1)) (map (map (nn_sigmoid N)) x6)"
    using nn_sigmoid_range [OF ok] by (simp add: list_all_iff)
  then show ?thesis using 1 2 3 4 5 6 by (simp add: cnn_forward_def)
qed

lemma vocab_size: "VOCAB_SIZE = 39"
  by (simp add: VOCAB_SIZE_def CHARS_def)

lemma sequential_shape:
  assumes ok: "nn_ok N"
  shows "shape2 b 5 x \<Longrightarrow> \<exists>y. flow_autoencoder N W x = Inr y \<and> shape2 b 5 y"
proof -
  have three: "\<exists>y. sequential N [(i, j, w1), (j, k, w2), (k, m, w3)] t = Inr y \<and> shape2 b m y" if t: "shape2 b i t" for i j k m w1 w2 w3 t
  proof -
    obtain y1 where 1: "nn_linear N i j w1 t = Inr y1" "shape2 b j y1" using nn_linear_shape [OF ok t] by blast
    then have s1: "shape2 b j (map (map (nn_relu N)) y1)" by simp
    obtain y2 where 2: "nn_linear N j k w2 (map (map (nn_relu N)) y1) = Inr y2" "shape2 b k y2" using nn_linear_shape [OF ok s1] by blast
    then have s2: "shape2 b k (map (map (nn_relu N)) y2)" by simp
    obtain y3 where "nn_linear N k m w3 (map (map (nn_relu N)) y2) = Inr y3" "shape2 b m y3" using nn_linear_shape [OF ok s2] by blast
    with 1 2 show ?thesis by simp
  qed
  assume "shape2 b 5 x"
  then obtain y where "sequential N [(5, 16, W 0), (16, 8, W 1), (8, 3, W 2)] x = Inr y" "shape2 b 3 y" using three by blast
  moreover from this obtain z where "sequential N [(3, 8, W 3), (8, 16, W 4), (16, 5, W 5)] y = Inr z" "shape2 b 5 z" using three by blast
  ultimately show ?thesis by (simp add: flow_autoencoder_def)
qed

section \<open>The network and its callers\<close>

definition answers_batch :: "nat list list \<Rightarrow> tensor2 result \<Rightarrow> bool" where
  "answers_batch x r \<longleftrightarrow> (\<exists>out. r = Inr out \<and> length out = length x \<and> list_all (\<lambda>row. \<exists>p. row = [p] \<and> 0 \<le> p \<and> p \<le> 1) out)"

lemma forward_answers:
  assumes "nn_ok N" "list_all (\<lambda>r. length r = 35 \<and> list_all (\<lambda>i. i < 39) r) x" "0 < e" "0 < c1"
  shows "answers_batch x (cnn_forward N 39 e c1 c2 h W x)"
proof -
  have x: "shape2 (length x) 35 x" "list_all (list_all (\<lambda>i. i < 39)) x" using assms(2) by (auto simp: shape2_def list_all_iff)
  obtain out where "cnn_forward N 39 e c1 c2 h W x = Inr out" "shape2 (length x) 1 out" "list_all (list_all (\<lambda>p. 0 \<le> p \<and> p \<le> 1)) out"
    using cnn_forward_shape [OF assms(1) x _ assms(3,4)] by fastforce
  then show ?thesis by (auto simp: answers_batch_def shape2_def list_all_iff length_Suc_conv)
qed

lemma dl_encode_shape: "length (dl_encode_domain d) = 35 \<and> (\<forall>x\<in>set (dl_encode_domain d). x \<le> 38)"
  by (auto simp: dl_encode_domain_def pad_to_def max_len_def encode_domain_def split: if_splits option.splits
      dest: char_map_range) 

lemma slices_in_vocabulary: "list_all (\<lambda>r. length r = 35 \<and> list_all (\<lambda>i. i < 39) r) (all_slices ds)"
  using slice_shape by (fastforce simp: list_all_iff)

text \<open>The networks fit what is fed to them: both variants of the classifier answer every row of every
  training batch, of the batch of slices the engine builds, and of the zeros the tracer passes with one
  probability; the autoencoder returns vectors of the size it was given.\<close>

lemma networks_fit:
  assumes "nn_ok N"
  shows "answers_batch (all_slices ds) (dga_cnn N W (all_slices ds))" "answers_batch (all_slices ds) (dl_dga_cnn N W (all_slices ds))"
    and "answers_batch (map train_encode doms) (dga_cnn N W (map train_encode doms))"
    and "answers_batch (map dl_encode_domain doms) (dl_dga_cnn N W (map dl_encode_domain doms))"
    and "answers_batch [replicate 35 0] (dga_cnn N W [replicate 35 0])"
    and "shape2 b 5 vs \<Longrightarrow> \<exists>y. flow_autoencoder N V vs = Inr y \<and> shape2 b 5 y"
proof -
  have train: "list_all (\<lambda>r. length r = 35 \<and> list_all (\<lambda>i. i < 39) r) (map train_encode doms)"
    using train_encode_shape by (fastforce simp: list_all_iff)
  have dl: "list_all (\<lambda>r. length r = 35 \<and> list_all (\<lambda>i. i < 39) r) (map dl_encode_domain doms)"
    using dl_encode_shape by (fastforce simp: list_all_iff)
  show "answers_batch (all_slices ds) (dga_cnn N W (all_slices ds))" "answers_batch (all_slices ds) (dl_dga_cnn N W (all_slices ds))"
    "answers_batch (map train_encode doms) (dga_cnn N W (map train_encode doms))"
    "answers_batch (map dl_encode_domain doms) (dl_dga_cnn N W (map dl_encode_domain doms))"
    unfolding dga_cnn_def dl_dga_cnn_def vocab_size
    by (rule forward_answers [OF assms]; (rule slices_in_vocabulary train dl)?; simp?)+
  show "answers_batch [replicate 35 0] (dga_cnn N W [replicate 35 0])"
    unfolding dga_cnn_def by (rule forward_answers [OF assms]) (simp_all add: list_all_iff)
  show "shape2 b 5 vs \<Longrightarrow> \<exists>y. flow_autoencoder N V vs = Inr y \<and> shape2 b 5 y" by (rule sequential_shape [OF assms])
qed

lemma network_forward_prob:
  assumes "nn_ok N" "all_slices ds \<noteq> []"
  shows "\<exists>p. network_forward N W (all_slices ds) = Inr (Fin p) \<and> 0 \<le> p \<and> p \<le> 1"
proof -
  obtain out where out: "dga_cnn N W (all_slices ds) = Inr out" "length out = length (all_slices ds)"
    "list_all (\<lambda>row. \<exists>p. row = [p] \<and> 0 \<le> p \<and> p \<le> 1) out"
    using networks_fit(1) [OF assms(1)] unfolding answers_batch_def by blast
  have ne: "set (concat out) \<noteq> {}" using out(2,3) assms(2) by (cases out) auto
  have "\<forall>p\<in>set (concat out). 0 \<le> p \<and> p \<le> 1" using out(3) by (fastforce simp: list_all_iff)
  then have "0 \<le> Max (set (concat out))" "Max (set (concat out)) \<le> 1" using ne Max_in [of "set (concat out)"] by auto
  then show ?thesis by (simp add: network_forward_def out(1))
qed

definition prob_verdict :: "verdict \<Rightarrow> bool" where
  "prob_verdict v \<longleftrightarrow> (\<exists>p c. v = (p > 85 / 100, Fin p, Fin c) \<and> 0 \<le> p \<and> p \<le> 1)"

lemma prob_verdicts: "prob_verdict no_verdict" "prob_verdict (False, Fin 0, Fin c)"
  "0 \<le> p \<Longrightarrow> p \<le> 1 \<Longrightarrow> prob_verdict (float_less (Fin (85 / 100)) (Fin p), Fin p, Fin c)"
  by (auto simp: prob_verdict_def no_verdict_def)

text \<open>C27. The trained classifier serves the engine: with layers that have their documented shapes, the
  network never raises on the slices the engine cuts, so that the handler of failed predictions is not
  what answers; and whatever the domain, the verdict is a probability with the threshold applied to it.\<close>

theorem network_serves_engine:
  assumes "nn_ok N" "en_model en = Some W"
  shows "(all_slices ds \<noteq> [] \<longrightarrow> (\<exists>p. network_forward N W (all_slices ds) = Inr (Fin p) \<and> 0 \<le> p \<and> p \<le> 1)) \<and>
    prob_verdict (fst (predict X (network_forward N) deadline now later domain en))"
proof (intro conjI impI)
  show "all_slices ds \<noteq> [] \<Longrightarrow> \<exists>p. network_forward N W (all_slices ds) = Inr (Fin p) \<and> 0 \<le> p \<and> p \<le> 1"
    by (rule network_forward_prob [OF assms(1)])
  let ?slices = "all_slices (domain_variants (ascii_of X (clean_of X domain)) (clean_of X domain))"
  show "prob_verdict (fst (predict X (network_forward N) deadline now later domain en))"
  proof (cases "?slices = []")
    case False
    then obtain p where "network_forward N W ?slices = Inr (Fin p)" "0 \<le> p" "p \<le> 1"
      using network_forward_prob [OF assms(1)] by blast
    with False prob_verdicts(3) [of p "1 / 10"] prob_verdicts(1,2) show ?thesis by (simp add: predict_def assms(2) Let_def)
  qed (simp add: predict_def assms(2) Let_def prob_verdicts)
qed

text \<open>Layers of zeros with the documented shapes.\<close>

definition zero_nn :: "unit torch_nn" where
  "zero_nn = \<lparr>nn_embedding = (\<lambda>v d w x. Inr (map (map (\<lambda>i. replicate d 0)) x)),
     nn_conv1d = (\<lambda>ci co k p w x. Inr (map (\<lambda>m. replicate co (replicate (length (hd m) + 2 * p - k + 1) 0)) x)),
     nn_adaptive_max_pool1d = (\<lambda>n x. Inr (map (map (\<lambda>r. replicate n 0)) x)),
     nn_linear = (\<lambda>i j w x. Inr (map (\<lambda>r. replicate j 0) x)), nn_relu = (\<lambda>x. max 0 x), nn_sigmoid = (\<lambda>x. 1 / 2)\<rparr>"

lemma zero_nn_ok: "nn_ok zero_nn"
  by (auto simp: nn_ok_def zero_nn_def shape2_def shape3_def list_all_iff)

theorem network_serves_engine_witness:
  "\<exists>W. prob_verdict (fst (predict \<lparr>x_nfkc = id, x_idna = Some\<rparr> (network_forward zero_nn) None 0 0 ''example.com''
     \<lparr>en_model = Some W, en_count = 0, en_sha = []\<rparr>))"
  using network_serves_engine [OF zero_nn_ok, of "\<lparr>en_model = Some W, en_count = 0, en_sha = []\<rparr>" W "[]"
    "\<lparr>x_nfkc = id, x_idna = Some\<rparr>" None 0 0 "''example.com''" for W] by auto

end
