(* ===== verification/TrainScript.thy ===== *)
theory TrainScript
  imports Trainer
begin

text \<open>
  \<open>scripts/train_dl_models.py\<close>, the part that trains the classifier: the domains it draws, the batches of
  its epochs, the fixed number of epochs and the save.
\<close>

section \<open>The data\<close>

text \<open>The domains \<open>train_cnn\<close> draws: words with a number, words under a service name, three dictionary words,
  random labels.\<close>

definition benign_words :: "string list" where
  "benign_words = [''google'', ''apple'', ''microsoft'', ''amazon'', ''netflix'', ''bankofamerica'', ''github'', ''linkedin'',
     ''wikipedia'', ''yahoo'']"

definition dict_words :: "string list" where
  "dict_words = [''purple'', ''ocean'', ''chair'', ''quantum'', ''liquid'', ''shadow'', ''forest'', ''crypto'', ''tunnel'',
     ''beacon'', ''exfil'', ''payload'']"

record cnn_draws =
  cd_numbered :: "(string \<times> nat) list"
  cd_services :: "(string \<times> string) list"
  cd_words :: "(string \<times> string \<times> string) list"
  cd_random :: "string list"

definition cnn_benign :: "cnn_draws \<Rightarrow> string list" where
  "cnn_benign c = map (\<lambda>(w, n). w @ str_of_nat n @ ''.com'') (cd_numbered c) @ map (\<lambda>(s, w). s @ ''.'' @ w @ ''.com'') (cd_services c)"

definition cnn_dgas :: "cnn_draws \<Rightarrow> string list" where
  "cnn_dgas c = map (\<lambda>(x, y, z). x @ ''-'' @ y @ ''-'' @ z @ ''.net'') (cd_words c)"

definition cnn_random_dgas :: "cnn_draws \<Rightarrow> string list" where
  "cnn_random_dgas c = map (\<lambda>r. r @ ''.com'') (cd_random c)"

definition cnn_draws_ok :: "cnn_draws \<Rightarrow> bool" where
  "cnn_draws_ok c \<longleftrightarrow>
     length (cd_numbered c) = 3000 \<and> length (cd_services c) = 2000 \<and> length (cd_words c) = 3000 \<and> length (cd_random c) = 2000 \<and>
     (\<forall>(w, n)\<in>set (cd_numbered c). w \<in> set benign_words \<and> 1 \<le> n \<and> n \<le> 100) \<and>
     (\<forall>(s, w)\<in>set (cd_services c). s \<in> {''api'', ''mail'', ''cdn'', ''app''} \<and> w \<in> set benign_words) \<and>
     (\<forall>(x, y, z)\<in>set (cd_words c). x \<in> set dict_words \<and> y \<in> set dict_words \<and> z \<in> set dict_words) \<and>
     (\<forall>r\<in>set (cd_random c). 12 \<le> length r \<and> length r \<le> 25)"

definition cnn_dataset :: "cnn_draws \<Rightarrow> (nat list \<times> nat) list" where
  "cnn_dataset c = train_cnn_data (cnn_benign c) (cnn_dgas c) (cnn_random_dgas c)"

text \<open>No domain is cut by the encoder, and the dataset is balanced.\<close>

lemma word_lengths: "w \<in> set benign_words \<Longrightarrow> length w \<le> 13" "w \<in> set dict_words \<Longrightarrow> length w \<le> 7"
  by (auto simp: benign_words_def dict_words_def)

lemma str_of_nat_short: "n \<le> 100 \<Longrightarrow> length (str_of_nat n) \<le> 3"
proof -
  assume "n \<le> 100"
  then consider "n < 10" | "10 \<le> n" "n < 100" | "n = 100" by linarith
  then show ?thesis
  proof cases
    case 2
    then have "n div 10 < 10" by simp
    with 2 show ?thesis by (simp add: str_of_nat_big str_of_nat_small)
  next
    case 3
    have "length (str_of_nat 100) = 3" by code_simp
    with 3 show ?thesis by simp
  qed (simp add: str_of_nat_small)
qed

lemma cnn_domains_uncut:
  assumes "cnn_draws_ok c" "d \<in> set (cnn_benign c @ cnn_dgas c @ cnn_random_dgas c)"
  shows "length d \<le> max_len"
proof -
  note ok = assms(1) [unfolded cnn_draws_ok_def]
  consider w n where "(w, n) \<in> set (cd_numbered c)" "d = w @ str_of_nat n @ ''.com''"
    | s w where "(s, w) \<in> set (cd_services c)" "d = s @ ''.'' @ w @ ''.com''"
    | x y z where "(x, y, z) \<in> set (cd_words c)" "d = x @ ''-'' @ y @ ''-'' @ z @ ''.net''"
    | r where "r \<in> set (cd_random c)" "d = r @ ''.com''"
    using assms(2) unfolding cnn_benign_def cnn_dgas_def cnn_random_dgas_def by auto
  then show ?thesis
  proof cases
    case 1
    then have "w \<in> set benign_words" "n \<le> 100" using ok by auto
    then show ?thesis using word_lengths(1) str_of_nat_short [of n] 1(2) by (fastforce simp: max_len_def)
  next
    case 2
    then have "w \<in> set benign_words" "length s \<le> 4" using ok by auto
    then show ?thesis using word_lengths(1) 2(2) by (fastforce simp: max_len_def)
  next
    case 3
    then have "x \<in> set dict_words \<and> y \<in> set dict_words \<and> z \<in> set dict_words" using ok by blast
    then have "length x \<le> 7" "length y \<le> 7" "length z \<le> 7" by (simp_all add: word_lengths(2))
    then show ?thesis by (simp add: 3(2) max_len_def)
  next
    case 4
    then have "length r \<le> 25" using ok by blast
    then show ?thesis by (simp add: 4(2) max_len_def)
  qed
qed

lemma filter_zip_labels: "length xs = length ys \<Longrightarrow> length (filter (\<lambda>(x, y). P y) (zip xs ys)) = length (filter P ys)"
  by (induction xs ys rule: list_induct2) auto

lemma cnn_dataset_balanced:
  assumes "cnn_draws_ok c"
  shows "length (cnn_dataset c) = 10000 \<and> length (filter (\<lambda>(x, y). y = 1) (cnn_dataset c)) = 5000"
proof -
  have lengths: "length (cnn_benign c) = 5000" "length (cnn_dgas c) = 3000" "length (cnn_random_dgas c) = 2000"
    using assms by (simp_all add: cnn_draws_ok_def cnn_benign_def cnn_dgas_def cnn_random_dgas_def)
  then have all: "length (cnn_dataset c) = 10000"
    and "length (filter (\<lambda>(x, y). y = 1) (cnn_dataset c)) =
      length (filter (\<lambda>y. y = 1) (replicate 5000 0 @ replicate 3000 (1 :: nat) @ replicate 2000 1))"
    unfolding cnn_dataset_def train_cnn_data_def by (simp, subst filter_zip_labels) (simp_all only: length_map length_append length_replicate lengths)
  then show ?thesis by (simp add: filter_replicate)
qed

lemma batches_length:
  assumes "0 < n" shows "length (batches n xs) = (length xs + n - 1) div n"
proof (induction "length xs" arbitrary: xs rule: less_induct)
  case less
  show ?case
  proof (cases "xs = []")
    case True
    then show ?thesis using assms by (subst batches.simps) simp
  next
    case False
    then have "0 < length xs" by simp
    then have "length (batches n (drop n xs)) = (length xs - n + n - 1) div n"
      using less [of "drop n xs"] assms by simp
    then have "length (batches n xs) = Suc ((length xs - n + n - 1) div n)"
      using False assms by (subst batches.simps) simp
    also have "\<dots> = (length xs - n + n - 1 + n) div n" using div_add_self2 [of n "length xs - n + n - 1"] assms by simp
    also have "\<dots> = (length xs + n - 1) div n"
    proof (cases "n \<le> length xs")
      case True
      then have "length xs - n + n - 1 + n = length xs + n - 1" using assms by simp
      then show ?thesis by (simp only:)
    next
      case short: False
      have "n - 1 + n = (n - 1) + 1 * n" "length xs + n - 1 = (length xs - 1) + 1 * n" using False assms by (cases xs; simp)+
      then have "(n - 1 + n) div n = 1" "(length xs + n - 1) div n = 1" using short assms by (simp_all only: div_mult_self1) simp_all
      then show ?thesis using short by simp
    qed
    finally show ?thesis .
  qed
qed

lemma cnn_epoch_batches: "cnn_draws_ok c \<Longrightarrow> length (batches 128 (cnn_dataset c)) = 79"
  using cnn_dataset_balanced by (simp add: batches_length)

section \<open>The loop\<close>

text \<open>The script \<open>train_dl_models\<close>: a fixed number of epochs over shuffled batches, then one save in place.
  \<open>sgd\<close> is the step of the optimiser on one batch, \<open>loader\<close> what the \<open>DataLoader\<close> yields in an epoch,
  \<open>export\<close> the bytes of the traced network.\<close>

definition train_epochs :: "('w \<Rightarrow> 'b \<Rightarrow> 'w) \<Rightarrow> (nat \<Rightarrow> 'b list) \<Rightarrow> nat \<Rightarrow> 'w \<Rightarrow> 'w" where
  "train_epochs sgd loader epochs w = foldl (\<lambda>w epoch. foldl sgd w (loader epoch)) w [0..<epochs]"

definition train_cnn_trace :: "(bytes \<Rightarrow> string) \<Rightarrow> ('w \<Rightarrow> 'b \<Rightarrow> 'w) \<Rightarrow> (nat \<Rightarrow> 'b list) \<Rightarrow> ('w \<Rightarrow> bytes) \<Rightarrow> 'w \<Rightarrow> dir_op list" where
  "train_cnn_trace sha256 sgd loader export w = train_cnn_save sha256 (export (train_epochs sgd loader 8 w))"

text \<open>The autoencoder is trained the same way and saved without a checksum.\<close>

definition train_autoencoder :: "('w \<Rightarrow> 'b \<Rightarrow> 'w) \<Rightarrow> (nat \<Rightarrow> 'b list) \<Rightarrow> ('w \<Rightarrow> bytes) \<Rightarrow> 'w \<Rightarrow> string \<times> bytes" where
  "train_autoencoder sgd loader state_dict w = (''autoencoder_flow.pt'', state_dict (train_epochs sgd loader 10 w))"

text \<open>An undisturbed run of the script leaves the model after its eight epochs, and the next engine loads it.\<close>

lemma script_serves_model:
  assumes "default_env env" "\<And>b. hex_digest (t_sha256 T b)"
    and "model = export (train_epochs sgd loader 8 w)" "length model \<le> 52428800" "t_load T model = Inr m"
  shows "\<exists>d1. run_ops d (train_cnn_trace (t_sha256 T) sgd loader export w) = Inr d1 \<and>
    load_model_from_disk T env (engine_files d1) = Inr (m, t_sha256 T model)"
proof -
  let ?h = "t_sha256 T"
  let ?d = "d\<lparr>f_model := Some model, f_sha := Some (?h model @ [CHR 0x0A])\<rparr>"
  have "run_ops d (train_cnn_trace ?h sgd loader export w) = Inr ?d"
    by (simp add: train_cnn_trace_def train_cnn_save_def assms(3))
  moreover have "py_strip (take 1024 (?h model @ [CHR 0x0A])) = ?h model" "list_all (\<lambda>c. cp c < 128) (?h model @ ?h model)"
    using hex_digest_plain [OF assms(2), of model] by simp_all
  then have "load_model_from_disk T env (engine_files ?d) = Inr (m, ?h model)"
    using load_from_dir [OF assms(1), of ?d model "?h model @ [CHR 0x0A]" "?h model" T] assms(4,5) by simp
  ultimately show ?thesis by blast
qed

end
