(* ===== verification/Agents.thy ===== *)
theory Agents
  imports Prelude
begin

text \<open>
  The concurrency of \<open>inference/stream_processor_faust.py\<close>: sixteen agents share three semaphores and
  two thread pools. An agent is the place it has reached in \<open>process_traffic\<close>; what happens between
  two awaits is one step. Outcomes of threads, sends and timeouts are choices of the environment.
  What an event does to the data is in theory \<open>Stream\<close>.
\<close>

section \<open>Thread pools\<close>

text \<open>An entry is the agent that awaits the job, or \<open>None\<close> for a job nobody awaits any more: cancelled
  while queued, abandoned while running.\<close>

record pool =
  p_queue :: "nat option list"
  p_running :: "nat option list"

definition jobs :: "pool \<Rightarrow> nat option list" where
  "jobs p = p_queue p @ p_running p"

definition pool_submit :: "nat \<Rightarrow> pool \<Rightarrow> pool" where
  "pool_submit i p = p\<lparr>p_queue := p_queue p @ [Some i]\<rparr>"

definition forget :: "nat \<Rightarrow> nat option \<Rightarrow> nat option" where
  "forget i x = (if x = Some i then None else x)"

text \<open>\<open>wait_for\<close> gives up: a queued job is cancelled but stays in the queue, a running one goes on.\<close>

definition pool_abandon :: "nat \<Rightarrow> pool \<Rightarrow> pool" where
  "pool_abandon i p = \<lparr>p_queue = map (forget i) (p_queue p), p_running = map (forget i) (p_running p)\<rparr>"

text \<open>A free thread takes the next entry and skips it when it was cancelled.\<close>

definition pool_take :: "nat \<Rightarrow> pool \<Rightarrow> pool option" where
  "pool_take threads p =
     (if length (p_running p) < threads then
        (case p_queue p of
           [] \<Rightarrow> None
         | None # q \<Rightarrow> Some (p\<lparr>p_queue := q\<rparr>)
         | Some i # q \<Rightarrow> Some \<lparr>p_queue = q, p_running = p_running p @ [Some i]\<rparr>)
      else None)"

definition pool_finish :: "nat \<Rightarrow> pool \<Rightarrow> pool" where
  "pool_finish k p = p\<lparr>p_running := take k (p_running p) @ drop (Suc k) (p_running p)\<rparr>"

section \<open>An agent\<close>

datatype io_task = Correlate | RollbackTwice | Rollback | DiskWrite

text \<open>\<open>Emitting n\<close>: at the head of the loop with \<open>n\<close> detections left. \<open>OnIo t n b\<close>: awaiting an I/O job with
  \<open>n\<close> detections left after this one; \<open>b\<close> tells that the job has ended.\<close>

datatype phase = Idle | AtGate | Extracting | AtPending | AtInfer | Inferring bool | Emitting nat | OnIo io_task nat bool

datatype sem = Backpressure | Pending | Infer

definition capacity :: "sem \<Rightarrow> nat" where
  "capacity m = (case m of Backpressure \<Rightarrow> 8 | Pending \<Rightarrow> 8 | Infer \<Rightarrow> 4)"

definition holds :: "sem \<Rightarrow> phase \<Rightarrow> bool" where
  "holds m p =
     (case m of
        Backpressure \<Rightarrow> (case p of Idle \<Rightarrow> False | AtGate \<Rightarrow> False | _ \<Rightarrow> True)
      | Pending \<Rightarrow> (case p of AtInfer \<Rightarrow> True | Inferring _ \<Rightarrow> True | _ \<Rightarrow> False)
      | Infer \<Rightarrow> (case p of Inferring _ \<Rightarrow> True | _ \<Rightarrow> False))"

text \<open>What a step asks of the pools: nothing, a new job, or to give a job up (and submit the rollback).\<close>

datatype effect = Local | SubmitCpu | GiveUpCpu | SubmitIo | GiveUpIo

datatype choice = Go | Fail | Found nat | Ask | Late | Unsent | ToDisk

fun advance :: "phase \<Rightarrow> choice \<Rightarrow> (effect \<times> phase) option" where
  "advance Idle c = None"
| "advance AtGate c = (case c of Go \<Rightarrow> Some (Local, Extracting) | _ \<Rightarrow> None)"
| "advance Extracting c =
     (case c of
        Fail \<Rightarrow> Some (Local, Idle)
      | Found n \<Rightarrow> Some (Local, Emitting n)
      | Ask \<Rightarrow> Some (Local, AtPending)
      | _ \<Rightarrow> None)"
| "advance AtPending c = (case c of Go \<Rightarrow> Some (Local, AtInfer) | _ \<Rightarrow> None)"
| "advance AtInfer c = (case c of Go \<Rightarrow> Some (SubmitCpu, Inferring False) | _ \<Rightarrow> None)"
| "advance (Inferring ended) c =
     (case c of Found n \<Rightarrow> Some (if ended then Local else GiveUpCpu, Emitting n) | _ \<Rightarrow> None)"
| "advance (Emitting 0) c = (case c of Go \<Rightarrow> Some (Local, Idle) | _ \<Rightarrow> None)"
| "advance (Emitting (Suc n)) c =
     (case c of
        Go \<Rightarrow> Some (SubmitIo, OnIo Correlate n False)
      | Fail \<Rightarrow> Some (Local, Emitting n)
      | ToDisk \<Rightarrow> Some (SubmitIo, OnIo DiskWrite n False)
      | _ \<Rightarrow> None)"
| "advance (OnIo Correlate n ended) c =
     (if \<not> ended then (case c of Late \<Rightarrow> Some (GiveUpIo, OnIo Rollback n False) | _ \<Rightarrow> None)
      else (case c of
              Go \<Rightarrow> Some (Local, Emitting n)
            | ToDisk \<Rightarrow> Some (SubmitIo, OnIo DiskWrite n False)
            | Unsent \<Rightarrow> Some (SubmitIo, OnIo Rollback n False)
            | Late \<Rightarrow> Some (SubmitIo, OnIo RollbackTwice n False)
            | _ \<Rightarrow> None))"
| "advance (OnIo RollbackTwice n ended) c =
     (if ended then (case c of Go \<Rightarrow> Some (SubmitIo, OnIo Rollback n False) | _ \<Rightarrow> None) else None)"
| "advance (OnIo Rollback n ended) c =
     (if ended then
        (case c of
           Go \<Rightarrow> Some (Local, Emitting n)
         | ToDisk \<Rightarrow> Some (SubmitIo, OnIo DiskWrite n False)
         | _ \<Rightarrow> None)
      else None)"
| "advance (OnIo DiskWrite n ended) c =
     (if ended then (case c of Go \<Rightarrow> Some (Local, Emitting n) | _ \<Rightarrow> None) else None)"

section \<open>The fleet\<close>

record fleet =
  fl_agents :: "phase list"
  fl_cpu :: pool
  fl_io :: pool

definition holders :: "sem \<Rightarrow> phase list \<Rightarrow> nat" where
  "holders m ps = length (filter (holds m) ps)"

text \<open>\<open>async with\<close>: a step that enters a block needs a free permit of its semaphore.\<close>

definition may_enter :: "phase list \<Rightarrow> phase \<Rightarrow> phase \<Rightarrow> bool" where
  "may_enter ps p q \<longleftrightarrow>
     list_all (\<lambda>m. holds m q \<longrightarrow> holds m p \<or> holders m ps < capacity m) [Backpressure, Pending, Infer]"

definition take_effect :: "effect \<Rightarrow> nat \<Rightarrow> fleet \<Rightarrow> fleet" where
  "take_effect e i s =
     (case e of
        Local \<Rightarrow> s
      | SubmitCpu \<Rightarrow> s\<lparr>fl_cpu := pool_submit i (fl_cpu s)\<rparr>
      | GiveUpCpu \<Rightarrow> s\<lparr>fl_cpu := pool_abandon i (fl_cpu s)\<rparr>
      | SubmitIo \<Rightarrow> s\<lparr>fl_io := pool_submit i (fl_io s)\<rparr>
      | GiveUpIo \<Rightarrow> s\<lparr>fl_io := pool_submit i (pool_abandon i (fl_io s))\<rparr>)"

definition ended_phase :: "phase \<Rightarrow> phase" where
  "ended_phase p = (case p of Inferring _ \<Rightarrow> Inferring True | OnIo t n _ \<Rightarrow> OnIo t n True | _ \<Rightarrow> p)"

definition settle :: "nat option \<Rightarrow> phase list \<Rightarrow> phase list" where
  "settle x ps = (case x of None \<Rightarrow> ps | Some i \<Rightarrow> ps[i := ended_phase (ps ! i)])"

datatype action = Arrive nat | Move nat choice | CpuTake | IoTake | CpuFinish nat | IoFinish nat

definition CPU_THREADS :: nat where
  "CPU_THREADS = 4"

definition IO_THREADS :: nat where
  "IO_THREADS = 8"

fun step :: "action \<Rightarrow> fleet \<Rightarrow> fleet option" where
  "step (Arrive i) s =
     (if i < length (fl_agents s) \<and> fl_agents s ! i = Idle then Some (s\<lparr>fl_agents := (fl_agents s)[i := AtGate]\<rparr>) else None)"
| "step (Move i c) s =
     (if i < length (fl_agents s) then
        (case advance (fl_agents s ! i) c of
           None \<Rightarrow> None
         | Some (e, q) \<Rightarrow>
             if may_enter (fl_agents s) (fl_agents s ! i) q
             then Some (take_effect e i (s\<lparr>fl_agents := (fl_agents s)[i := q]\<rparr>)) else None)
      else None)"
| "step CpuTake s = map_option (\<lambda>p. s\<lparr>fl_cpu := p\<rparr>) (pool_take CPU_THREADS (fl_cpu s))"
| "step IoTake s = map_option (\<lambda>p. s\<lparr>fl_io := p\<rparr>) (pool_take IO_THREADS (fl_io s))"
| "step (CpuFinish k) s =
     (if k < length (p_running (fl_cpu s))
      then Some (s\<lparr>fl_agents := settle (p_running (fl_cpu s) ! k) (fl_agents s), fl_cpu := pool_finish k (fl_cpu s)\<rparr>) else None)"
| "step (IoFinish k) s =
     (if k < length (p_running (fl_io s))
      then Some (s\<lparr>fl_agents := settle (p_running (fl_io s) ! k) (fl_agents s), fl_io := pool_finish k (fl_io s)\<rparr>) else None)"

definition start :: fleet where
  "start = \<lparr>fl_agents = replicate 16 Idle, fl_cpu = \<lparr>p_queue = [], p_running = []\<rparr>, fl_io = \<lparr>p_queue = [], p_running = []\<rparr>\<rparr>"

fun run_steps :: "action list \<Rightarrow> fleet \<Rightarrow> fleet option" where
  "run_steps [] s = Some s"
| "run_steps (a # as) s = (case step a s of None \<Rightarrow> None | Some t \<Rightarrow> run_steps as t)"

inductive reachable :: "fleet \<Rightarrow> bool" where
  at_start: "reachable start"
| by_step: "reachable s \<Longrightarrow> step a s = Some t \<Longrightarrow> reachable t"

text \<open>Every step but the arrival of an event.\<close>

inductive drain_step :: "fleet \<Rightarrow> fleet \<Rightarrow> bool" where
  drain: "step a s = Some t \<Longrightarrow> (\<And>i. a \<noteq> Arrive i) \<Longrightarrow> drain_step s t"

text \<open>Shutdown drops what is queued and lets what is running go on.\<close>

definition shutdown_pool :: "pool \<Rightarrow> pool" where
  "shutdown_pool p = p\<lparr>p_queue := []\<rparr>"

definition shutdown_executors :: "fleet \<Rightarrow> fleet" where
  "shutdown_executors s = s\<lparr>fl_io := shutdown_pool (fl_io s), fl_cpu := shutdown_pool (fl_cpu s)\<rparr>"

text \<open>The handler \<open>_on_before_shutdown\<close> and, after it, \<open>_shutdown_executors\<close> again at exit. The job on the loop's
  own pool ends in time, outlives its 45 s, or could not be submitted; the queues are cancelled before
  it waits for the threads.\<close>

datatype shutdown_wait = WaitDone | WaitTimedOut | NotSubmitted

datatype shutdown_log = EnricherError | ExecutorsTimedOut | ExecutorsError | CleanedUp

definition on_before_shutdown :: "bool \<Rightarrow> shutdown_wait \<Rightarrow> fleet \<Rightarrow> fleet \<times> shutdown_log list" where
  "on_before_shutdown closes w s =
     (if w = NotSubmitted then s else shutdown_executors s,
      (if closes then [] else [EnricherError]) @
      (case w of WaitDone \<Rightarrow> [] | WaitTimedOut \<Rightarrow> [ExecutorsTimedOut] | NotSubmitted \<Rightarrow> [ExecutorsError]) @ [CleanedUp])"

definition teardown :: "bool \<Rightarrow> shutdown_wait \<Rightarrow> fleet \<Rightarrow> fleet" where
  "teardown closes w s = shutdown_executors (fst (on_before_shutdown closes w s))"

definition quiescent :: "fleet \<Rightarrow> bool" where
  "quiescent s \<longleftrightarrow> list_all (\<lambda>p. p = Idle) (fl_agents s) \<and> jobs (fl_cpu s) = [] \<and> jobs (fl_io s) = []"

section \<open>Updating one agent\<close>

lemma sum_list_map_update:
  fixes f :: "'a \<Rightarrow> nat"
  shows "i < length xs \<Longrightarrow> sum_list (map f (xs[i := x])) + f (xs ! i) = sum_list (map f xs) + f x"
  by (induction xs arbitrary: i) (auto split: nat.splits simp: less_Suc_eq_0_disj)

lemma length_filter_update:
  assumes "i < length xs"
  shows "length (filter P (xs[i := x])) + of_bool (P (xs ! i)) = length (filter P xs) + of_bool (P x)"
proof -
  have count: "length (filter P ys) = sum_list (map (\<lambda>y. of_bool (P y)) ys)" for ys
    by (induction ys) simp_all
  show ?thesis unfolding count by (rule sum_list_map_update [OF assms])
qed

lemma holders_update:
  assumes "i < length ps" "holds m q \<Longrightarrow> holds m (ps ! i) \<or> holders m ps < c" "holders m ps \<le> c"
  shows "holders m (ps[i := q]) \<le> c"
  using length_filter_update [OF assms(1), of "holds m" q] assms(2,3)
  by (cases "holds m q"; cases "holds m (ps ! i)") (simp_all add: holders_def)

lemma may_enter_iff: "may_enter ps p q \<longleftrightarrow> (\<forall>m. holds m q \<longrightarrow> holds m p \<or> holders m ps < capacity m)"
proof -
  have "(\<forall>m. Q m) \<longleftrightarrow> Q Backpressure \<and> Q Pending \<and> Q Infer" for Q by (metis sem.exhaust)
  then show ?thesis by (simp add: may_enter_def)
qed

section \<open>Jobs and the agents that await them\<close>

definition on_cpu :: "phase \<Rightarrow> bool" where
  "on_cpu p \<longleftrightarrow> p = Inferring False"

definition on_io :: "phase \<Rightarrow> bool" where
  "on_io p \<longleftrightarrow> (case p of OnIo _ _ ended \<Rightarrow> \<not> ended | _ \<Rightarrow> False)"

lemma ended_phase_waits [simp]: "\<not> on_cpu (ended_phase p)" "\<not> on_io (ended_phase p)"
  by (cases p; simp add: ended_phase_def on_cpu_def on_io_def)+

lemma holds_ended [simp]: "holds m (ended_phase p) = holds m p"
  by (cases p; cases m) (simp_all add: ended_phase_def holds_def)

text \<open>Each agent that awaits a job has exactly one, and every other job is nobody's.\<close>

definition matched :: "(phase \<Rightarrow> bool) \<Rightarrow> phase list \<Rightarrow> (nat \<Rightarrow> nat) \<Rightarrow> bool" where
  "matched waits ps awaited \<longleftrightarrow> (\<forall>i. awaited i = of_bool (i < length ps \<and> waits (ps ! i)))"

text \<open>What the agents rely on: how submitting, giving up, taking and ending a job change the number of
  jobs an agent awaits.\<close>

locale worker_pool =
  fixes awaited :: "'p \<Rightarrow> nat \<Rightarrow> nat"
    and submit :: "nat \<Rightarrow> 'p \<Rightarrow> 'p"
    and abandon :: "nat \<Rightarrow> 'p \<Rightarrow> 'p"
    and taken :: "'p \<Rightarrow> 'p \<Rightarrow> bool"
    and finished :: "nat option \<Rightarrow> 'p \<Rightarrow> 'p \<Rightarrow> bool"
  assumes awaited_submit: "awaited (submit i p) j = awaited p j + of_bool (j = i)"
    and awaited_abandon: "awaited (abandon i p) j = (if j = i then 0 else awaited p j)"
    and awaited_taken: "taken p q \<Longrightarrow> awaited q j = awaited p j"
    and awaited_finished: "finished x p q \<Longrightarrow> awaited q j + of_bool (x = Some j) = awaited p j"
begin

lemma matched_same: "matched w ps (awaited p) \<Longrightarrow> i < length ps \<Longrightarrow> w q = w (ps ! i) \<Longrightarrow> matched w (ps[i := q]) (awaited p)"
  by (auto simp: matched_def nth_list_update)

lemma matched_submit:
  "matched w ps (awaited p) \<Longrightarrow> i < length ps \<Longrightarrow> \<not> w (ps ! i) \<Longrightarrow> w q \<Longrightarrow> matched w (ps[i := q]) (awaited (submit i p))"
  by (auto simp: matched_def nth_list_update awaited_submit)

lemma matched_abandon:
  "matched w ps (awaited p) \<Longrightarrow> i < length ps \<Longrightarrow> \<not> w q \<Longrightarrow> matched w (ps[i := q]) (awaited (abandon i p))"
  by (auto simp: matched_def nth_list_update awaited_abandon)

lemma matched_resubmit:
  "matched w ps (awaited p) \<Longrightarrow> i < length ps \<Longrightarrow> w q \<Longrightarrow> matched w (ps[i := q]) (awaited (submit i (abandon i p)))"
  by (auto simp: matched_def nth_list_update awaited_submit awaited_abandon)

lemma matched_take: "matched w ps (awaited p) \<Longrightarrow> taken p q \<Longrightarrow> matched w ps (awaited q)"
  by (simp add: matched_def awaited_taken)

lemma matched_member: "matched w ps (awaited p) \<Longrightarrow> finished (Some i) p q \<Longrightarrow> i < length ps \<and> w (ps ! i)"
  using awaited_finished [of "Some i" p q i] by (cases "i < length ps \<and> w (ps ! i)") (simp_all add: matched_def)

lemma matched_finish:
  assumes m: "matched w ps (awaited p)" and f: "finished x p q" and w: "\<And>y. \<not> w (ended_phase y)"
  shows "matched w (settle x ps) (awaited q)"
proof (cases x)
  case None
  then show ?thesis using m awaited_finished [OF f] by (simp add: settle_def matched_def)
next
  case (Some i)
  have "awaited q j = of_bool (j < length ps \<and> w (ps[i := ended_phase (ps ! i)] ! j))" for j
    using awaited_finished [OF f, of j] m w [of "ps ! i"] matched_member [OF m f [unfolded Some]] Some
    by (cases "j = i") (auto simp: matched_def)
  then show ?thesis using Some by (simp add: settle_def matched_def)
qed

lemma matched_other_finish:
  assumes "matched w1 ps (awaited p)" "finished x p q" "matched w2 ps (awaited p2)" "\<And>y. w1 y \<Longrightarrow> w2 (ended_phase y) = w2 y"
  shows "matched w2 (settle x ps) (awaited p2)"
proof (cases x)
  case (Some i)
  from matched_member [OF assms(1) assms(2) [unfolded this]] show ?thesis
    using Some assms(3,4) by (simp add: settle_def matched_same)
qed (use assms(3) in \<open>simp add: settle_def\<close>)

end

text \<open>A \<open>ThreadPoolExecutor\<close> keeps these laws.\<close>

definition awaited_jobs :: "pool \<Rightarrow> nat \<Rightarrow> nat" where
  "awaited_jobs p i = count_list (jobs p) (Some i)"

definition takes :: "pool \<Rightarrow> pool \<Rightarrow> bool" where
  "takes p q \<longleftrightarrow> (\<exists>n. pool_take n p = Some q)"

definition finishes :: "nat option \<Rightarrow> pool \<Rightarrow> pool \<Rightarrow> bool" where
  "finishes x p q \<longleftrightarrow> (\<exists>k<length (p_running p). x = p_running p ! k \<and> q = pool_finish k p)"

lemma count_forget:
  "count_list (map (forget i) xs) (Some j) = (if j = i then 0 else count_list xs (Some j))"
  by (induction xs) (auto simp: forget_def)

interpretation threads: worker_pool awaited_jobs pool_submit pool_abandon takes finishes
proof
  fix i j :: nat and p q :: pool and x :: "nat option"
  show "awaited_jobs (pool_submit i p) j = awaited_jobs p j + of_bool (j = i)"
    by (simp add: awaited_jobs_def jobs_def pool_submit_def)
  show "awaited_jobs (pool_abandon i p) j = (if j = i then 0 else awaited_jobs p j)"
    by (simp add: awaited_jobs_def jobs_def pool_abandon_def count_forget)
  show "awaited_jobs q j = awaited_jobs p j" if "takes p q"
    using that by (auto simp: takes_def awaited_jobs_def pool_take_def jobs_def split: if_splits list.splits option.splits)
  show "awaited_jobs q j + of_bool (x = Some j) = awaited_jobs p j" if f: "finishes x p q"
  proof -
    let ?r = "p_running p"
    obtain k where k: "k < length ?r" "x = ?r ! k" "q = pool_finish k p" using f by (auto simp: finishes_def)
    have "count_list ?r (Some j) = count_list (take k ?r @ ?r ! k # drop (Suc k) ?r) (Some j)"
      using id_take_nth_drop [OF k(1)] by simp
    then show ?thesis using k by (simp add: awaited_jobs_def jobs_def pool_finish_def)
  qed
qed

lemma finishesI: "k < length (p_running p) \<Longrightarrow> finishes (p_running p ! k) p (pool_finish k p)"
  by (auto simp: finishes_def)

lemma takesI: "pool_take n p = Some q \<Longrightarrow> takes p q"
  by (auto simp: takes_def)

section \<open>The invariant\<close>

definition fleet_ok :: "fleet \<Rightarrow> bool" where
  "fleet_ok s \<longleftrightarrow>
     (\<forall>m. holders m (fl_agents s) \<le> capacity m) \<and>
     length (p_running (fl_cpu s)) \<le> CPU_THREADS \<and> length (p_running (fl_io s)) \<le> IO_THREADS \<and>
     matched on_cpu (fl_agents s) (awaited_jobs (fl_cpu s)) \<and> matched on_io (fl_agents s) (awaited_jobs (fl_io s))"

text \<open>What one step of an agent means for the jobs it awaits.\<close>

definition effect_fits :: "effect \<Rightarrow> phase \<Rightarrow> phase \<Rightarrow> bool" where
  "effect_fits e p q \<longleftrightarrow>
     (case e of
        Local \<Rightarrow> on_cpu q = on_cpu p \<and> on_io q = on_io p
      | SubmitCpu \<Rightarrow> \<not> on_cpu p \<and> on_cpu q \<and> on_io q = on_io p
      | GiveUpCpu \<Rightarrow> \<not> on_cpu q \<and> on_io q = on_io p
      | SubmitIo \<Rightarrow> \<not> on_io p \<and> on_io q \<and> on_cpu q = on_cpu p
      | GiveUpIo \<Rightarrow> on_io q \<and> on_cpu q = on_cpu p)"

lemmas waits_defs = on_cpu_def on_io_def

lemma advance_fits: "advance p c = Some (e, q) \<Longrightarrow> effect_fits e p q"
  by (cases "(p, c)" rule: advance.cases) (auto simp: effect_fits_def waits_defs split: choice.splits if_splits)

lemma holders_settle [simp]: "holders m (settle x ps) = holders m ps"
proof (cases x)
  case (Some i)
  then show ?thesis
    using length_filter_update [of i ps "holds m" "ended_phase (ps ! i)"]
    by (cases "i < length ps") (simp_all add: settle_def holders_def list_update_beyond)
qed (simp add: settle_def)

lemma take_running: "pool_take n p = Some p' \<Longrightarrow> length (p_running p) \<le> n \<Longrightarrow> length (p_running p') \<le> n"
  by (auto simp: pool_take_def split: if_splits list.splits option.splits)

lemma finish_running: "length (p_running (pool_finish k p)) \<le> length (p_running p)"
  by (simp add: pool_finish_def)

lemma same_running [simp]:
  "p_running (pool_submit i p) = p_running p" "length (p_running (pool_abandon i p)) = length (p_running p)"
  by (simp_all add: pool_submit_def pool_abandon_def)

lemma move_ok:
  assumes ok: "fleet_ok s" and i: "i < length (fl_agents s)" and fits: "effect_fits e (fl_agents s ! i) q"
    and enter: "may_enter (fl_agents s) (fl_agents s ! i) q"
  shows "fleet_ok (take_effect e i (s\<lparr>fl_agents := (fl_agents s)[i := q]\<rparr>))"
proof -
  have "holders m ((fl_agents s)[i := q]) \<le> capacity m" for m
    by (rule holders_update) (use i enter ok in \<open>auto simp: may_enter_iff fleet_ok_def\<close>)
  then show ?thesis using ok i fits
    by (cases e) (simp_all add: fleet_ok_def take_effect_def effect_fits_def threads.matched_same threads.matched_submit
      threads.matched_abandon threads.matched_resubmit)
qed

lemma arrive_ok: "fleet_ok s \<Longrightarrow> i < length (fl_agents s) \<Longrightarrow> fl_agents s ! i = Idle \<Longrightarrow> fleet_ok (s\<lparr>fl_agents := (fl_agents s)[i := AtGate]\<rparr>)"
  using move_ok [of s i Local AtGate] by (simp add: effect_fits_def waits_defs take_effect_def may_enter_iff holds_def split: sem.split)

lemma one_wait [simp]: "on_cpu q \<Longrightarrow> \<not> on_io q" "on_io q \<Longrightarrow> \<not> on_cpu q"
  by (cases q; simp add: waits_defs)+

lemma fleet_step_ok: "step a s = Some t \<Longrightarrow> fleet_ok s \<Longrightarrow> fleet_ok t"
proof (induction a s rule: step.induct)
  case (1 i s)
  then show ?case by (auto simp: arrive_ok split: if_splits)
next
  case (2 i c s)
  then show ?case by (auto simp: move_ok advance_fits split: if_splits option.splits)
next
  case (3 s)
  then show ?case by (auto simp: fleet_ok_def intro: take_running threads.matched_take [OF _ takesI])
next
  case (4 s)
  then show ?case by (auto simp: fleet_ok_def intro: take_running threads.matched_take [OF _ takesI])
next
  case (5 k s)
  then have k: "k < length (p_running (fl_cpu s))" and t: "t = s\<lparr>fl_agents := settle (p_running (fl_cpu s) ! k) (fl_agents s), fl_cpu := pool_finish k (fl_cpu s)\<rparr>"
    by (auto split: if_splits)
  show ?case using 5(2) finish_running [of k "fl_cpu s"] threads.matched_finish [OF _ finishesI [OF k], of on_cpu]
      threads.matched_other_finish [OF _ finishesI [OF k], of on_cpu _ on_io]
    by (simp add: fleet_ok_def t)
next
  case (6 k s)
  then have k: "k < length (p_running (fl_io s))" and t: "t = s\<lparr>fl_agents := settle (p_running (fl_io s) ! k) (fl_agents s), fl_io := pool_finish k (fl_io s)\<rparr>"
    by (auto split: if_splits)
  show ?case using 6(2) finish_running [of k "fl_io s"] threads.matched_finish [OF _ finishesI [OF k], of on_io]
      threads.matched_other_finish [OF _ finishesI [OF k], of on_io _ on_cpu]
    by (simp add: fleet_ok_def t)
qed

lemma matched_start: "(\<And>i. i < length ps \<Longrightarrow> \<not> w (ps ! i)) \<Longrightarrow> matched w ps (awaited_jobs \<lparr>p_queue = [], p_running = []\<rparr>)"
  by (auto simp: matched_def awaited_jobs_def jobs_def)

lemma start_ok: "fleet_ok start"
proof -
  have "matched w (replicate 16 Idle) (awaited_jobs \<lparr>p_queue = [], p_running = []\<rparr>)" if "\<not> w Idle" for w
    by (rule matched_start) (use that in simp)
  then show ?thesis
    by (simp add: fleet_ok_def start_def waits_defs holders_def holds_def split: sem.split)
qed

lemma reachable_ok: "reachable s \<Longrightarrow> fleet_ok s"
  by (induction rule: reachable.induct) (blast intro: start_ok fleet_step_ok)+

text \<open>The live jobs of a pool are at most the agents that await one.\<close>

lemma distinct_of_counts: "(\<And>x. count_list xs x \<le> 1) \<Longrightarrow> distinct xs"
proof (induction xs)
  case (Cons x xs)
  have "count_list xs y \<le> 1" for y using Cons.prems [of y] by (simp split: if_splits)
  moreover have "count_list xs x = 0" using Cons.prems [of x] by simp
  ultimately show ?case using Cons.IH by (simp add: count_list_0_iff)
qed simp

definition live_jobs :: "pool \<Rightarrow> nat" where
  "live_jobs p = length (filter (\<lambda>x. x \<noteq> None) (jobs p))"

lemma live_jobs_le:
  assumes m: "matched w ps (awaited_jobs p)" shows "live_jobs p \<le> length (filter w ps)"
proof -
  let ?l = "filter (\<lambda>x. x \<noteq> None) (jobs p)"
  have count: "count_list (filter (\<lambda>x. x \<noteq> None) js) x = (case x of None \<Rightarrow> 0 | Some i \<Rightarrow> count_list js (Some i))" for js :: "nat option list" and x
    by (induction js) (auto split: option.split)
  have "count_list ?l x \<le> 1" for x
    unfolding count using m by (simp add: matched_def awaited_jobs_def split: option.split)
  then have "length ?l = card (set ?l)" by (metis distinct_of_counts distinct_card)
  also have "set ?l \<subseteq> Some ` {i. i < length ps \<and> w (ps ! i)}"
  proof
    fix x assume "x \<in> set ?l"
    then obtain i where x: "x = Some i" "Some i \<in> set (jobs p)" by auto
    then have "count_list (jobs p) (Some i) \<noteq> 0" by (simp add: count_list_0_iff)
    with m x show "x \<in> Some ` {i. i < length ps \<and> w (ps ! i)}" by (auto simp: matched_def awaited_jobs_def)
  qed
  then have "card (set ?l) \<le> card (Some ` {i. i < length ps \<and> w (ps ! i)})" by (rule card_mono [rotated]) simp
  also have "\<dots> = length (filter w ps)" by (simp add: card_image length_filter_conv_card)
  finally show ?thesis by (simp add: live_jobs_def)
qed

lemma filter_mono_length: "(\<And>x. x \<in> set xs \<Longrightarrow> P x \<Longrightarrow> Q x) \<Longrightarrow> length (filter P xs) \<le> length (filter Q xs)"
  by (induction xs) auto

lemma cpu_within_infer: "length (filter on_cpu ps) \<le> holders Infer ps"
  unfolding holders_def by (rule filter_mono_length) (auto simp: waits_defs holds_def)

lemma io_within_gate: "length (filter on_io ps) \<le> holders Backpressure ps"
  unfolding holders_def by (rule filter_mono_length) (auto simp: waits_defs holds_def split: phase.splits)

text \<open>C10. The load of the stream processor is bounded: in every reachable state of its sixteen agents at most
eight events are past the gate and at most four are being classified, no pool runs more jobs than it
has threads, and at most four CPU jobs and eight I/O jobs are awaited, queued or running.\<close>

theorem stream_load_bounded:
  assumes "reachable s"
  shows "holders Backpressure (fl_agents s) \<le> 8 \<and> holders Infer (fl_agents s) \<le> 4 \<and>
    length (p_running (fl_cpu s)) \<le> 4 \<and> length (p_running (fl_io s)) \<le> 8 \<and>
    live_jobs (fl_cpu s) \<le> 4 \<and> live_jobs (fl_io s) \<le> 8"
proof -
  have ok: "holders Backpressure (fl_agents s) \<le> 8" "holders Infer (fl_agents s) \<le> 4"
    "length (p_running (fl_cpu s)) \<le> 4" "length (p_running (fl_io s)) \<le> 8"
    "matched on_cpu (fl_agents s) (awaited_jobs (fl_cpu s))" "matched on_io (fl_agents s) (awaited_jobs (fl_io s))"
    using reachable_ok [OF assms] by (auto simp: fleet_ok_def capacity_def CPU_THREADS_def IO_THREADS_def split: sem.splits)
  then show ?thesis
    using live_jobs_le [OF ok(5)] live_jobs_le [OF ok(6)] cpu_within_infer [of "fl_agents s"] io_within_gate [of "fl_agents s"] by simp
qed

text \<open>The pending semaphore never makes anybody wait: whoever asks for it is already past the gate, which
  lets no more through than the semaphore has permits.\<close>

lemma pending_never_waits:
  assumes "reachable s" "i < length (fl_agents s)" "fl_agents s ! i = AtPending"
  shows "\<exists>t. step (Move i Go) s = Some t"
proof -
  let ?ps = "fl_agents s"
  have "holders Pending ?ps < holders Backpressure ?ps"
  proof -
    have "length (filter (holds Pending) ?ps) \<le> length (filter (holds Backpressure) (?ps[i := Idle]))"
    proof -
      have "filter (holds Pending) ?ps = filter (holds Pending) (take i ?ps @ drop (Suc i) ?ps)"
        using assms(2,3) by (subst id_take_nth_drop [OF assms(2)]) (simp add: holds_def)
      moreover have "length (filter (holds Pending) (take i ?ps @ drop (Suc i) ?ps)) \<le>
          length (filter (holds Backpressure) (take i ?ps @ drop (Suc i) ?ps))"
        by (rule filter_mono_length) (auto simp: holds_def split: phase.splits)
      moreover have "filter (holds Backpressure) (?ps[i := Idle]) = filter (holds Backpressure) (take i ?ps @ drop (Suc i) ?ps)"
        using assms(2) by (simp add: upd_conv_take_nth_drop holds_def)
      ultimately show ?thesis by simp
    qed
    then show ?thesis
      using length_filter_update [OF assms(2), of "holds Backpressure" Idle] assms(3) by (simp add: holders_def holds_def)
  qed
  then have "holders Pending ?ps < 8" using reachable_ok [OF assms(1)]
    by (auto simp: fleet_ok_def capacity_def dest!: spec [of _ Backpressure])
  then have "may_enter ?ps AtPending AtInfer"
    by (simp add: may_enter_iff holds_def capacity_def split: sem.split)
  then show ?thesis using assms(2,3) by simp
qed

section \<open>Draining\<close>

text \<open>Each step of an agent brings it closer to the end of its event, whatever the number of detections.\<close>

definition before_loop :: "phase \<Rightarrow> nat" where
  "before_loop p = (case p of AtGate \<Rightarrow> 5 | Extracting \<Rightarrow> 4 | AtPending \<Rightarrow> 3 | AtInfer \<Rightarrow> 2 | Inferring _ \<Rightarrow> 1 | _ \<Rightarrow> 0)"

definition in_loop :: "phase \<Rightarrow> nat" where
  "in_loop p =
     (case p of
        Emitting n \<Rightarrow> 6 * n + 1
      | OnIo t n _ \<Rightarrow> 6 * n + (case t of DiskWrite \<Rightarrow> 2 | Rollback \<Rightarrow> 3 | RollbackTwice \<Rightarrow> 4 | Correlate \<Rightarrow> 5)
      | _ \<Rightarrow> 0)"

definition pool_load :: "pool \<Rightarrow> nat" where
  "pool_load p = 2 * length (p_queue p) + length (p_running p)"

definition fleet_measures :: "(fleet \<Rightarrow> nat) list" where
  "fleet_measures =
     [\<lambda>s. sum_list (map before_loop (fl_agents s)), \<lambda>s. sum_list (map in_loop (fl_agents s)), \<lambda>s. pool_load (fl_cpu s) + pool_load (fl_io s)]"

lemma advance_decreases:
  "advance p c = Some (e, q) \<Longrightarrow> before_loop q < before_loop p \<or> before_loop q = before_loop p \<and> in_loop q < in_loop p"
  by (cases "(p, c)" rule: advance.cases) (auto simp: before_loop_def in_loop_def split: choice.splits if_splits)

lemma ended_ranks [simp]: "before_loop (ended_phase p) = before_loop p" "in_loop (ended_phase p) = in_loop p"
  by (cases p; simp add: before_loop_def in_loop_def ended_phase_def)+

lemma settle_sum: "(\<And>p. f (ended_phase p) = f p) \<Longrightarrow> sum_list (map f (settle x ps)) = (sum_list (map f ps) :: nat)"
proof (cases x)
  case (Some i)
  assume "\<And>p. f (ended_phase p) = f p"
  then show ?thesis using Some sum_list_map_update [of i ps f "ended_phase (ps ! i)"]
    by (cases "i < length ps") (simp_all add: settle_def list_update_beyond)
qed (simp add: settle_def)

lemma take_load: "pool_take n p = Some p' \<Longrightarrow> pool_load p' < pool_load p"
  by (auto simp: pool_take_def pool_load_def split: if_splits list.splits option.splits)

lemma finish_load: "k < length (p_running p) \<Longrightarrow> pool_load (pool_finish k p) < pool_load p"
  by (simp add: pool_finish_def pool_load_def)

lemma effect_agents [simp]: "fl_agents (take_effect e i s) = fl_agents s"
  by (cases e) (simp_all add: take_effect_def)

lemma step_decreases: "step a s = Some t \<Longrightarrow> (\<And>i. a \<noteq> Arrive i) \<Longrightarrow> (t, s) \<in> measures fleet_measures"
proof (induction a s rule: step.induct)
  case (2 i c s)
  then obtain e q where q: "i < length (fl_agents s)" "advance (fl_agents s ! i) c = Some (e, q)"
    "t = take_effect e i (s\<lparr>fl_agents := (fl_agents s)[i := q]\<rparr>)"
    by (auto split: if_splits option.splits)
  show ?case
    using advance_decreases [OF q(2)] sum_list_map_update [OF q(1), of before_loop q] sum_list_map_update [OF q(1), of in_loop q]
    by (auto simp: fleet_measures_def q(3))
qed (auto simp: fleet_measures_def settle_sum take_load finish_load split: if_splits)

lemma drain_wf: "wfP (\<lambda>t s. drain_step s t)"
proof -
  have "{(t, s). drain_step s t} \<subseteq> measures fleet_measures"
    by (auto elim!: drain_step.cases intro: step_decreases)
  then show ?thesis using wf_subset [OF wf_measures] by (auto simp: wfp_def)
qed

lemma free_choice:
  assumes "p \<notin> {Idle, AtGate, AtPending, AtInfer}" "\<not> on_cpu p" "\<not> on_io p"
  shows "\<exists>c e q. advance p c = Some (e, q) \<and> (\<forall>m. holds m q \<longrightarrow> holds m p)"
proof (cases p)
  case Extracting
  then have "advance p Fail = Some (Local, Idle)" by simp
  then show ?thesis
    by (intro exI [of _ Fail] exI [of _ Local] exI [of _ Idle]) (simp add: holds_def split: sem.splits)
next
  case (Inferring b)
  then have "advance p (Found 0) = Some (Local, Emitting 0)" using assms(2) by (simp add: on_cpu_def)
  then show ?thesis using Inferring
    by (intro exI [of _ "Found 0"] exI [of _ Local] exI [of _ "Emitting 0"]) (simp add: holds_def split: sem.splits)
next
  case (Emitting n)
  then have "advance p (if n = 0 then Go else Fail) = Some (Local, if n = 0 then Idle else Emitting (n - 1))"
    by (cases n) simp_all
  then show ?thesis using Emitting
    by (intro exI [of _ "if n = 0 then Go else Fail"] exI [of _ Local] exI [of _ "if n = 0 then Idle else Emitting (n - 1)"])
      (simp add: holds_def split: sem.splits)
next
  case (OnIo t n b)
  then have "b" using assms(3) by (simp add: on_io_def)
  then have "\<exists>e q. advance p Go = Some (e, q) \<and> (\<forall>m. holds m q \<longrightarrow> m = Backpressure)"
    using OnIo by (cases t) (auto simp: holds_def split: sem.splits)
  moreover have "holds Backpressure p" using OnIo by (simp add: holds_def)
  ultimately show ?thesis by metis
qed (use assms(1) in auto)

lemma move_enabled:
  "i < length (fl_agents s) \<Longrightarrow> advance (fl_agents s ! i) c = Some (e, q) \<Longrightarrow> may_enter (fl_agents s) (fl_agents s ! i) q \<Longrightarrow>
   \<exists>t. drain_step s t"
  by (auto intro!: drain_step.intros [of "Move i c"])

lemma no_holders: "(\<And>i. i < length ps \<Longrightarrow> \<not> holds m (ps ! i)) \<Longrightarrow> holders m ps = 0"
  by (auto simp: holders_def filter_empty_conv in_set_conv_nth)

lemma no_waiters: "matched w ps (awaited_jobs p) \<Longrightarrow> jobs p = [] \<Longrightarrow> i < length ps \<Longrightarrow> \<not> w (ps ! i)"
  by (force simp: matched_def awaited_jobs_def)

lemma agents_progress:
  assumes r: "reachable s" and i: "i < length (fl_agents s)" "fl_agents s ! i \<noteq> Idle"
    and waits: "\<And>j. j < length (fl_agents s) \<Longrightarrow> \<not> on_cpu (fl_agents s ! j) \<and> \<not> on_io (fl_agents s ! j)"
  shows "\<exists>t. drain_step s t"
proof (cases "\<exists>j<length (fl_agents s). fl_agents s ! j \<notin> {Idle, AtGate, AtPending, AtInfer}")
  case True
  then obtain j where j: "j < length (fl_agents s)" "fl_agents s ! j \<notin> {Idle, AtGate, AtPending, AtInfer}" by blast
  from free_choice [OF j(2)] waits [OF j(1)] obtain c e q
    where "advance (fl_agents s ! j) c = Some (e, q)" "\<forall>m. holds m q \<longrightarrow> holds m (fl_agents s ! j)" by blast
  then show ?thesis using move_enabled [OF j(1)] by (auto simp: may_enter_iff)
next
  case False
  then have few: "fl_agents s ! j \<in> {Idle, AtGate, AtPending, AtInfer}" if "j < length (fl_agents s)" for j
    using that by blast
  have inferring: "holders Infer (fl_agents s) = 0" using few by (intro no_holders) (fastforce simp: holds_def)
  consider j where "j < length (fl_agents s)" "fl_agents s ! j = AtInfer" | j where "j < length (fl_agents s)" "fl_agents s ! j = AtPending"
    | "\<And>j. j < length (fl_agents s) \<Longrightarrow> fl_agents s ! j \<in> {Idle, AtGate}"
    using few by blast
  then show ?thesis
  proof cases
    case 1
    then show ?thesis using inferring
      by (intro move_enabled [of j s Go SubmitCpu "Inferring False"])
        (simp_all add: may_enter_iff holds_def capacity_def split: sem.split)
  next
    case 2
    from pending_never_waits [OF r this] show ?thesis by (blast intro: drain_step.intros)
  next
    case 3
    then have "holders Backpressure (fl_agents s) = 0" by (intro no_holders) (fastforce simp: holds_def)
    moreover have "fl_agents s ! i = AtGate" using 3 [OF i(1)] i(2) by simp
    ultimately show ?thesis using i(1)
      by (intro move_enabled [of i s Go Local Extracting])
        (simp_all add: may_enter_iff holds_def capacity_def split: sem.split)
  qed
qed

lemma drain_enabled: "step a s = Some t \<Longrightarrow> (\<And>i. a \<noteq> Arrive i) \<Longrightarrow> \<exists>t. drain_step s t"
  by (blast intro: drain_step.intros)

lemma pool_progress:
  assumes "jobs p \<noteq> []" "0 < n"
  shows "(\<exists>p'. pool_take n p = Some p') \<or> 0 < length (p_running p)"
  using assms by (cases "p_running p"; cases "p_queue p") (auto simp: jobs_def pool_take_def split: option.split)

lemma drain_progress:
  assumes "reachable s" "\<not> quiescent s" shows "\<exists>t. drain_step s t"
proof -
  consider "jobs (fl_cpu s) \<noteq> []" | "jobs (fl_io s) \<noteq> []" | "jobs (fl_cpu s) = []" "jobs (fl_io s) = []" by blast
  then show ?thesis
  proof cases
    case 1
    then consider p where "pool_take CPU_THREADS (fl_cpu s) = Some p" | "0 < length (p_running (fl_cpu s))"
      using pool_progress [of "fl_cpu s" CPU_THREADS] by (auto simp: CPU_THREADS_def)
    then show ?thesis
      by cases (simp_all add: drain_enabled [of CpuTake] drain_enabled [of "CpuFinish 0"])
  next
    case 2
    then consider p where "pool_take IO_THREADS (fl_io s) = Some p" | "0 < length (p_running (fl_io s))"
      using pool_progress [of "fl_io s" IO_THREADS] by (auto simp: IO_THREADS_def)
    then show ?thesis
      by cases (simp_all add: drain_enabled [of IoTake] drain_enabled [of "IoFinish 0"])
  next
    case 3
    then obtain i where i: "i < length (fl_agents s)" "fl_agents s ! i \<noteq> Idle"
      using assms(2) by (auto simp: quiescent_def list_all_length)
    have "matched on_cpu (fl_agents s) (awaited_jobs (fl_cpu s))" "matched on_io (fl_agents s) (awaited_jobs (fl_io s))"
      using reachable_ok [OF assms(1)] by (simp_all add: fleet_ok_def)
    with 3 no_waiters show ?thesis by (blast intro: agents_progress [OF assms(1) i])
  qed
qed

lemma drain_reachable: "drain_step s t \<Longrightarrow> reachable s \<Longrightarrow> reachable t"
  by (auto elim!: drain_step.cases intro: by_step)

text \<open>C9. The stream processor drains and never deadlocks: from any reachable state, with no new event, every
run of agents and threads ends, whatever times out or fails, and while an event is in flight or a job
is in a pool some step is possible; so all agents end idle with both pools empty.\<close>

theorem stream_drains:
  assumes "reachable s"
  shows "wfP (\<lambda>t s. drain_step s t) \<and> (quiescent s \<or> (\<exists>t. drain_step s t)) \<and> (\<exists>t. drain_step\<^sup>*\<^sup>* s t \<and> quiescent t)"
proof -
  from drain_wf assms have "\<exists>t. drain_step\<^sup>*\<^sup>* s t \<and> quiescent t"
  proof (induction s rule: wfp_induct_rule)
    case (less s)
    show ?case
    proof (cases "quiescent s")
      case False
      with less.prems obtain t where t: "drain_step s t" using drain_progress by blast
      with less.IH [OF t] less.prems show ?thesis by (meson converse_rtranclp_into_rtranclp drain_reachable)
    qed blast
  qed
  then show ?thesis using drain_wf drain_progress [OF assms] by blast
qed

section \<open>What the bounds do not cover\<close>

lemma run_reachable: "run_steps as s = Some t \<Longrightarrow> reachable s \<Longrightarrow> reachable t"
  by (induction as arbitrary: s) (auto split: option.splits intro: by_step)

definition classify :: "nat \<Rightarrow> action list" where
  "classify i = [Arrive i, Move i Go, Move i Ask, Move i Go, Move i Go]"

text \<open>Four queries that never come back occupy the four threads; their agents give up and go on.\<close>

definition four_stuck :: "action list" where
  "four_stuck = concat (map classify [0..<4]) @ replicate 4 CpuTake @ concat (map (\<lambda>i. [Move i (Found 0), Move i Go]) [0..<4])"

definition stuck_fleet :: "nat \<Rightarrow> fleet" where
  "stuck_fleet n = start\<lparr>fl_cpu := \<lparr>p_queue = replicate n None, p_running = replicate 4 None\<rparr>\<rparr>"

lemma four_stuck_run: "run_steps four_stuck start = Some (stuck_fleet 0)"
  by code_simp

text \<open>Each further query leaves a cancelled entry: the queue of the pool has no bound, although its live
  entries have.\<close>

definition give_up :: "action list" where
  "give_up = classify 0 @ [Move 0 (Found 0), Move 0 Go]"

lemma classify_give_up: "run_steps give_up (stuck_fleet n) = Some (stuck_fleet (Suc n))"
  by (simp add: give_up_def classify_def stuck_fleet_def start_def may_enter_def holders_def holds_def capacity_def
      take_effect_def pool_submit_def pool_abandon_def forget_def replicate_append_same numeral_eq_Suc)

lemma cpu_queue_unbounded: "reachable (stuck_fleet n) \<and> length (p_queue (fl_cpu (stuck_fleet n))) = n"
proof -
  have "reachable (stuck_fleet n)"
  proof (induction n)
    case 0
    show ?case by (rule run_reachable [OF four_stuck_run at_start])
  next
    case (Suc n)
    then show ?case by (rule run_reachable [OF classify_give_up])
  qed
  then show ?thesis by (simp add: stuck_fleet_def)
qed

text \<open>The rollback is awaited without a timeout, on the same pool: when the eight I/O threads hang in abandoned
  correlations, eight agents wait behind them, the gate is full, and no agent moves before a thread does.\<close>

definition eight_hung :: "action list" where
  "eight_hung = concat (map (\<lambda>i. [Arrive i, Move i Go, Move i (Found 1), Move i Go, IoTake]) [0..<8]) @
     map (\<lambda>i. Move i Late) [0..<8] @ map Arrive [8..<16]"

definition hung_fleet :: fleet where
  "hung_fleet = \<lparr>fl_agents = replicate 8 (OnIo Rollback 0 False) @ replicate 8 AtGate,
     fl_cpu = \<lparr>p_queue = [], p_running = []\<rparr>, fl_io = \<lparr>p_queue = map Some [0..<8], p_running = replicate 8 None\<rparr>\<rparr>"

lemma hung_reachable: "reachable hung_fleet"
proof -
  have "run_steps eight_hung start = Some hung_fleet" by code_simp
  then show ?thesis by (rule run_reachable) (rule at_start)
qed

lemma hung_waits_for_threads: "step a hung_fleet = Some t \<Longrightarrow> \<exists>k. a = IoFinish k"
proof (induction a hung_fleet rule: step.induct)
  case (1 i)
  have "fl_agents hung_fleet ! i \<noteq> Idle" if "i < 16"
    using that by (auto simp: hung_fleet_def nth_append)
  then show ?case using 1 by (simp add: hung_fleet_def split: if_splits)
next
  case (2 i c)
  have "fl_agents hung_fleet ! i \<in> {OnIo Rollback 0 False, AtGate}" if "i < 16"
    using that by (auto simp: hung_fleet_def nth_append)
  moreover have "\<not> may_enter (fl_agents hung_fleet) AtGate Extracting"
    by (simp add: may_enter_def hung_fleet_def holders_def holds_def capacity_def)
  moreover have "length (fl_agents hung_fleet) = 16" by (simp add: hung_fleet_def)
  ultimately show ?case using 2 by (auto split: if_splits choice.splits)
qed (auto simp: hung_fleet_def pool_take_def IO_THREADS_def split: if_splits)

text \<open>A dead letter that waits for a thread is dropped by the shutdown, not drained.\<close>

definition late_write :: "action list" where
  "late_write = [Arrive 0, Move 0 Go, Move 0 (Found 1), Move 0 ToDisk]"

lemma shutdown_drops_queued_write:
  "\<exists>s. reachable s \<and> fl_agents s ! 0 = OnIo DiskWrite 0 False \<and> Some 0 \<in> set (jobs (fl_io s)) \<and>
     jobs (fl_io (shutdown_executors s)) = []"
proof -
  obtain s where s: "run_steps late_write start = Some s" "fl_agents s ! 0 = OnIo DiskWrite 0 False" "fl_io s = \<lparr>p_queue = [Some 0], p_running = []\<rparr>"
    by (simp add: late_write_def start_def may_enter_def holders_def holds_def capacity_def take_effect_def pool_submit_def numeral_eq_Suc)
  moreover have "reachable s" by (rule run_reachable [OF s(1) at_start])
  ultimately show ?thesis by (intro exI [of _ s]) (simp add: jobs_def shutdown_executors_def shutdown_pool_def)
qed

text \<open>Whatever the handler runs into, nothing waits for a thread once the process exits, what runs is left
  alone, and the last line says that everything was cleaned up, also when the wait timed out.\<close>

lemma teardown_cancels:
  "p_queue (fl_io (teardown closes w s)) = [] \<and> p_queue (fl_cpu (teardown closes w s)) = [] \<and>
   p_running (fl_io (teardown closes w s)) = p_running (fl_io s) \<and> p_running (fl_cpu (teardown closes w s)) = p_running (fl_cpu s) \<and>
   last (snd (on_before_shutdown closes w s)) = CleanedUp"
  by (simp add: teardown_def on_before_shutdown_def shutdown_executors_def shutdown_pool_def)

text \<open>Even with hung threads the events are only late: once the threads end, the fleet drains.\<close>

theorem stream_drains_witness: "\<exists>t. drain_step\<^sup>*\<^sup>* hung_fleet t \<and> quiescent t"
  using stream_drains [OF hung_reachable] by blast

theorem stream_load_bounded_witness: "live_jobs (fl_io hung_fleet) \<le> 8 \<and> holders Backpressure (fl_agents hung_fleet) \<le> 8"
  using stream_load_bounded [OF hung_reachable] by blast

end
