(* ===== verification/DlqPath.thy ===== *)
theory DlqPath
  imports PyValue
begin

text \<open>
  Where \<open>inference/stream_processor_faust.py\<close> keeps the local dead letters of a pod: the path is
  computed once, at import, from the environment. \<open>str.format\<close> is modelled up to the value of a
  replacement field, a parameter whose only documented value is that of \<open>{pod}\<close>.
\<close>

section \<open>Paths\<close>

text \<open>\<open>os.path.split\<close>, \<open>os.path.splitext\<close> on a name without slash, and \<open>os.path.join\<close>.\<close>

definition path_tail :: "string \<Rightarrow> string" where
  "path_tail p = rev (takeWhile (\<lambda>c. c \<noteq> CHR ''/'') (rev p))"

definition path_split :: "string \<Rightarrow> string \<times> string" where
  "path_split p =
     (let tail = path_tail p; head = take (length p - length tail) p in
      (if list_all (\<lambda>c. c = CHR ''/'') head then head else rstrip_char (CHR ''/'') head, tail))"

definition splitext :: "string \<Rightarrow> string \<times> string" where
  "splitext f =
     (let after = length (takeWhile (\<lambda>c. c \<noteq> CHR ''.'') (rev f)); dot = length f - Suc after in
      if after = length f \<or> list_all (\<lambda>c. c = CHR ''.'') (take dot f) then (f, []) else (take dot f, drop dot f))"

definition path_join :: "string \<Rightarrow> string \<Rightarrow> string" where
  "path_join a b =
     (if prefix ''/'' b then b else if a = [] \<or> last a = CHR ''/'' then a @ b else a @ ''/'' @ b)"

section \<open>Format strings\<close>

text \<open>The text of a replacement field, up to its closing brace.\<close>

fun cut_field :: "nat \<Rightarrow> string \<Rightarrow> (string \<times> string) option" where
  "cut_field d [] = None"
| "cut_field d (c # cs) =
     (if c = CHR ''}'' \<and> d = 0 then Some ([], cs)
      else map_option (\<lambda>(f, rest). (c # f, rest))
             (cut_field (if c = CHR ''}'' then d - 1 else if c = CHR ''{'' then Suc d else d) cs))"

lemma cut_field_length: "cut_field d cs = Some (f, rest) \<Longrightarrow> length rest < length cs"
  by (induction d cs arbitrary: f rule: cut_field.induct) (auto split: if_splits)

function py_format :: "(string \<Rightarrow> string result) \<Rightarrow> string \<Rightarrow> string result" where
  "py_format field s =
     (case s of
        [] \<Rightarrow> Inr []
      | c # cs \<Rightarrow>
          if c \<in> {CHR ''{'', CHR ''}''} \<and> prefix [c] cs then bind_result (py_format field (tl cs)) (\<lambda>r. Inr (c # r))
          else if c = CHR ''}'' then Inl ValueError
          else if c = CHR ''{'' then
            (case cut_field 0 cs of
               None \<Rightarrow> Inl ValueError
             | Some (f, rest) \<Rightarrow> bind_result (field f) (\<lambda>v. bind_result (py_format field rest) (\<lambda>r. Inr (v @ r))))
          else bind_result (py_format field cs) (\<lambda>r. Inr (c # r)))"
  by pat_completeness auto
termination
  by (relation "measure (\<lambda>(_, s). length s)") (auto dest: cut_field_length)

declare py_format.simps [simp del]

section \<open>The path of a pod\<close>

definition pod_name :: "environ \<Rightarrow> string" where
  "pod_name env =
     (let a = getenv_or env ''POD_NAME'' []; b = getenv_or env ''HOSTNAME'' [] in
      if a \<noteq> [] then a else if b \<noteq> [] then b else ''default'')"

definition stream_dlq_path :: "(string \<Rightarrow> string \<Rightarrow> string result) \<Rightarrow> environ \<Rightarrow> string result" where
  "stream_dlq_path field env =
     (let raw = getenv_or env ''STREAM_DLQ_FILE_PATH'' ''/tmp/dlq/alerts.jsonl''; pod = pod_name env in
      if sublist ''{pod}'' raw then py_format (field pod) raw
      else
        (let (base_dir, filename) = path_split raw; (name, ext) = splitext filename in
         Inr (if pod \<noteq> ''default'' then path_join base_dir (name @ ''-'' @ pod @ ext) else raw)))"

definition dlq_lock_path :: "string \<Rightarrow> string" where
  "dlq_lock_path p = p @ ''.lock''"

section \<open>Pods do not share a file\<close>

definition brace_free :: "string \<Rightarrow> bool" where
  "brace_free s \<longleftrightarrow> CHR ''{'' \<notin> set s \<and> CHR ''}'' \<notin> set s"

lemma py_format_Nil [simp]: "py_format field [] = Inr []"
  by (simp add: py_format.simps)

lemma py_format_plain: "brace_free a \<Longrightarrow> py_format field (a @ s) = bind_result (py_format field s) (\<lambda>r. Inr (a @ r))"
proof (induction a)
  case Nil
  then show ?case by (cases "py_format field s") simp_all
next
  case (Cons c a)
  then have "py_format field ((c # a) @ s) = bind_result (py_format field (a @ s)) (\<lambda>r. Inr (c # r))"
    by (subst py_format.simps) (auto simp: brace_free_def)
  then show ?case using Cons by (cases "py_format field s") (simp_all add: brace_free_def)
qed

lemma py_format_pod:
  assumes "brace_free a" "brace_free b" "field ''pod'' = Inr v"
  shows "py_format field (a @ ''{pod}'' @ b) = Inr (a @ v @ b)"
proof -
  have "py_format field (''{pod}'' @ b) = bind_result (py_format field b) (\<lambda>r. Inr (v @ r))"
    using assms(3) by (subst py_format.simps) simp
  moreover have "py_format field b = Inr b" using py_format_plain [OF assms(2), of field "[]"] by simp
  ultimately show ?thesis using py_format_plain [OF assms(1), of field "''{pod}'' @ b"] by simp
qed

lemma brace_free_no_field: "brace_free s \<Longrightarrow> \<not> sublist ''{pod}'' s"
  by (auto simp: brace_free_def sublist_def)

lemma path_join_name: "path_join a (n @ ''-'' @ p @ e) = path_join a (n @ ''-'' @ q @ e) \<Longrightarrow> p = q"
  by (cases n) (auto simp: path_join_def split: if_splits)

lemma stream_dlq_path_plain:
  assumes "getenv_or env ''STREAM_DLQ_FILE_PATH'' ''/tmp/dlq/alerts.jsonl'' = raw" "brace_free raw"
    and "path_split raw = (base_dir, filename)" "splitext filename = (name, ext)" "pod_name env \<noteq> ''default''"
  shows "stream_dlq_path field env = Inr (path_join base_dir (name @ ''-'' @ pod_name env @ ext))"
proof -
  have "\<not> sublist ''{pod}'' raw" by (rule brace_free_no_field [OF assms(2)])
  then show ?thesis
    unfolding stream_dlq_path_def Let_def assms(1)
    by (simp only: if_False assms(3,4,5) split simp_thms if_True)
qed

text \<open>C38. Pods do not share a dead-letter file: two pods with the same configured path, plain or with one
\<open>{pod}\<close> in it, and different names write to different files under different locks, unless a pod has no
name at all.\<close>

theorem dlq_files_disjoint:
  assumes "getenv_or env1 ''STREAM_DLQ_FILE_PATH'' ''/tmp/dlq/alerts.jsonl'' = raw"
    and "getenv_or env2 ''STREAM_DLQ_FILE_PATH'' ''/tmp/dlq/alerts.jsonl'' = raw"
    and "brace_free raw \<or> (\<exists>a b. raw = a @ ''{pod}'' @ b \<and> brace_free a \<and> brace_free b)"
    and "pod_name env1 \<noteq> pod_name env2" "''default'' \<notin> {pod_name env1, pod_name env2}"
    and "\<And>pod. field pod ''pod'' = Inr pod"
  shows "\<exists>p1 p2. stream_dlq_path field env1 = Inr p1 \<and> stream_dlq_path field env2 = Inr p2 \<and>
    p1 \<noteq> p2 \<and> dlq_lock_path p1 \<noteq> dlq_lock_path p2"
  using assms(3)
proof
  assume plain: "brace_free raw"
  obtain base_dir filename name ext where split: "path_split raw = (base_dir, filename)" "splitext filename = (name, ext)"
    by fastforce
  have neq: "pod_name env1 \<noteq> ''default''" "pod_name env2 \<noteq> ''default''" using assms(5) by (simp_all add: eq_commute)
  have "path_join base_dir (name @ ''-'' @ pod_name env1 @ ext) \<noteq> path_join base_dir (name @ ''-'' @ pod_name env2 @ ext)"
    using path_join_name assms(4) by blast
  then show ?thesis
    using stream_dlq_path_plain [OF assms(1) plain split neq(1)] stream_dlq_path_plain [OF assms(2) plain split neq(2)]
    by (simp add: dlq_lock_path_def)
next
  assume "\<exists>a b. raw = a @ ''{pod}'' @ b \<and> brace_free a \<and> brace_free b"
  then obtain a b where raw: "raw = a @ ''{pod}'' @ b" "brace_free a" "brace_free b" by blast
  then have "stream_dlq_path field env = Inr (a @ pod_name env @ b)" if "env \<in> {env1, env2}" for env
  proof -
    have "py_format (field (pod_name env)) raw = Inr (a @ pod_name env @ b)"
      unfolding raw(1) by (rule py_format_pod [OF raw(2,3)]) (rule assms(6))
    moreover have "sublist ''{pod}'' raw" unfolding raw(1) sublist_def by blast
    moreover have "getenv_or env ''STREAM_DLQ_FILE_PATH'' ''/tmp/dlq/alerts.jsonl'' = raw" using that assms(1,2) by blast
    ultimately show ?thesis unfolding stream_dlq_path_def Let_def by (simp only: if_True)
  qed
  then show ?thesis using assms(4) by (simp add: dlq_lock_path_def)
qed

theorem dlq_files_disjoint_witness:
  "\<exists>p1 p2. stream_dlq_path (\<lambda>pod f. if f = ''pod'' then Inr pod else Inl KeyError) [''POD_NAME'' \<mapsto> ''a''] = Inr p1 \<and>
    stream_dlq_path (\<lambda>pod f. if f = ''pod'' then Inr pod else Inl KeyError) [''HOSTNAME'' \<mapsto> ''b''] = Inr p2 \<and>
    p1 \<noteq> p2 \<and> dlq_lock_path p1 \<noteq> dlq_lock_path p2"
  by (rule dlq_files_disjoint [of _ "''/tmp/dlq/alerts.jsonl''"])
    (simp_all add: getenv_or_def pod_name_def brace_free_def)

end
