(* ===== verification/Benchmark.thy ===== *)
theory Benchmark
  imports Stream Simulator
begin

text \<open>
  \<open>scripts/benchmark_throughput.py\<close>: the synthetic records, with their random draws as input, and
  \<open>evaluate_record\<close>, which claims to do what the stream processor does per event, and \<open>run_benchmark\<close> with
  the readings of its clock as input and numpy's statistics as a contract.
\<close>

section \<open>Records\<close>

text \<open>\<open>bd_rare\<close>, \<open>bd_heavy\<close> and \<open>bd_malicious\<close> tell whether the draws fell below 0.02, 0.01 and 0.01.\<close>

record bench_draws =
  bd_dns :: bool
  bd_src :: string
  bd_dst :: string
  bd_rare :: bool
  bd_random :: string
  bd_domain :: string
  bd_heavy :: bool
  bd_orig :: int
  bd_resp :: int
  bd_duration :: real
  bd_malicious :: bool

definition bench_uid :: "nat \<Rightarrow> string" where
  "bench_uid i = ''Cbench'' @ replicate (7 - length (str_of_nat i)) (CHR ''0'') @ str_of_nat i"

definition bench_head :: "string \<Rightarrow> real \<Rightarrow> nat \<Rightarrow> bench_draws \<Rightarrow> obj" where
  "bench_head kind t_base i d =
     [(''event_type'', PStr kind), (''ts'', PFloat (Fin (t_base + real i / 10000))), (''uid'', PStr (bench_uid i)),
      (''id.orig_h'', PStr (bd_src d))]"

definition bench_query :: "bench_draws \<Rightarrow> string" where
  "bench_query d = (if bd_rare d then bd_random d @ ''.cc'' else bd_domain d)"

definition bench_dns :: "real \<Rightarrow> nat \<Rightarrow> bench_draws \<Rightarrow> obj" where
  "bench_dns t_base i d = bench_head ''dns'' t_base i d @
     [(''id.orig_p'', PInt 53000), (''id.resp_h'', PStr ''8.8.8.8''), (''id.resp_p'', PInt 53), (''proto'', PStr ''udp''),
      (''query'', PStr (bench_query d)), (''qtype_name'', PStr ''A'')]"

definition bench_conn :: "real \<Rightarrow> nat \<Rightarrow> bench_draws \<Rightarrow> obj" where
  "bench_conn t_base i d =
     (let orig_b = (if bd_heavy d then 50000000 else bd_orig d); resp_b = (if orig_b > 1000000 then 100 else bd_resp d) in
      bench_head ''conn'' t_base i d @
      [(''id.orig_p'', PInt 55000), (''id.resp_h'', PStr (bd_dst d)), (''id.resp_p'', PInt 443), (''proto'', PStr ''tcp''),
       (''duration'', PFloat (Fin (bd_duration d))), (''orig_bytes'', PInt orig_b), (''resp_bytes'', PInt resp_b),
       (''orig_pkts'', PInt (max 1 (orig_b div 1400))), (''resp_pkts'', PInt (max 1 (resp_b div 1400))),
       (''conn_state'', PStr ''SF''),
       (''ja4'', PStr (if bd_malicious d then ''t13d000000_rare_fingerprint'' else ''t13d1516h2_8daaf6152771_02713d6af862''))])"

definition generate_benchmark_records :: "real \<Rightarrow> bench_draws list \<Rightarrow> obj list" where
  "generate_benchmark_records t_base ds =
     map (\<lambda>(i, d). if bd_dns d then bench_dns t_base i d else bench_conn t_base i d) (List.enumerate 0 ds)"

definition bench_draws_ok :: "bench_draws \<Rightarrow> bool" where
  "bench_draws_ok d \<longleftrightarrow>
     length (bd_random d) = 18 \<and> list_all (\<lambda>c. is_lower_az c \<or> is_decimal c) (bd_random d) \<and>
     bd_domain d \<in> {''google.com'', ''github.com'', ''microsoft.com'', ''cloudflare.com'', ''amazon.com''} \<and>
     500 \<le> bd_orig d \<and> bd_orig d \<le> 5000 \<and> 2000 \<le> bd_resp d \<and> bd_resp d \<le> 50000 \<and>
     1 / 10 \<le> bd_duration d \<and> bd_duration d \<le> 5"

section \<open>Evaluation\<close>

text \<open>\<open>len(query)\<close>, where it is defined.\<close>

definition py_len :: "pyval \<Rightarrow> nat result" where
  "py_len v = (case v of PStr s \<Rightarrow> Inr (length s) | PBytes s \<Rightarrow> Inr (length s) | PList xs \<Rightarrow> Inr (length xs)
     | PDict d \<Rightarrow> Inr (length d) | _ \<Rightarrow> Inl TypeError)"

text \<open>\<open>predict\<close> answers False for a query that is not text.\<close>

definition evaluate_record :: "'m libs \<Rightarrow> real \<Rightarrow> real \<Rightarrow> 'm engine \<Rightarrow> obj \<Rightarrow> obj list result \<times> 'm engine" where
  "evaluate_record L now later en record =
     (case bind_result (extract_features record) (evaluate_rules (l_repr L) (l_fingerprints L) record) of
        Inl e \<Rightarrow> (Inl e, en)
      | Inr detections \<Rightarrow>
          if oget record ''event_type'' = PStr ''dns'' then
            (let query = dget_or record ''query'' (PStr []) in
             if \<not> truthy query then (Inr detections, en)
             else (case py_len query of
                     Inl e \<Rightarrow> (Inl e, en)
                   | Inr n \<Rightarrow>
                       (case query of
                          PStr q \<Rightarrow>
                            if n \<le> 253 then
                              (case predict (l_text L) (l_forward L) None now later q en of
                                 ((is_dga, prob, _), en1) \<Rightarrow> (Inr (detections @ (if is_dga then [dga_detection prob] else [])), en1))
                            else (Inr detections, en)
                        | _ \<Rightarrow> (Inr detections, en))))
          else (Inr detections, en))"

section \<open>The benchmark measures the live pipeline\<close>

text \<open>Where the benchmark evaluates a record whose query, if any, is text without surrounding whitespace, it
finds exactly the detections the stream processor finds for that event, in the same order, and leaves
the engine in the same state.\<close>

lemma benchmark_mirrors_agent:
  assumes "evaluate_record L now later en record = (Inr ds, en1)" "extract_features record = Inr features"
    and "oget record ''query'' = PNone \<or> (\<exists>q. oget record ''query'' = PStr q \<and> py_strip q = q)"
  shows "detections_of L (InferenceDone now later) record features en = (ds, en1)"
proof (cases "evaluate_rules (l_repr L) (l_fingerprints L) record features")
  case (Inl e)
  then show ?thesis using assms(1,2) by (simp add: evaluate_record_def)
next
  case (Inr rules)
  have query: "dget_or record ''query'' (PStr []) \<in> {oget record ''query'', PStr []}"
    by (simp add: oget_def dget_or_def split: option.split)
  have none: "dget_or record ''query'' (PStr []) = PStr q" if "oget record ''query'' = PStr q" for q
    using that by (simp add: oget_def dget_or_def split: option.splits)
  from assms(3) show ?thesis
  proof
    assume "oget record ''query'' = PNone"
    moreover from this query have "\<not> truthy (dget_or record ''query'' (PStr []))" by auto
    ultimately show ?thesis using assms(1,2) Inr
      by (auto simp: evaluate_record_def detections_of_def infer_dga_def dns_query_def Let_def split: if_splits)
  next
    assume "\<exists>q. oget record ''query'' = PStr q \<and> py_strip q = q"
    then obtain q where q: "oget record ''query'' = PStr q" "py_strip q = q" by blast
    then show ?thesis using assms(1,2) Inr none
      by (auto simp: evaluate_record_def detections_of_def infer_dga_def dns_query_def Let_def py_len_def
          split: if_splits prod.splits)
  qed
qed

text \<open>The generated records fulfil this, and what the rules say of them is known.\<close>

lemma bench_conn_fields:
  defines "orig d \<equiv> (if bd_heavy d then 50000000 else bd_orig d)"
  shows "oget (bench_conn t i d) ''event_type'' = PStr ''conn''" "oget (bench_conn t i d) ''query'' = PNone"
    "oget (bench_conn t i d) ''conn_state'' = PStr ''SF''"
    "oget (bench_conn t i d) ''duration'' = PFloat (Fin (bd_duration d))"
    "oget (bench_conn t i d) ''orig_bytes'' = PInt (orig d)"
    "oget (bench_conn t i d) ''resp_bytes'' = PInt (if orig d > 1000000 then 100 else bd_resp d)"
    "dget_or (bench_conn t i d) ''orig_pkts'' (PInt 0) = PInt (max 1 (orig d div 1400))"
    "dget_or (bench_conn t i d) ''id.resp_p'' (PInt 0) = PInt 443"
    "dget_or (bench_conn t i d) ''ja4'' (PStr []) =
      PStr (if bd_malicious d then ''t13d000000_rare_fingerprint'' else ''t13d1516h2_8daaf6152771_02713d6af862'')"
  by (simp_all add: bench_conn_def bench_head_def Let_def orig_def)

lemma bench_conn_reported:
  assumes "bench_draws_ok d"
  shows "reported rp (bench_conn t i d)
    ((if bd_heavy d then [''RULE_DDOS_VOLUMETRIC''] else []) @ (if bd_malicious d then [''RULE_TLS_JA4_MALWARE''] else []) @
     (if bd_heavy d then [''RULE_CONN_EXFIL''] else []))"
proof -
  let ?e = "bench_conn t i d"
  note fields = bench_conn_fields [of t i d]
  have draws: "500 \<le> bd_orig d" "bd_orig d \<le> 5000" "2000 \<le> bd_resp d" "bd_resp d \<le> 50000" "1 / 10 \<le> bd_duration d"
    using assms by (simp_all add: bench_draws_ok_def)
  let ?orig = "if bd_heavy d then 50000000 else bd_orig d"
  let ?resp = "if ?orig > 1000000 then 100 else bd_resp d"
  have dur: "safe_float (PFloat (Fin (bd_duration d))) = Inr (Fin (bd_duration d))"
    by (simp add: safe_float_def is_null_field_def)
  have "\<bar>?orig + ?resp\<bar> < 2 ^ 60" using draws by auto
  then obtain b where "rate (?orig + ?resp) (Fin (bd_duration d)) = Inr b" using rate_small draws(5) by blast
  then obtain f where f: "extract_features ?e = Inr f"
    by (simp add: extract_features_conn fields extract_flow_features_def dur)
  have ja4: "(event_ja4 rp ?e \<noteq> [] \<and> event_ja4 rp ?e \<in> set (ja4_fingerprints None)) = bd_malicious d"
    by (simp add: event_ja4_def fields py_or_def default_fingerprints)
  have "bd_orig d div 1400 \<le> 10000" using draws by simp
  then have table: "conn_rule_table (max 1 (?orig div 1400)) (PStr ''SF'') 443 ?orig ?resp (bd_malicious d) =
    (if bd_heavy d then [''RULE_DDOS_VOLUMETRIC''] else []) @ (if bd_malicious d then [''RULE_TLS_JA4_MALWARE''] else []) @
    (if bd_heavy d then [''RULE_CONN_EXFIL''] else [])"
    using draws by (simp add: conn_rule_table_def)
  from conn_rules_fire [OF _ f, of "max 1 (?orig div 1400)" 443 ?orig ?resp rp "ja4_fingerprints None"]
  show ?thesis unfolding reported_def ja4 using f table by (simp add: is_event_def fields)
qed

lemma bench_dns_fields:
  "oget (bench_dns t i d) ''event_type'' = PStr ''dns''" "oget (bench_dns t i d) ''query'' = PStr (bench_query d)"
  "dget_or (bench_dns t i d) ''query'' (PStr []) = PStr (bench_query d)" "oget (bench_dns t i d) ''qtype_name'' = PStr ''A''"
  by (simp_all add: bench_dns_def bench_head_def)

lemma bench_dns_reported: "reported rp (bench_dns t i d) (dns_rule_table (bench_query d) (PStr ''A''))"
proof -
  have "is_event ''dns'' (bench_dns t i d)" by (simp add: is_event_def bench_dns_fields)
  from dns_rules_fire [OF this bench_dns_fields(3)] show ?thesis unfolding reported_def bench_dns_fields(4) by blast
qed

lemma bench_query_plain:
  assumes "bench_draws_ok d" shows "bench_query d \<noteq> [] \<and> length (bench_query d) \<le> 253 \<and> py_strip (bench_query d) = bench_query d"
proof (cases "bd_rare d")
  case True
  have "\<not> is_space c" if "c \<in> set (bd_random d @ ''.cc'')" for c
    using that assms unfolding bench_draws_ok_def list_all_iff
    by (auto simp: is_lower_az_def is_decimal_def is_space_def Let_def)
  then have "py_strip (bd_random d @ ''.cc'') = bd_random d @ ''.cc''" by (rule py_strip_no_space)
  then show ?thesis using True assms by (simp add: bench_query_def bench_draws_ok_def)
next
  case False
  have "list_all (\<lambda>q. py_strip q = q) [''google.com'', ''github.com'', ''microsoft.com'', ''cloudflare.com'', ''amazon.com'']"
    by code_simp
  then show ?thesis using False assms by (auto simp: bench_query_def bench_draws_ok_def)
qed

lemma evaluate_reported:
  assumes "reported (l_repr L) r rules" "l_fingerprints L = ja4_fingerprints None"
    and "oget r ''event_type'' \<noteq> PStr ''dns'' \<or> (\<exists>q. dget_or r ''query'' (PStr []) = PStr q)"
  shows "\<exists>ds en1 f. evaluate_record L now later en r = (Inr ds, en1) \<and> extract_features r = Inr f \<and>
    (\<exists>dl. rule_ids ds = map PStr rules @ dl \<and> set dl \<subseteq> {PStr ''DL_CNN_DGA''})"
proof -
  obtain f rs where f: "extract_features r = Inr f" "evaluate_rules (l_repr L) (l_fingerprints L) r f = Inr rs" "rule_ids rs = map PStr rules"
    using assms(1,2) by (auto simp: reported_def)
  have ids: "rule_ids (rs @ [dga_detection p]) = map PStr rules @ [PStr ''DL_CNN_DGA'']" for p
    using f(3) by (simp add: dga_detection_def rule_ids_def)
  show ?thesis
  proof (cases "oget r ''event_type'' = PStr ''dns''")
    case False
    then show ?thesis using f by (simp add: evaluate_record_def)
  next
    case True
    then obtain q where q: "dget_or r ''query'' (PStr []) = PStr q" using assms(3) by blast
    obtain is_dga prob x en1 where p: "predict (l_text L) (l_forward L) None now later q en = ((is_dga, prob, x), en1)"
      by (metis prod.collapse)
    show ?thesis using f True q p ids [of prob] by (simp add: evaluate_record_def py_len_def Let_def)
  qed
qed

text \<open>C37. The benchmark measures the live pipeline: on every record it generates, \<open>evaluate_record\<close> raises nothing
and finds exactly the detections, and leaves exactly the engine, that the stream processor's detection
step finds and leaves for that event; the rules that fire are those of the record's own draws.\<close>

theorem benchmark_measures_pipeline:
  assumes "r \<in> set (generate_benchmark_records t_base draws)" "list_all bench_draws_ok draws"
    and "l_fingerprints L = ja4_fingerprints None"
  shows "\<exists>ds en1 features. evaluate_record L now later en r = (Inr ds, en1) \<and> extract_features r = Inr features \<and>
    detections_of L (InferenceDone now later) r features en = (ds, en1) \<and>
    (\<exists>d\<in>set draws. \<exists>dl. set dl \<subseteq> {PStr ''DL_CNN_DGA''} \<and> rule_ids ds =
      map PStr (if bd_dns d then dns_rule_table (bench_query d) (PStr ''A'')
        else (if bd_heavy d then [''RULE_DDOS_VOLUMETRIC''] else []) @
             (if bd_malicious d then [''RULE_TLS_JA4_MALWARE''] else []) @
             (if bd_heavy d then [''RULE_CONN_EXFIL''] else [])) @ dl)"
proof -
  obtain i d where d: "d \<in> set draws" "r = (if bd_dns d then bench_dns t_base i d else bench_conn t_base i d)"
    using assms(1) by (force simp: generate_benchmark_records_def in_set_enumerate_eq split: prod.splits)
  have ok: "bench_draws_ok d" using d(1) assms(2) by (simp add: list_all_iff)
  have query: "oget r ''query'' = PNone \<or> (\<exists>q. oget r ''query'' = PStr q \<and> py_strip q = q)"
    using d(2) bench_query_plain [OF ok] by (simp add: bench_conn_fields bench_dns_fields)
  have typed: "oget r ''event_type'' \<noteq> PStr ''dns'' \<or> (\<exists>q. dget_or r ''query'' (PStr []) = PStr q)"
    using d(2) by (simp add: bench_conn_fields bench_dns_fields)
  have "reported (l_repr L) r (if bd_dns d then dns_rule_table (bench_query d) (PStr ''A'')
      else (if bd_heavy d then [''RULE_DDOS_VOLUMETRIC''] else []) @
           (if bd_malicious d then [''RULE_TLS_JA4_MALWARE''] else []) @
           (if bd_heavy d then [''RULE_CONN_EXFIL''] else []))"
    using d(2) bench_conn_reported [OF ok] bench_dns_reported by simp
  from evaluate_reported [OF this assms(3) typed, of now later en]
  obtain ds en1 f dl where e: "evaluate_record L now later en r = (Inr ds, en1)" "extract_features r = Inr f"
    "set dl \<subseteq> {PStr ''DL_CNN_DGA''}" "rule_ids ds = map PStr (if bd_dns d then dns_rule_table (bench_query d) (PStr ''A'')
      else (if bd_heavy d then [''RULE_DDOS_VOLUMETRIC''] else []) @
           (if bd_malicious d then [''RULE_TLS_JA4_MALWARE''] else []) @
           (if bd_heavy d then [''RULE_CONN_EXFIL''] else [])) @ dl" by blast
  with benchmark_mirrors_agent [OF e(1,2) query] d(1) show ?thesis by blast
qed

definition bench_sample :: bench_draws where
  "bench_sample = \<lparr>bd_dns = False, bd_src = ''192.168.1.10'', bd_dst = ''140.82.121.4'', bd_rare = False,
     bd_random = ''abcdefghijklmnopqr'', bd_domain = ''google.com'', bd_heavy = True, bd_orig = 500, bd_resp = 2000,
     bd_duration = 1, bd_malicious = True\<rparr>"

definition bench_engine :: "nat engine" where
  "bench_engine = \<lparr>en_model = Some 1, en_count = 0, en_sha = []\<rparr>"

theorem benchmark_measures_pipeline_witness:
  "\<exists>ds en1 features.
     evaluate_record (sample_libs\<lparr>l_fingerprints := ja4_fingerprints None\<rparr>) 0 0 bench_engine (bench_conn 5 0 bench_sample) = (Inr ds, en1) \<and>
     detections_of (sample_libs\<lparr>l_fingerprints := ja4_fingerprints None\<rparr>) (InferenceDone 0 0) (bench_conn 5 0 bench_sample) features bench_engine = (ds, en1)"
proof -
  have "list_all (\<lambda>c. is_lower_az c \<or> is_decimal c) ''abcdefghijklmnopqr''" by code_simp
  then have ok: "list_all bench_draws_ok [bench_sample]"
    by (simp add: bench_sample_def bench_draws_ok_def)
  have "bench_conn 5 0 bench_sample \<in> set (generate_benchmark_records 5 [bench_sample])"
    by (simp add: generate_benchmark_records_def bench_sample_def)
  from benchmark_measures_pipeline [OF this ok, of "sample_libs\<lparr>l_fingerprints := ja4_fingerprints None\<rparr>" 0 0 bench_engine]
  show ?thesis by auto
qed

section \<open>The run\<close>

text \<open>What the code uses of numpy.\<close>

record np_lib =
  np_percentile :: "real list \<Rightarrow> real \<Rightarrow> real result"
  np_max :: "real list \<Rightarrow> real result"
  np_mean :: "real list \<Rightarrow> real result"

definition np_documented :: "np_lib \<Rightarrow> bool" where
  "np_documented N \<longleftrightarrow> np_max N [] = Inl ValueError \<and>
     (\<forall>xs. xs \<noteq> [] \<longrightarrow> np_max N xs = Inr (Max (set xs)) \<and> np_mean N xs = Inr (sum_list xs / real (length xs)) \<and>
       (\<exists>pc. mono_on {0..100} pc \<and> pc 100 = Max (set xs) \<and> (\<forall>q\<in>{0..100}. np_percentile N xs q = Inr (pc q))))"

text \<open>The clock: around the records, and for each record before, inside the engine, and after.\<close>

record bench_clock =
  bc_start :: real
  bc_end :: real
  bc_before :: "nat \<Rightarrow> real"
  bc_after :: "nat \<Rightarrow> real"
  bc_predict :: "nat \<Rightarrow> real \<times> real"

fun evaluate_all ::
  "'m libs \<Rightarrow> (nat \<Rightarrow> real \<times> real) \<Rightarrow> nat \<Rightarrow> 'm engine \<Rightarrow> obj list \<Rightarrow> (obj list list \<times> 'm engine) result" where
  "evaluate_all L clk i en [] = Inr ([], en)"
| "evaluate_all L clk i en (r # rs) =
     (case clk i of (now, later) \<Rightarrow>
        (case evaluate_record L now later en r of
           (Inl e, en1) \<Rightarrow> Inl e
         | (Inr ds, en1) \<Rightarrow> bind_result (evaluate_all L clk (Suc i) en1 rs) (\<lambda>(dss, en2). Inr (ds # dss, en2))))"

record bench_report =
  br_flows :: int
  br_seconds :: real
  br_flows_per_sec :: real
  br_mbps :: real
  br_alerts :: nat
  br_rate :: real
  br_mean :: real
  br_p50 :: real
  br_p90 :: real
  br_p95 :: real
  br_p99 :: real
  br_max :: real

definition latencies_us :: "bench_clock \<Rightarrow> nat \<Rightarrow> real list" where
  "latencies_us C n = map (\<lambda>i. (bc_after C i - bc_before C i) * 1000000) [0..<n]"

definition alerts_count :: "obj list list \<Rightarrow> nat" where
  "alerts_count dss = length (filter (\<lambda>ds. ds \<noteq> []) dss)"

definition run_benchmark ::
  "np_lib \<Rightarrow> 'm libs \<Rightarrow> (nat \<Rightarrow> real \<times> real) \<Rightarrow> bench_clock \<Rightarrow> 'm engine \<Rightarrow> real \<Rightarrow> int \<Rightarrow> bench_draws list \<Rightarrow> bench_report result" where
  "run_benchmark N L warmup C en t_base num_records draws =
     (let records = generate_benchmark_records t_base (take (nat num_records) draws) in
      bind_result (evaluate_all L warmup 0 en (take 500 records)) (\<lambda>(_, en1).
      bind_result (evaluate_all L (bc_predict C) 0 en1 records) (\<lambda>(dss, _).
        let lat = latencies_us C (length records); total = bc_end C - bc_start C in
        if total = 0 then Inl (OtherError ''ZeroDivisionError'')
        else
          bind_result (np_percentile N lat 50) (\<lambda>p50.
          bind_result (np_percentile N lat 90) (\<lambda>p90.
          bind_result (np_percentile N lat 95) (\<lambda>p95.
          bind_result (np_percentile N lat 99) (\<lambda>p99.
          bind_result (np_max N lat) (\<lambda>max_lat.
          bind_result (np_mean N lat) (\<lambda>mean_lat.
            if num_records = 0 then Inl (OtherError ''ZeroDivisionError'')
            else Inr \<lparr>br_flows = num_records, br_seconds = total, br_flows_per_sec = of_int num_records / total,
              br_mbps = of_int num_records / total * 9600 * 8 / 1000000, br_alerts = alerts_count dss,
              br_rate = real (alerts_count dss) / of_int num_records * 100, br_mean = mean_lat, br_p50 = p50, br_p90 = p90,
              br_p95 = p95, br_p99 = p99, br_max = max_lat\<rparr>)))))))))"

definition bench_count :: "string list \<Rightarrow> int result" where
  "bench_count argv = (if length argv > 1 then of_option ValueError (parse_int (argv ! 1)) else Inr 50000)"

section \<open>What the report says\<close>

text \<open>The rules of a record's draws, and what a record and its detections have to do with them. The engine
  is asked for queries only.\<close>

definition bench_rules :: "bench_draws \<Rightarrow> string list" where
  "bench_rules d =
     (if bd_dns d then dns_rule_table (bench_query d) (PStr ''A'')
      else (if bd_heavy d then [''RULE_DDOS_VOLUMETRIC''] else []) @
           (if bd_malicious d then [''RULE_TLS_JA4_MALWARE''] else []) @
           (if bd_heavy d then [''RULE_CONN_EXFIL''] else []))"

definition drawn :: "real \<Rightarrow> obj \<Rightarrow> bench_draws \<Rightarrow> bool" where
  "drawn t r d \<longleftrightarrow> bench_draws_ok d \<and> (\<exists>i. r = (if bd_dns d then bench_dns t i d else bench_conn t i d))"

definition found :: "bench_draws \<Rightarrow> obj list \<Rightarrow> bool" where
  "found d ds \<longleftrightarrow> (bd_dns d \<or> (ds \<noteq> [] \<longleftrightarrow> bd_heavy d \<or> bd_malicious d))"

lemma generated_drawn: "list_all bench_draws_ok ds \<Longrightarrow> list_all2 (drawn t) (generate_benchmark_records t ds) ds"
  by (auto simp: list_all2_conv_all_nth generate_benchmark_records_def nth_enumerate_eq drawn_def list_all_length)

lemma evaluate_drawn:
  assumes "drawn t r d" "l_fingerprints L = ja4_fingerprints None"
  shows "\<exists>ds en1. evaluate_record L now later en r = (Inr ds, en1) \<and> found d ds"
proof (cases "bd_dns d")
  case True
  then obtain i where r: "r = bench_dns t i d" using assms(1) by (auto simp: drawn_def)
  from evaluate_reported [OF bench_dns_reported [of "l_repr L" t i d] assms(2), of now later en] True
  show ?thesis by (auto simp: r bench_dns_fields found_def)
next
  case False
  then obtain i where r: "r = bench_conn t i d" and ok: "bench_draws_ok d" using assms(1) by (auto simp: drawn_def)
  obtain f ds where "extract_features r = Inr f" "evaluate_rules (l_repr L) (ja4_fingerprints None) r f = Inr ds"
    "rule_ids ds = map PStr (bench_rules d)"
    using bench_conn_reported [OF ok, of "l_repr L" t i] False by (auto simp: reported_def r bench_rules_def)
  moreover from this(3) have "ds \<noteq> [] \<longleftrightarrow> bd_heavy d \<or> bd_malicious d" 
    using False by (cases "bd_heavy d"; cases "bd_malicious d") (auto simp: rule_ids_def bench_rules_def)
  ultimately show ?thesis using assms(2) by (simp add: evaluate_record_def r bench_conn_fields found_def)
qed

lemma evaluate_all_drawn:
  assumes "list_all2 (drawn t) rs ds" "l_fingerprints L = ja4_fingerprints None"
  shows "\<exists>dss en1. evaluate_all L clk i en rs = Inr (dss, en1) \<and> list_all2 found ds dss"
  using assms(1)
proof (induction arbitrary: i en rule: list_all2_induct)
  case (Cons r rs d ds)
  obtain now later where clk: "clk i = (now, later)" by (cases "clk i")
  from evaluate_drawn [OF Cons.hyps(1) assms(2), of now later en] obtain es en1
    where e: "evaluate_record L now later en r = (Inr es, en1)" "found d es" by blast
  obtain dss en2 where "evaluate_all L clk (Suc i) en1 rs = Inr (dss, en2)" "list_all2 found ds dss"
    using Cons.IH [of "Suc i" en1] by blast
  then show ?case using e by (simp add: clk)
qed simp

lemma alerts_between:
  "list_all2 found ds dss \<Longrightarrow>
   length (filter (\<lambda>d. \<not> bd_dns d \<and> (bd_heavy d \<or> bd_malicious d)) ds) \<le> alerts_count dss \<and>
   alerts_count dss \<le> length (filter (\<lambda>d. bd_dns d \<or> bd_heavy d \<or> bd_malicious d) ds)"
  by (induction rule: list_all2_induct) (auto simp: alerts_count_def found_def)

text \<open>The report of a benchmark over any draws: it counts the flows with a detection, between the drawn
  attack connections and those together with all queries, and its percentiles are in order.\<close>

lemma benchmark_reports:
  assumes "np_documented N" "list_all bench_draws_ok draws" "l_fingerprints L = ja4_fingerprints None"
    and "draws \<noteq> []" "bc_start C < bc_end C"
  shows "\<exists>r. run_benchmark N L warmup C en t (int (length draws)) draws = Inr r \<and> br_flows r = int (length draws) \<and>
    length (filter (\<lambda>d. \<not> bd_dns d \<and> (bd_heavy d \<or> bd_malicious d)) draws) \<le> br_alerts r \<and>
    br_alerts r \<le> length (filter (\<lambda>d. bd_dns d \<or> bd_heavy d \<or> bd_malicious d) draws) \<and>
    0 \<le> br_rate r \<and> br_rate r \<le> 100 \<and>
    br_p50 r \<le> br_p90 r \<and> br_p90 r \<le> br_p95 r \<and> br_p95 r \<le> br_p99 r \<and> br_p99 r \<le> br_max r"
proof -
  let ?rs = "generate_benchmark_records t draws" and ?n = "length draws"
  have rs: "list_all2 (drawn t) ?rs draws" by (rule generated_drawn [OF assms(2)])
  then have len: "length ?rs = ?n" by (rule list_all2_lengthD)
  obtain w en1 where warm: "evaluate_all L warmup 0 en (take 500 ?rs) = Inr (w, en1)"
    using evaluate_all_drawn [OF list_all2_takeI [OF rs] assms(3)] by blast
  obtain dss en2 where eval: "evaluate_all L (bc_predict C) 0 en1 ?rs = Inr (dss, en2)" "list_all2 found draws dss"
    using evaluate_all_drawn [OF rs assms(3)] by blast
  note alerts = alerts_between [OF eval(2)]
  then have few: "alerts_count dss \<le> ?n" using length_filter_le order_trans by blast
  let ?lat = "latencies_us C ?n"
  have "?lat \<noteq> []" using assms(4) by (simp add: latencies_us_def)
  then obtain pc where np: "np_max N ?lat = Inr (Max (set ?lat))" "np_mean N ?lat = Inr (sum_list ?lat / real (length ?lat))"
    "mono_on {0..100} pc" "pc 100 = Max (set ?lat)" "\<And>q. q \<in> {0..100} \<Longrightarrow> np_percentile N ?lat q = Inr (pc q)"
    using assms(1) unfolding np_documented_def by blast
  have run: "run_benchmark N L warmup C en t (int ?n) draws = Inr \<lparr>br_flows = int ?n, br_seconds = bc_end C - bc_start C,
      br_flows_per_sec = real ?n / (bc_end C - bc_start C), br_mbps = real ?n / (bc_end C - bc_start C) * 9600 * 8 / 1000000,
      br_alerts = alerts_count dss, br_rate = real (alerts_count dss) / real ?n * 100,
      br_mean = sum_list ?lat / real (length ?lat), br_p50 = pc 50, br_p90 = pc 90, br_p95 = pc 95, br_p99 = pc 99,
      br_max = Max (set ?lat)\<rparr>"
    using assms(4,5) by (simp add: run_benchmark_def Let_def warm eval(1) len np(1,2,5))
  have order: "pc 50 \<le> pc 90" "pc 90 \<le> pc 95" "pc 95 \<le> pc 99" "pc 99 \<le> pc 100"
    by (rule mono_onD [OF np(3)]; simp)+
  have "real (alerts_count dss) / real ?n \<le> 1" using few assms(4) by simp
  then have "real (alerts_count dss) / real ?n * 100 \<le> 100"
    using mult_right_mono [of "real (alerts_count dss) / real ?n" 1 100] by simp
  then show ?thesis unfolding run using alerts order np(4) by simp
qed

text \<open>A count of zero is accepted and ends in an exception.\<close>

lemma benchmark_of_nothing:
  "np_documented N \<Longrightarrow> n \<le> 0 \<Longrightarrow> \<exists>e. run_benchmark N L warmup C en t n draws = Inl e"
  by (auto simp: run_benchmark_def generate_benchmark_records_def latencies_us_def np_documented_def bind_result_def Let_def split: sum.split)

text \<open>One heavy connection with a rare fingerprint has three detections and counts as one alert.\<close>

lemma alerts_are_flows:
  assumes "bench_draws_ok d" "\<not> bd_dns d" "bd_heavy d" "bd_malicious d" "l_fingerprints L = ja4_fingerprints None"
  shows "\<exists>ds en1. evaluate_record L now later en (bench_conn t i d) = (Inr ds, en1) \<and> length ds = 3 \<and> alerts_count [ds] = 1"
proof -
  obtain f ds where "extract_features (bench_conn t i d) = Inr f"
    "evaluate_rules (l_repr L) (ja4_fingerprints None) (bench_conn t i d) f = Inr ds"
    "rule_ids ds = map PStr (bench_rules d)"
    using bench_conn_reported [OF assms(1), of "l_repr L" t i] assms(2) by (auto simp: reported_def bench_rules_def)
  moreover from arg_cong [OF this(3), of length] have "length ds = 3" using assms(2-4) by (simp add: bench_rules_def rule_ids_def)
  ultimately show ?thesis using assms(5) by (auto simp: evaluate_record_def bench_conn_fields alerts_count_def)
qed

text \<open>The contract has a model: the element at the rank, rounded down.\<close>

definition np_lower :: np_lib where
  "np_lower = \<lparr>np_percentile = (\<lambda>xs q. Inr (sort xs ! nat \<lfloor>real (length xs - 1) * q / 100\<rfloor>)),
     np_max = (\<lambda>xs. if xs = [] then Inl ValueError else Inr (Max (set xs))), np_mean = (\<lambda>xs. Inr (sum_list xs / real (length xs)))\<rparr>"

lemma np_lower_documented: "np_documented np_lower"
proof -
  have "\<exists>pc. mono_on {0..100} pc \<and> pc 100 = Max (set xs) \<and>
      (\<forall>q\<in>{0..100}. np_percentile np_lower xs q = Inr (pc q))" if xs: "xs \<noteq> []" for xs
  proof (intro exI conjI ballI)
    define n where "n = length xs - 1"
    have n: "n < length (sort xs)" using xs by (simp add: n_def)
    let ?r = "\<lambda>q. nat \<lfloor>real n * q / 100\<rfloor>"
    let ?pc = "\<lambda>q. sort xs ! ?r q"
    have top: "?r q \<le> n" if "q \<le> 100" for q
    proof -
      have "real n * q / 100 \<le> real n" using that mult_left_mono [of q 100 "real n"] by simp
      then show ?thesis by linarith
    qed
    show "mono_on {0..100} ?pc"
    proof (rule mono_onI)
      fix p q :: real assume pq: "p \<in> {0..100}" "q \<in> {0..100}" "p \<le> q"
      have "?r p \<le> ?r q" using pq by (intro nat_mono floor_mono divide_right_mono mult_left_mono) simp_all
      moreover have "?r q < length (sort xs)" using top [of q] pq(2) n by simp
      ultimately show "?pc p \<le> ?pc q" by (intro sorted_nth_mono) simp_all
    qed
    have "Max (set xs) = sort xs ! n"
    proof (rule Max_eqI)
      show "sort xs ! n \<in> set xs" using nth_mem [OF n] by simp
      fix y assume "y \<in> set xs"
      then obtain i where i: "i < length (sort xs)" "y = sort xs ! i" by (metis in_set_conv_nth set_sort)
      then have "i \<le> n" by (simp add: n_def)
      then show "y \<le> sort xs ! n" unfolding i(2) using n by (intro sorted_nth_mono) simp_all
    qed simp
    then show "?pc 100 = Max (set xs)" by simp
    show "np_percentile np_lower xs q = Inr (?pc q)" for q by (simp add: np_lower_def n_def)
  qed
  then show ?thesis by (simp add: np_documented_def np_lower_def)
qed

end
