(* ===== verification/Spec2Isabelle.thy ===== *)
theory Spec2Isabelle
  imports Playbooks Enrichment Delivery ApiDeps Stream Console Incidents Investigate Ingest Tailer Simulator Network TrainScript
    Agents DlqPath Benchmark
begin

text \<open>
  A verification library for the threat-detection pipeline under \<open>src/\<close>. Network events are read
  from a broker, turned into features, judged by rules and a network, enriched, published as alerts,
  correlated in Redis into incidents, and stored by a sink in a table that an API serves; a dashboard
  and a terminal console poll that API. Ingesters and a simulator feed the broker, and scripts train,
  sign and check the model.

  \<^bold>\<open>Parts, theories and code.\<close>
  \<^item> Prelude: exceptions and results (\<open>exc + 'a\<close>, every raise a value), Python dictionaries as
    association lists, list lemmas, and the locale \<open>machine\<close> (an operation that keeps an invariant
    keeps it over any run). PyText, PyValue, PyIp: the parts of Python the code uses: strings, number
    parsing, values with their truth and equality, \<open>ipaddress\<close> at 32 and 128 bits.
  \<^item> Features (\<open>inference/features.py\<close>), Rules (\<open>inference/rules.py\<close>), Risk (\<open>inference/risk.py\<close>),
    Schemas (\<open>inference/schemas.py\<close>), Playbooks (\<open>inference/playbooks.py\<close>, with a model of how a
    POSIX shell splits a line), Models (\<open>inference/models.py\<close>).
  \<^item> Redis: the store as a record of maps, the operations the scripts call as a record of functions,
    and the locale \<open>redis\<close> with their laws, interpreted on the record. Correlation
    (\<open>inference/correlation.py\<close>): both Lua scripts over any conforming store, the Python around them,
    and the construction of the connection pool.
  \<^item> Enrichment (\<open>inference/enrichment.py\<close>): the cache behind the locale \<open>intel_cache\<close>, the lookup
    with its address checks, and the change to the alert.
  \<^item> Stream (\<open>inference/stream_processor_faust.py\<close>): what one event does to the world, from features
    to dead letters, composed of the theories above. Agents: the same file's sixteen concurrent agents,
    their semaphores and thread pools, as labelled steps with the inductive relations \<open>reachable\<close> and
    \<open>drain_step\<close>; the agents use a pool through the locale \<open>worker_pool\<close>. DlqPath: where a pod keeps
    its dead letters.
  \<^item> AlertStore (\<open>api/schemas.py\<close>, \<open>api/models.py\<close>, \<open>api/routes/alerts.py\<close>, \<open>api/database.py\<close>, the
    statistics of \<open>api/main.py\<close>), Sink (\<open>api/kafka_sink.py\<close>, one iteration of its loop), DlqFile (its
    configuration and the rotation of its dead-letter file), Delivery (a group of sinks over the
    partitions of a topic: crashes, shutdowns and rebalances as the inductive relation \<open>group_run\<close>, the
    session of a process that catches up as \<open>catching\<close>),
    ApiDeps (\<open>api/deps.py\<close>, \<open>api/auth.py\<close>, the middleware and handlers of \<open>api/main.py\<close>).
  \<^item> Formatters (\<open>shared/formatters.py\<close>), DataAccess (\<open>shared/data_access.py\<close>: the polling manager and
    its incidents, an instance of the locale \<open>machine\<close>), Console (\<open>terminal/tsoc_console.py\<close>), Dashboard
    (\<open>dashboard/pages/\<close> and \<open>dashboard/app.py\<close>: gates, key figures, the queue and origins of the overview,
    evidence, relationship graph, gauges), Incidents and Investigate (the incident and the search page).
  \<^item> Ingest (\<open>ingest/tail_to_redpanda.py\<close>, \<open>ingest/pcap_ingester.py\<close>, whose totals are the locale
    \<open>flow_measure\<close>), Tailer (the threads of the tailer with their tail processes, the interrupt and the
    startup, as labelled steps with the relation \<open>tailer_reach\<close>), Simulator (\<open>ingest/simulator.py\<close>), Benchmark (\<open>scripts/benchmark_throughput.py\<close>).
  \<^item> Training (\<open>inference/train_model.py\<close>, \<open>scripts/continuous_training.py\<close>, \<open>scripts/train_dl_models.py\<close>,
    \<open>scripts/verify_model_integrity.py\<close>, \<open>scripts/sign_manifest.py\<close>): datasets, encoders, early stopping,
    deployment, verification, signing. Trainer: the file operations of training cycles in order, and the
    directories that cycles cut short leave (\<open>trained_dir\<close>). TrainScript: the data and the loop of
    \<open>scripts/train_dl_models.py\<close>. Network: the networks as compositions of PyTorch layers.
  \<^item> This theory: properties that span components.

  \<^bold>\<open>State and operations.\<close> A function of the code is a definition of the same name; an object is a
  record (\<open>correlator\<close>, \<open>engine\<close>, \<open>sink\<close>, \<open>world\<close>) passed and returned. Redis, the broker, the
  database, the disk, HTTP, clocks and thread scheduling answer through outcome records
  (\<open>corr_env\<close>, \<open>det_env\<close>, \<open>sink_env\<close>, \<open>request\<close>), so that every failure the code handles is a value the
  properties quantify over. Libraries that are not in the repository (PyTorch, SHA-256, NFKC, IDNA,
  PyJWT, JSON printing, pydantic's number coercion, the date-time format) are arguments; where a
  property needs a law of one, it is a hypothesis and the witness instantiates it.

  \<^bold>\<open>What the lemmas show.\<close>
  \<^item> Detection: exactly which rules fire on a connection and on a query, and two documented attacks on
    which none does; every detection is well
    formed and has its own playbook; entropy and risk are bounded; the tensor handed to the network
    has its shape and every character within the budget is inspected; only a verified artifact loads.
  \<^item> Correlation: the scripts answer the same over any conforming Redis; each alert is counted once;
    the window is not extended; sources do not interfere; storage is bounded; rollback undoes an alert.
  \<^item> Delivery: no detection is dropped, correlation only follows publication, a failed incident is
    compensated, a published alert is accepted by the sink; the sink loses no alert, alone never moves an
    offset back, and empties a full batch without losing what is in it. A group of sinks that crash and are
    rebalanced keeps every alert at least once, in the table or among its dead letters, and one process that
    starts again catches up in polls of any size; a rebalance can still move a committed offset back. The
    alert of a simulated attack is a row of the table that names the attack, or a dead letter for replay.
  \<^item> Security: firewall rules are quoted as the shell reads them, enrichment reaches public addresses
    only, the client address cannot be forged, scopes are enforced, tokens grant what they were
    minted with, and boot fails closed; the API key leaves only over TLS; escaped text is inert unless it
    opens an angle bracket or an ampersand reference, which the escape does not cover.
  \<^item> Concurrency: the load stays within the semaphores and the threads, nothing deadlocks and every run
    without new events ends; what the bounds do not cover (the queue of cancelled jobs, hung threads,
    shutdown) is shown by runs that reach it.
  \<^item> Display: what a poll stored is what the incidents list, each alert once, equal to a grouping by
    source; the console shows every incident and leaves an investigation alone; every incident of the
    dashboard opens with its own signals, and a search finds exactly the matching alerts.
  \<^item> Feeding: every tailed line is published, dead-lettered, blank or lost by a failed send, and every TCP or UDP
    packet is told of once by what was sent; a simulated label is detected, the
    benchmark measures what the stream processor does and its report is in order. A tailer thread that ends
    reaps its tail, one that is interrupted does not.
  \<^item> Training: the encoders agree on their domain, training stops with its best model, a deployment never
    makes an engine run unverified bytes, also when cycles are cut short anywhere and engines race with
    them; with layers of the documented shapes the network serves the engine without an exception.

  \<^bold>\<open>Termination and bounds.\<close> All definitions are total: recursion is structural, or on a list with a
  measure (\<open>replace_all\<close>, \<open>py_format\<close>, \<open>batches\<close>). The endless loops (\<open>run_sink\<close>, the agent) are one iteration
  (\<open>sink_step\<close>, \<open>process_event\<close>, \<open>step\<close>, \<open>tailer_step\<close>) and a run relation (\<open>sink_run\<close>, \<open>group_run\<close>,
  \<open>catching\<close>, \<open>reachable\<close>, \<open>tailer_reach\<close>) or a fold over it; the
  training loops are \<open>while_option\<close>, shown to end within their epoch limits. No fuel is used.
  Strings hold code points below 256. Floats are reals with infinities and NaN, so rounding is not
  modelled. Numbers written in Redis are integers.

  \<^bold>\<open>Not modelled.\<close> Layout, styles and the drawing of charts and tables of the dashboard; the dissection of
  packets by scapy; the optimisers and losses of the training scripts, which are PyTorch's (a step of
  training is an argument); logging beyond the structured lines of the API, the constant health probes and
  the printing of the scripts; the reaction of the event loop to a signal. Agents abstracts from the data of
  an event, which Stream has, and Stream from the other agents: that the outcomes Stream quantifies over are
  the choices of the agents' steps is the reading of the model, not a lemma. Redis, the broker and the
  database are contracts: their own concurrency control is not modelled, and no Redis key expires between
  two calls. The threads of the tailer take turns line by line; that overlapping increments of its shared
  counters are lost is shown apart from them. The requests that the HTTP library adds on a redirect, and
  Markdown beyond the inline syntax of CommonMark, are not modelled.
\<close>

section \<open>Properties that span components\<close>

lemma mapped_key:
  assumes "case dget THREAT_CLASS_MAP c of None \<Rightarrow> False | Some k \<Rightarrow> k \<in> set (dkeys PLAYBOOK_TEMPLATES)"
  shows "\<exists>k t. dget THREAT_CLASS_MAP c = Some k \<and> dget PLAYBOOK_TEMPLATES k = Some t"
proof -
  obtain k where k: "dget THREAT_CLASS_MAP c = Some k" "k \<in> set (dkeys PLAYBOOK_TEMPLATES)"
    using assms by (cases "dget THREAT_CLASS_MAP c") simp_all
  then have "dget PLAYBOOK_TEMPLATES k \<noteq> None" by (simp only: dget_None_iff not_not)
  with k show ?thesis by blast
qed

lemma mapped_class:
  assumes "(rid, tc) \<in> set RULE_CLASSES"
  shows "\<exists>k t. dget THREAT_CLASS_MAP (py_upper (py_strip tc)) = Some k \<and> dget PLAYBOOK_TEMPLATES k = Some t"
proof -
  have "case dget THREAT_CLASS_MAP (py_upper (py_strip tc)) of None \<Rightarrow> False | Some k \<Rightarrow> k \<in> set (dkeys PLAYBOOK_TEMPLATES)"
    using rule_classes_mapped assms by (simp only: list_all_iff) blast
  then show ?thesis by (rule mapped_key)
qed

lemma dga_mapped:
  "case dget THREAT_CLASS_MAP (py_upper (py_strip ''DGA / DNS Tunnelling'')) of None \<Rightarrow> False
   | Some k \<Rightarrow> k \<in> set (dkeys PLAYBOOK_TEMPLATES)"
  by code_simp

lemma detection_class:
  assumes "detections_of L io event f en = (ds, en')" "d \<in> set ds"
  shows "\<exists>tc. dget d ''threat_class'' = Some (PStr tc) \<and> (tc = ''DGA / DNS Tunnelling'' \<or> tc \<in> snd ` set RULE_CLASSES)"
proof -
  consider (rule) rules where "evaluate_rules (l_repr L) (l_fingerprints L) event f = Inr rules" "d \<in> set rules"
    | (dl) p where "d = dga_detection p"
    using assms by (auto simp: detections_of_def infer_dga_def Let_def split: prod.splits sum.splits if_splits inference_outcome.splits)
  then show ?thesis
  proof cases
    case rule
    have "det_ok d" using evaluate_rules_ok [OF rule(1)] rule(2) by (auto simp: list_all_iff)
    then obtain rid tc where tc: "dget d ''threat_class'' = Some (PStr tc)" "dget RULE_CLASSES rid = Some tc"
      by (auto simp: det_ok_def detection_def)
    from map_of_SomeD [OF tc(2)] have "tc \<in> snd ` set RULE_CLASSES" by force
    with tc(1) show ?thesis by blast
  next
    case dl
    then show ?thesis by (simp add: dga_detection_def)
  qed
qed

text \<open>Every detection has a response: the threat class of whatever rule fires, or of the network's
  verdict, is one of the classes the playbook generator maps, so the analyst is shown the template of
  that class and never falls to the default by accident.\<close>

theorem every_detection_has_playbook:
  assumes "detections_of L io event f en = (ds, en')" "d \<in> set ds"
  shows "\<exists>tc k t. dget d ''threat_class'' = Some (PStr tc) \<and> dget THREAT_CLASS_MAP (py_upper (py_strip tc)) = Some k \<and>
    dget PLAYBOOK_TEMPLATES k = Some t \<and> template_for rp (PStr tc) = t"
proof -
  obtain tc where tc: "dget d ''threat_class'' = Some (PStr tc)"
    "tc = ''DGA / DNS Tunnelling'' \<or> tc \<in> snd ` set RULE_CLASSES" using detection_class [OF assms] by blast
  then have "\<exists>k t. dget THREAT_CLASS_MAP (py_upper (py_strip tc)) = Some k \<and> dget PLAYBOOK_TEMPLATES k = Some t"
    using mapped_class mapped_key [OF dga_mapped] by auto
  then obtain k t where k: "dget THREAT_CLASS_MAP (py_upper (py_strip tc)) = Some k" "dget PLAYBOOK_TEMPLATES k = Some t" by blast
  then have "template_for rp (PStr tc) = t" by (simp add: template_for_def dget_or_def)
  with tc(1) k show ?thesis by blast
qed

theorem every_detection_has_playbook_witness:
  "\<exists>k t. dget THREAT_CLASS_MAP (py_upper (py_strip ''DGA / DNS Tunnelling'')) = Some k \<and> dget PLAYBOOK_TEMPLATES k = Some t \<and>
     template_for (\<lambda>_. []) (PStr ''DGA / DNS Tunnelling'') = t"
proof -
  define L :: "nat libs" where
    "L = sample_libs\<lparr>l_forward := (\<lambda>_ _. Inr (Fin 1))\<rparr>"
  let ?ev = "[(''event_type'', PStr ''dns''), (''query'', PStr ''abc'')]"
  let ?en = "\<lparr>en_model = Some 0, en_count = 0, en_sha = []\<rparr>"
  have q: "dns_query (l_repr L) ?ev = ''abc''"
  proof -
    have "py_strip ''abc'' = ''abc''" by code_simp
    then show ?thesis by (simp add: dns_query_def oget_def dget_or_def)
  qed
  have s: "sanitize (ascii_of (l_text L) (clean_of (l_text L) ''abc'')) \<noteq> []"
    "all_slices (domain_variants (ascii_of (l_text L) (clean_of (l_text L) ''abc'')) (clean_of (l_text L) ''abc'')) \<noteq> []"
    unfolding L_def sample_libs_def by code_simp+
  have "predict (l_text L) (l_forward L) None 0 0 ''abc'' ?en = ((True, Fin 1, Fin (1 / 10)), ?en\<lparr>en_count := 1\<rparr>)"
    using s by (simp add: predict_def expired_def Let_def) (simp add: L_def)
  then have "infer_dga L (InferenceDone 0 0) ?ev ?en = ([dga_detection (Fin 1)], ?en\<lparr>en_count := 1\<rparr>)"
    by (simp add: infer_dga_def oget_def dget_or_def) (simp add: q [unfolded oget_def dget_or_def])
  then obtain ds where "detections_of L (InferenceDone 0 0) ?ev [] ?en = (ds, ?en\<lparr>en_count := 1\<rparr>)" "dga_detection (Fin 1) \<in> set ds"
    by (simp add: detections_of_def)
  from every_detection_has_playbook [OF this, of "\<lambda>_. []"] show ?thesis by (simp add: dga_detection_def)
qed

text \<open>The fields of a valid alert, as the payload model of the sink reads them.\<close>

lemma is_str_text: "is_str v \<Longrightarrow> \<exists>s. v = PStr s"
  by (cases v) auto

lemma payload_fields_set: "set payload_fields = insert ''confidence_score'' (set required_strings \<union> set optional_strings)"
  unfolding payload_fields_def required_strings_def by auto

lemma required_text:
  assumes "validate_alert dt a" "k \<in> set required_strings"
  shows "\<exists>s. dget a k = Some (PStr s)"
proof -
  have "k \<in> set REQUIRED" using assms(2) by (auto simp: required_strings_def REQUIRED_def)
  then obtain v where v: "dget a k = Some v" using validated_required [OF assms(1)] by blast
  then obtain f where f: "dget ALERT_SCHEMA k = Some f" "field_ok dt f v" using validated_field [OF assms(1)] by blast
  have "f \<in> {AnyString, DateTime, IpAddress} \<or> (\<exists>xs. f = OneOf xs)"
    using assms(2) f(1) by (auto simp: required_strings_def ALERT_SCHEMA_def)
  then show ?thesis using f(2) v by (auto dest: is_str_text split: pyval.splits)
qed

lemma optional_schema:
  "list_all (\<lambda>k. k = ''evidence'' \<or> dget ALERT_SCHEMA k \<in> {Some AnyString, Some StringOrNull, Some IpOrNull, Some (OneOf [''1.0''])})
     optional_strings"
  by code_simp

lemma optional_text:
  assumes "validate_alert dt a" "k \<in> set optional_strings" "k \<noteq> ''evidence''"
  shows "dget a k \<in> {None, Some PNone} \<or> (\<exists>s. dget a k = Some (PStr s))"
proof (cases "dget a k")
  case (Some v)
  then obtain f where f: "dget ALERT_SCHEMA k = Some f" "field_ok dt f v" using validated_field [OF assms(1)] by blast
  have "f \<in> {AnyString, StringOrNull, IpOrNull} \<or> (\<exists>xs. f = OneOf xs)"
    using optional_schema assms(2,3) unfolding list_all_iff by (metis f(1) insert_iff option.inject singletonD)
  then show ?thesis using f(2) Some is_str_text [of v] by (cases v) auto
qed simp

lemma evidence_text:
  assumes "validate_alert dt a"
  shows "dget (dump_evidence e a) ''evidence'' \<in> {None, Some PNone} \<or> (\<exists>s. dget (dump_evidence e a) ''evidence'' = Some (PStr s))"
proof (cases "dget a ''evidence''")
  case (Some v)
  then have "field_ok dt ObjectOrNull v" using validated_field [OF assms Some] by (auto simp: ALERT_SCHEMA_def)
  then show ?thesis using Some by (auto simp: dump_evidence_def oget_def dget_or_def)
qed (simp add: dump_evidence_def oget_def dget_or_def)

lemma confidence_number:
  assumes "validate_alert dt a"
  shows "\<exists>v. dget a ''confidence_score'' = Some v \<and> num_val v \<noteq> None"
proof -
  obtain v where v: "dget a ''confidence_score'' = Some v"
    using validated_required [OF assms, of "''confidence_score''"] by (auto simp: REQUIRED_def)
  then have "field_ok dt Number v" using validated_field [OF assms v] by (auto simp: ALERT_SCHEMA_def)
  with v show ?thesis by (auto split: pyval.splits)
qed

text \<open>The payload model accepts a valid alert, also with its evidence printed, and reads its text fields
  as they are.\<close>

lemma valid_accepted:
  assumes "validate_alert dt a" and same: "\<And>k. k \<noteq> ''evidence'' \<Longrightarrow> dget x k = dget a k"
    and "dget x ''evidence'' \<in> {None, Some PNone} \<or> (\<exists>s. dget x ''evidence'' = Some (PStr s))"
    and "\<forall>v. num_val v \<noteq> None \<longrightarrow> as_float v \<noteq> None"
  obtains d where "alert_payload as_float x = Some d" "oget d ''threat_class'' = oget a ''threat_class''"
    "oget d ''severity'' = oget a ''severity''" "oget d ''model_name'' = oget a ''model_name''"
proof -
  have req: "\<exists>t. dget a k = Some (PStr t) \<and> field_value as_float x k = Some (PStr t)" if k: "k \<in> set required_strings" for k
  proof -
    obtain t where "dget a k = Some (PStr t)" using required_text [OF assms(1) k] by blast
    moreover have "k \<noteq> ''evidence''" "k \<noteq> ''confidence_score''" using k by (auto simp: required_strings_def)
    ultimately show ?thesis using k same [of k] by (simp add: field_value_def)
  qed
  have opt: "field_value as_float x k = Some (oget a k)" if k: "k \<in> set optional_strings" "k \<noteq> ''evidence''" for k
  proof -
    have "k \<noteq> ''confidence_score''" "k \<notin> set required_strings" using k by (auto simp: required_strings_def optional_strings_def)
    with optional_text [OF assms(1) k] same [OF k(2)] show ?thesis by (auto simp: field_value_def oget_def dget_or_def)
  qed
  have "field_value as_float x k \<noteq> None" if key: "k \<in> set payload_fields" for k
  proof -
    consider "k = ''confidence_score''" | "k \<in> set required_strings" | "k \<in> set optional_strings" "k \<noteq> ''evidence''" | "k = ''evidence''"
      using key unfolding payload_fields_set by blast
    then show ?thesis
    proof cases
      case 1
      obtain v where "dget a k = Some v" "as_float v \<noteq> None" using confidence_number [OF assms(1)] assms(4) 1 by blast
      with 1 same [of k] show ?thesis by (simp add: field_value_def)
    next
      case 4
      have "''evidence'' \<notin> set required_strings" by (simp add: required_strings_def)
      with assms(3) 4 show ?thesis by (auto simp: field_value_def)
    qed (use req opt in auto)
  qed
  then obtain d where d: "alert_payload as_float x = Some d" by (simp add: alert_payload_def)
  have plain: "oget d k = oget a k" if "k \<in> set required_strings \<or> k \<in> set optional_strings \<and> k \<noteq> ''evidence''" for k
  proof -
    have "k \<in> set payload_fields" using that unfolding payload_fields_set by blast
    from alert_payload_fields(2) [OF d this] show ?thesis
      using that req [of k] opt [of k] by (auto simp: oget_def dget_or_def)
  qed
  show ?thesis
    by (rule that [OF d]; rule plain) (simp_all add: required_strings_def optional_strings_def)
qed

text \<open>C15. What the stream processor publishes, the sink stores: an alert that passed the schema gate is
  accepted by the payload model in front of the alert table, with pydantic accepting every JSON
  number as a float, and one batch of it leaves its row in the table under its own id.\<close>

theorem published_alert_is_stored:
  assumes "validate_alert dt a" and "\<forall>v. num_val v \<noteq> None \<longrightarrow> i_as_float e v \<noteq> None"
    and "\<forall>d. i_item_ok e d" "i_db_commit e"
  shows "\<exists>r\<in>set (db_rows (s_db (snd (process_batch e [(a, tp, off)] s)))). row_alert_id r = oget a ''alert_id''"
proof -
  obtain d where d: "alert_payload (i_as_float e) (dump_evidence e a) = Some d"
    by (rule valid_accepted [OF assms(1) _ evidence_text [OF assms(1), of e] assms(2)]) (simp_all add: dump_evidence_def)
  have "s_db (snd (process_batch e [(a, tp, off)] s)) = upsert_alert d (s_db s)"
    using d assms(3,4) by (simp add: process_batch_def process_item_def Let_def)
  moreover obtain r where "r \<in> set (db_rows (upsert_alert d (s_db s)))" "oget (snd r) ''alert_id'' = oget d ''alert_id''"
    using upsert_present [OF payload_keys(2,3) [OF d], of "s_db s"] payload_keys(3) [OF d] by blast
  ultimately show ?thesis using payload_keys(4) [OF d] by (auto simp: row_alert_id_def)
qed

theorem published_alert_is_stored_witness:
  "\<exists>r\<in>set (db_rows (s_db (snd (process_batch (outage_env 0 []\<lparr>i_as_float := num_val, i_item_ok := (\<lambda>_. True), i_db_commit := True\<rparr>)
     [(stream_alert, ''alerts'', 7)] sample_sink)))). row_alert_id r = PStr ''ALT-1''"
proof -
  let ?e = "outage_env 0 []\<lparr>i_as_float := num_val, i_item_ok := (\<lambda>_. True), i_db_commit := True\<rparr>"
  have "oget stream_alert ''alert_id'' = PStr ''ALT-1''" by (simp add: stream_alert_def oget_def dget_or_def)
  with published_alert_is_stored [OF stream_alert_valid, of ?e "''alerts''" 7 sample_sink] show ?thesis by simp
qed

lemma validated_not_bare: "validate_alert dt a \<Longrightarrow> a \<noteq> [(''detection'', v)]"
  using validated_required [of dt a "''alert_id''"] by (auto simp: REQUIRED_def)

lemma published_valid:
  assumes "a \<in> set (newly (w_alerts w) (w_alerts (process_event R L io fresh env event w)))"
  shows "validate_alert (l_date_time L) a"
proof (cases "extract_features event")
  case (Inr features)
  obtain ds en where d: "detections_of L io event features (w_engine w) = (ds, en)"
    by (cases "detections_of L io event features (w_engine w)")
  have "publishes L (w\<lparr>w_engine := en\<rparr>) (process_event R L io fresh env event w)"
    using publishes_fold by (simp add: process_event_def Inr d)
  with assms show ?thesis by (auto simp: publishes_def list_all_iff)
qed (use assms in \<open>simp add: process_event_def\<close>)

text \<open>The fields of a row that name a detection, and that a storing environment keeps them.\<close>

abbreviation verdict_fields :: "string list" where
  "verdict_fields \<equiv> [''threat_class'', ''severity'', ''model_name'']"

lemma valid_read:
  assumes "validate_alert dt a" "storing e"
  shows "reads_as verdict_fields a e"
proof -
  have "\<exists>d. alert_payload (i_as_float e) (dump_evidence e x) = Some d \<and> i_item_ok e d \<and> (\<forall>k\<in>set verdict_fields. oget d k = oget a k)"
    if x: "item_of a x" for x
  proof -
    obtain e' where e': "x = dump_evidence e' a" using x by (auto simp: item_of_def)
    note ev = evidence_text [OF assms(1), of e']
    have "dump_evidence e x = x" using ev unfolding e' by (auto simp: dump_evidence_def [of e] oget_def dget_or_def)
    moreover obtain d where "alert_payload (i_as_float e) x = Some d" "oget d ''threat_class'' = oget a ''threat_class''"
      "oget d ''severity'' = oget a ''severity''" "oget d ''model_name'' = oget a ''model_name''"
      unfolding e' by (rule valid_accepted [OF assms(1) _ ev, of "i_as_float e"]) (use assms(2) in \<open>simp_all add: dump_evidence_def storing_def\<close>)
    ultimately show ?thesis using assms(2) by (simp add: storing_def)
  qed
  then show ?thesis by (simp add: reads_as_def payload_fields_def optional_strings_def)
qed

text \<open>The detection that explains a simulated attack is among those of the stream processor.\<close>

lemma attack_detected:
  assumes "label_explained (l_repr L) event" "oget event ''attack_label'' \<noteq> PStr ''normal''" "l_fingerprints L = ja4_fingerprints None"
  shows "\<exists>f ds en det k rule. extract_features event = Inr f \<and> detections_of L io event f en0 = (ds, en) \<and> det \<in> set ds \<and>
    oget event ''attack_label'' = PStr k \<and> dget rule_for k = Some rule \<and> oget det ''rule_id'' = PStr rule"
proof -
  have key: "\<exists>k. v = PStr k \<and> dget xs k = Some r" if "dget (map (\<lambda>(k, r). (PStr k, r)) xs) v = Some r" for v r and xs :: "(string, string) pydict"
    using that by (induction xs) (fastforce split: if_splits)+
  obtain rules f ds0 where r: "extract_features event = Inr f" "evaluate_rules (l_repr L) (ja4_fingerprints None) event f = Inr ds0"
    "rule_ids ds0 = map PStr rules"
    "case dget (map (\<lambda>(k, r). (PStr k, r)) rule_for) (oget event ''attack_label'') of Some r \<Rightarrow> r \<in> set rules
     | None \<Rightarrow> oget event ''attack_label'' = PStr ''normal'' \<and> rules = []"
    using assms(1) unfolding label_explained_def reported_def by blast
  obtain rule where rule: "dget (map (\<lambda>(k, r). (PStr k, r)) rule_for) (oget event ''attack_label'') = Some rule" "rule \<in> set rules"
    using r(4) assms(2) by (cases "dget (map (\<lambda>(k, r). (PStr k, r)) rule_for) (oget event ''attack_label'')") simp_all
  obtain k where k: "oget event ''attack_label'' = PStr k" "dget rule_for k = Some rule" using key [OF rule(1)] by blast
  have "PStr rule \<in> set (rule_ids ds0)" using rule(2) r(3) by simp
  then obtain det where det: "det \<in> set ds0" "oget det ''rule_id'' = PStr rule" by (auto simp: rule_ids_def)
  obtain dl en where dl: "infer_dga L io event en0 = (dl, en)" by (cases "infer_dga L io event en0")
  have "detections_of L io event f en0 = (ds0 @ dl, en)" by (simp add: detections_of_def r(2) assms(3) dl)
  moreover have "det \<in> set (ds0 @ dl)" using det(1) by simp
  ultimately show ?thesis using r(1) k det(2) by blast
qed

lemma rule_named: "dget rule_for k = Some rule \<Longrightarrow> rule \<noteq> []"
  by (auto simp: rule_for_def split: if_splits)

text \<open>An alert waits on the topic: a message of it stands at or past the committed offset, and its id is
  nobody else's.\<close>

definition on_topic :: "group \<Rightarrow> tp \<Rightarrow> obj \<Rightarrow> bool" where
  "on_topic g tp a \<longleftrightarrow> only_message (g_log g) a \<and> (\<exists>k<length (g_log g tp). committed_pos (g_store g) tp \<le> k \<and>
     m_size (g_log g tp ! k) \<le> MAX_MSG_SIZE \<and> m_json (g_log g tp ! k) = Inr (PDict a))"

text \<open>C2. From the wire to the table. An event the simulator labels as an attack has, among its detections,
  one of the rule of that attack. The stream processor writes an alert that tells of this detection as a dead
  letter marked for replay, or it publishes it; and the published alert, once it waits on the topic, is a row
  of the table with its id and the class, the severity and the rule of the detection after a restarted sink has
  caught up. The sink's group may be in any reachable state; its session (see the recovery of the group) is
  handed the backlog in polls of any size by environments in which database, broker and disk work and the
  payload model takes every number.\<close>

theorem attack_reaches_table:
  assumes attack: "loop_draws_ok ''mixed'' d" "event = next_event ''mixed'' d" "oget event ''attack_label'' \<noteq> PStr ''normal''"
    and stream: "w' = process_event R L io fresh env event w"  "l_fingerprints L = ja4_fingerprints None" "\<forall>i. dead_letters_work (env i)"
    and topic: "\<forall>a\<in>set (newly (w_alerts w) (w_alerts w')). on_topic g tp a"
    and sinks: "group_run g" "catching storing i parts (restarted i now (joined g i) g) n g1" "tp \<in> set parts"
      "(\<Sum>tp\<in>set parts. length (g_log g tp) - committed_pos (g_store g) tp) \<le> n"
    and last_one: "storing e" "5 \<le> i_now e - s_last_commit (joined g1 i)"
      "position_after (g_log g1) (mb_pos (g_members g1 i)) (polled_records e (joined g1 i)) = Some pos"
      "g2 = leave i (sink_step e (joined g1 i)) pos g1"
  shows "\<exists>f ds en det k rule a. extract_features event = Inr f \<and> detections_of L io event f (w_engine w) = (ds, en) \<and> det \<in> set ds \<and>
    oget event ''attack_label'' = PStr k \<and> dget rule_for k = Some rule \<and> oget det ''rule_id'' = PStr rule \<and> tells (l_repr L) det a \<and>
    (newly_dead w w' a \<or>
     a \<in> set (newly (w_alerts w) (w_alerts w')) \<and>
     (\<exists>r\<in>set (db_rows (st_db (g_store g2))). row_alert_id r = oget a ''alert_id'' \<and>
        oget (snd r) ''threat_class'' = oget det ''threat_class'' \<and> oget (snd r) ''severity'' = oget det ''severity'' \<and>
        oget (snd r) ''model_name'' = PStr rule))"
proof -
  obtain f ds en det k rule where det: "extract_features event = Inr f" "detections_of L io event f (w_engine w) = (ds, en)" "det \<in> set ds"
    "oget event ''attack_label'' = PStr k" "dget rule_for k = Some rule" "oget det ''rule_id'' = PStr rule"
    using attack_detected [OF mixed_labels_explained [OF attack(1), folded attack(2)] attack(3) stream(2), of io "w_engine w"] by blast
  have "accounted (l_repr L) w w' det"
    using event_accounted [OF det(1,2) stream(3) det(3), of R fresh] unfolding stream(1) .
  then obtain a where a: "a \<in> set (newly (w_alerts w) (w_alerts w')) \<or> newly_dead w w' a" "tells (l_repr L) det a" by (auto simp: accounted_def)
  have "row_says verdict_fields a (st_db (g_store g2)) \<and> a \<noteq> [(''detection'', PStr (py_str (l_repr L) (PDict det)))]"
    if pub: "a \<in> set (newly (w_alerts w) (w_alerts w'))"
  proof -
    have valid: "validate_alert (l_date_time L) a" by (rule published_valid [OF pub [unfolded stream(1)]])
    have built: "a \<noteq> [(''detection'', PStr (py_str (l_repr L) (PDict det)))]" by (rule validated_not_bare [OF valid])
    then obtain x where x: "oget a ''alert_id'' = PStr (''ALT-'' @ x)" using a(2) by (auto simp: tells_def)
    obtain k where m: "only_message (g_log g) a" "k < length (g_log g tp)" "committed_pos (g_store g) tp \<le> k"
      "m_size (g_log g tp ! k) \<le> MAX_MSG_SIZE" "m_json (g_log g tp ! k) = Inr (PDict a)"
      using topic pub by (auto simp: on_topic_def)
    have "alert_of (g_log g tp ! k) = Some (oget a ''alert_id'')" using m(4,5) x by (simp add: alert_of_def)
    from session_row [OF sinks(2) _ sinks(1) sinks(4) [folded left_over_def] last_one(1,2,3) m(1) this sinks(3) m(3,2), of verdict_fields]
    have "row_says verdict_fields a (st_db (g_store g2))" unfolding last_one(4) using valid_read [OF valid] by (simp add: storing_def)
    with built show ?thesis by blast
  qed
  then have "newly_dead w w' a \<or> a \<in> set (newly (w_alerts w) (w_alerts w')) \<and>
     (\<exists>r\<in>set (db_rows (st_db (g_store g2))). row_alert_id r = oget a ''alert_id'' \<and>
        oget (snd r) ''threat_class'' = oget det ''threat_class'' \<and> oget (snd r) ''severity'' = oget det ''severity'' \<and>
        oget (snd r) ''model_name'' = PStr rule)"
    using a rule_named [OF det(5)] det(6) by (auto simp: row_says_def tells_def py_or_def)
  with det a(2) show ?thesis by blast
qed

text \<open>A simulated flood, published; the topic holds exactly what was published, and one poll and one more
  iteration store it.\<close>

definition topic_of :: "obj list \<Rightarrow> kafka_msg list" where
  "topic_of alerts = map (\<lambda>k. \<lparr>m_offset = int k, m_size = 20, m_json = Inr (PDict (alerts ! k))\<rparr>) [0..<length alerts]"

definition store_env :: "real \<Rightarrow> kafka_msg list \<Rightarrow> sink_env" where
  "store_env now msgs = (calm_env now msgs)\<lparr>i_as_float := num_val, i_item_ok := (\<lambda>_. True)\<rparr>"

lemma storing_store_env: "storing (store_env now msgs)"
  by (simp add: storing_def working_def takes_all_def MAX_COMMIT_RETRIES_def three_attempts)
     (simp add: store_env_def calm_env_def outage_env_def)

lemma store_env_fields [simp]:
  "i_records (store_env now msgs) = Some [(''alerts'', msgs)]" "i_now (store_env now msgs) = now" "i_later (store_env now msgs) = now"
  by (simp_all add: store_env_def calm_env_def outage_env_def)

lemma last_commit_step: "working e \<Longrightarrow> s_last_commit (sink_step e s) = s_last_commit s \<or> s_last_commit (sink_step e s) = i_later e"
  using working_flush [of e "poll_phase e s"] working_step(1) [of e s]
  by (auto simp: stale_phase_def commit_offsets_def clear_batch_def)

lemma sample_draws_ok: "loop_draws_ok ''mixed'' sample_draws"
  by (simp add: loop_draws_ok_def sample_draws_def MIXED_ATTACKS_def base_draws_ok_def dns_draws_ok_def attack_draws_ok_def
      choose_attack_def)

lemma sample_label: "oget (next_event ''mixed'' sample_draws) ''attack_label'' = PStr ''ddos''"
  by (simp add: next_event_def choose_attack_def sample_draws_def generate_conn_log_def conn_shape_def)

lemma flood_detections:
  assumes "l_fingerprints L = ja4_fingerprints None"
  shows "\<exists>f ds. extract_features (next_event ''mixed'' sample_draws) = Inr f \<and>
    detections_of L InferenceFailed (next_event ''mixed'' sample_draws) f en = (ds, en) \<and> length ds = 1"
proof -
  let ?ev = "next_event ''mixed'' sample_draws"
  have ev: "?ev = generate_conn_log True ''ddos'' (ld_conn sample_draws)"
    by (simp add: next_event_def choose_attack_def sample_draws_def)
  have fields: "oget ?ev ''orig_bytes'' = PInt 100" "oget ?ev ''resp_bytes'' = PInt 100" "oget ?ev ''conn_state'' = PStr ''REJ''"
    "dget_or ?ev ''orig_pkts'' (PInt 0) = PInt 15000" "dget_or ?ev ''id.resp_p'' (PInt 0) = PInt 80"
    "oget ?ev ''event_type'' = PStr ''conn''" "is_event ''conn'' ?ev" "event_ja4 rp ?ev = []" for rp
    unfolding ev
    by (simp_all add: generate_conn_log_def conn_shape_def sample_draws_def oget_def dget_or_def is_event_def event_ja4_def py_or_def)
  obtain f where f: "extract_features ?ev = Inr f"
    using attack_detected [OF mixed_labels_explained [OF sample_draws_ok] _ assms, of InferenceFailed en] sample_label by auto
  have ints: "safe_int (PInt k) = Inr k" for k by (simp add: safe_int_def is_null_field_def)
  obtain ds where "evaluate_rules (l_repr L) (l_fingerprints L) ?ev f = Inr ds" "rule_ids ds = map PStr [''RULE_DDOS_VOLUMETRIC'']"
    using conn_rules_fire [OF fields(7) f, of 15000 80 100 100 "l_repr L" "l_fingerprints L"]
    by (auto simp: fields ints conn_rule_table_def)
  moreover from this(2) have "length (rule_ids ds) = 1" by simp
  then have "length ds = 1" by (simp add: rule_ids_def)
  ultimately show ?thesis using f fields(6) by (simp add: detections_of_def infer_dga_def)
qed

lemma one_published:
  assumes "extract_features event = Inr f" "detections_of L io event f (w_engine w) = (ds, en)" "length ds = 1" "w_alerts w = []"
  shows "length (w_alerts (process_event R L io fresh env event w)) \<le> 1"
proof -
  obtain det where "ds = [det]" using assms(3) by (cases ds) auto
  then have step: "process_event R L io fresh env event w =
      process_detection R L event (event_trace_id (l_repr L) fresh event) (w\<lparr>w_engine := en\<rparr>) (det, env 0)"
    by (simp add: process_event_def assms(1,2))
  show ?thesis
  proof (cases "raw_alert (l_repr L) (env 0) event (event_trace_id (l_repr L) fresh event) det")
    case (Inl x)
    then show ?thesis by (simp add: step process_detection_def assms(4))
  next
    case (Inr raw)
    obtain alert w1 where en: "enriched L (env 0) raw (w\<lparr>w_engine := en\<rparr>) = (alert, w1)"
      by (cases "enriched L (env 0) raw (w\<lparr>w_engine := en\<rparr>)")
    have "w_alerts w1 = []" using enriched_facts(1) [OF en] assms(4) by simp
    then show ?thesis
      using deliver_facts(2) [of R L "env 0" event alert w1] by (auto simp: step process_detection_def Inr en)
  qed
qed

theorem attack_reaches_table_witness:
  "\<exists>g (g2 :: group) w' rule det a. group_run g \<and>
     w' = process_event mem_redis (sample_libs\<lparr>l_fingerprints := ja4_fingerprints None\<rparr>) InferenceFailed []
       (\<lambda>_. disk_only\<lparr>d_publish := Sent\<rparr>) (next_event ''mixed'' sample_draws) (sample_world empty_rdb) \<and>
     dget rule_for ''ddos'' = Some rule \<and> oget det ''rule_id'' = PStr rule \<and> tells (\<lambda>_. ''?'') det a \<and>
     (newly_dead (sample_world empty_rdb) w' a \<or> (\<exists>r\<in>set (db_rows (st_db (g_store g2))). oget (snd r) ''model_name'' = PStr rule))"
proof -
  let ?L = "sample_libs\<lparr>l_fingerprints := ja4_fingerprints None\<rparr>" and ?env = "\<lambda>_ :: nat. disk_only\<lparr>d_publish := Sent\<rparr>"
  let ?w = "sample_world empty_rdb" and ?ev = "next_event ''mixed'' sample_draws"
  let ?w' = "process_event mem_redis ?L InferenceFailed [] ?env ?ev ?w"
  let ?log = "topic_of (w_alerts ?w')"
  let ?g = "sample_group\<lparr>g_log := (\<lambda>tp. if tp = ''alerts'' then ?log else [])\<rparr>"
  let ?r = "restarted 0 0 (joined ?g 0) ?g" and ?e = "store_env 1 ?log"
  let ?pos = "(\<lambda>_. 0)(''alerts'' := length ?log)"
  let ?g1 = "leave 0 (sink_step ?e (joined ?r 0)) ?pos ?r"
  let ?z = "store_env 9 []"
  have w: "w_alerts ?w = []" by (simp add: sample_world_def)
  have one: "length (w_alerts ?w') \<le> 1"
    using flood_detections [of ?L "w_engine ?w"] one_published [OF _ _ _ w] by fastforce
  have log1: "length ?log \<le> 1" using one by (simp add: topic_of_def)
  have run: "group_run ?g"
    by (rule group_run.start) (auto simp: sample_group_def table_ok_def numbered_def topic_of_def Let_def)
  have zero: "committed_pos (g_store sample_group) = (\<lambda>_. 0)"
    by (simp add: committed_pos_def sample_group_def Let_def dget_or_def fun_eq_iff)
  have topic: "on_topic ?g ''alerts'' a" if a: "a \<in> set (newly (w_alerts ?w) (w_alerts ?w'))" for a
  proof -
    have "w_alerts ?w' = [a]" using a one w by (cases "w_alerts ?w'") (auto simp: newly_def)
    then show ?thesis by (auto simp: on_topic_def only_message_def topic_of_def MAX_MSG_SIZE_def zero)
  qed
  have fresh: "s_batch (joined ?r 0) = []" by simp
  have polled: "polled_records ?e (fresh_sink 0 (g_store sample_group)) = [(''alerts'', ?log)]"
    by (simp add: polled_records_def MAX_BATCH_SIZE_def)
  have "catching storing 0 [''alerts''] ?r (if answered ?r 0 [''alerts''] ?e then Suc 0 else 0) ?g1"
    by (rule catching.serve [where ok = storing, OF catching.idle storing_store_env]) (simp add: polled zero fun_eq_iff)
  moreover have "answered ?r 0 [''alerts''] ?e" by (cases "?log = []") (auto simp: answered_def polled behind_def)
  ultimately have session: "catching storing 0 [''alerts''] ?r 1 ?g1" by simp
  have left: "(\<Sum>tp\<in>set [''alerts'']. length (g_log ?g tp) - committed_pos (g_store ?g) tp) \<le> 1" using log1 by (simp add: zero)
  have clock: "5 \<le> i_now ?z - s_last_commit (joined ?g1 0)"
    using last_commit_step [of ?e "joined ?r 0"] storing_store_env [of 1 ?log] by (auto simp: storing_def)
  have idle: "polled_records ?z s = [(''alerts'', [])] \<or> polled_records ?z s = []" for s by (simp add: polled_records_def)
  have pos: "position_after (g_log ?g1) (mb_pos (g_members ?g1 0)) (polled_records ?z (joined ?g1 0)) = Some (mb_pos (g_members ?g1 0))"
    using idle [of "joined ?g1 0"] by (elim disjE) simp_all
  have attack: "oget ?ev ''attack_label'' \<noteq> PStr ''normal''" by (simp add: sample_label)
  have letters: "\<forall>i. dead_letters_work (?env i)" by (simp add: dead_letters_work_def disk_only_def)
  have prints: "l_fingerprints ?L = ja4_fingerprints None" by simp
  have here: "''alerts'' \<in> set [''alerts'']" by simp
  have waits: "\<forall>a\<in>set (newly (w_alerts ?w) (w_alerts ?w')). on_topic ?g ''alerts'' a" using topic by blast
  from attack_reaches_table [OF sample_draws_ok refl attack refl prints letters waits run session here left storing_store_env clock pos refl]
  obtain k rule det a where f: "oget ?ev ''attack_label'' = PStr k" "dget rule_for k = Some rule"
    "oget det ''rule_id'' = PStr rule" "tells (l_repr ?L) det a"
    "newly_dead ?w ?w' a \<or> (\<exists>r\<in>set (db_rows (st_db (g_store (leave 0 (sink_step ?z (joined ?g1 0)) (mb_pos (g_members ?g1 0)) ?g1)))).
       oget (snd r) ''model_name'' = PStr rule)" by blast
  have "k = ''ddos''" "l_repr ?L = (\<lambda>_. ''?'')" using f(1) sample_label by (simp_all add: sample_libs_def)
  then have g: "dget rule_for ''ddos'' = Some rule" "tells (\<lambda>_. ''?'') det a" using f(2,4) by simp_all
  show ?thesis by (intro exI conjI, rule run, rule refl, rule g(1), rule f(3), rule g(2), rule f(5))
qed

end
